(* ===== verification/Prelude.thy ===== *)
theory Prelude
  imports Main "HOL-Library.Word" "HOL-Library.Char_ord" "HOL-Library.List_Lexorder"
begin

text \<open>
  Shared vocabulary of the development: the machine integer types of the C++ code, the
  exceptions it throws, decimal printing, C++ division, and the generic lemmas on lists and
  words that the component theories use.
\<close>

unbundle bit_operations_syntax

section \<open>Machine integers\<close>

type_synonym u8 = "8 word"
type_synonym u16 = "16 word"
type_synonym u32 = "32 word"
type_synonym u64 = "64 word"

text \<open>\<open>int64_t\<close> values are 64-bit words read through \<open>sint\<close>.\<close>

type_synonym i64 = "64 word"

named_theorems mem_simps and machine_simps and frame_intros

section \<open>Exceptions\<close>

text \<open>
  One constructor per C++ exception class that the modelled code throws.
  \<open>StopIteration\<close> is \<open>stop_iteration_exception\<close>.  \<open>StackOverflow\<close> is not an exception of
  the code: it marks a run that would exhaust the C++ call stack (an unbounded recursion).
  \<open>OutOfFuel\<close> is an artefact of the fuelled interpreter; the gas theorems show when it cannot
  arise.
\<close>

datatype exn =
    RuntimeError string
  | ValueException string
  | LanguageException string
  | OutOfGasException
  | RevertException
  | SuicideException
  | StopIteration
  | StackOverflow
  | ArithmeticTrap
  | OutOfFuel

text \<open>\<open>ArithmeticTrap\<close> is the hardware trap of \<open>INT64_MIN / -1\<close>.\<close>

section \<open>Programs: state and exceptions\<close>

text \<open>
  A piece of C++ code that may throw and that changes a state is a function from the state to
  an exception or a value, and the state it leaves.  A throw keeps the changes made before it,
  as an exception does.  \<open>bnd m f\<close> is the statement sequence \<^verbatim>\<open>auto x = m; f(x)\<close>.
\<close>

type_synonym ('s, 'a) prog = "'s \<Rightarrow> (exn + 'a) \<times> 's"

definition ret :: "'a \<Rightarrow> ('s, 'a) prog" where
  "ret x s = (Inr x, s)"

definition throw :: "exn \<Rightarrow> ('s, 'a) prog" where
  "throw e s = (Inl e, s)"

definition bnd :: "('s, 'a) prog \<Rightarrow> ('a \<Rightarrow> ('s, 'b) prog) \<Rightarrow> ('s, 'b) prog" where
  "bnd m f s = (case m s of (Inl e, s') \<Rightarrow> (Inl e, s') | (Inr x, s') \<Rightarrow> f x s')"

definition gets :: "('s \<Rightarrow> 'a) \<Rightarrow> ('s, 'a) prog" where
  "gets f s = (Inr (f s), s)"

definition modify :: "('s \<Rightarrow> 's) \<Rightarrow> ('s, unit) prog" where
  "modify f s = (Inr (), f s)"

text \<open>\<open>lift_sum r\<close> continues with a pure result or throws its exception.\<close>

definition lift_sum :: "exn + 'a \<Rightarrow> ('s, 'a) prog" where
  "lift_sum r s = (r, s)"

text \<open>\<^verbatim>\<open>if(b) throw e;\<close>\<close>

definition throw_if :: "bool \<Rightarrow> exn \<Rightarrow> ('s, unit) prog" where
  "throw_if b e = (if b then throw e else ret ())"

text \<open>\<^verbatim>\<open>for(i = 0; i < n; ++i) acc = f(acc);\<close>\<close>

primrec times :: "nat \<Rightarrow> ('a \<Rightarrow> ('s, 'a) prog) \<Rightarrow> 'a \<Rightarrow> ('s, 'a) prog" where
  "times 0 f a = ret a"
| "times (Suc n) f a = bnd (f a) (times n f)"

text \<open>\<^verbatim>\<open>for(auto x : xs) f(x);\<close>\<close>

primrec for_each :: "'b list \<Rightarrow> ('b \<Rightarrow> ('s, unit) prog) \<Rightarrow> ('s, unit) prog" where
  "for_each [] f = ret ()"
| "for_each (x # xs) f = bnd (f x) (\<lambda>_. for_each xs f)"

text \<open>
  A loop whose body says whether to go on: \<open>Inl\<close> the next state, \<open>Inr\<close> the result.  The fuel
  bounds the number of iterations.
\<close>

primrec loop_fuel :: "nat \<Rightarrow> ('a \<Rightarrow> ('s, 'a + 'b) prog) \<Rightarrow> 'a \<Rightarrow> ('s, 'b) prog" where
  "loop_fuel 0 f a = throw OutOfFuel"
| "loop_fuel (Suc n) f a =
     bnd (f a) (\<lambda>r. case r of Inl a' \<Rightarrow> loop_fuel n f a' | Inr b \<Rightarrow> ret b)"

text \<open>Running a program on a component of the state.\<close>

definition on_part :: "('s \<Rightarrow> 'p) \<Rightarrow> ('p \<Rightarrow> 's \<Rightarrow> 's) \<Rightarrow> ('p, 'a) prog \<Rightarrow> ('s, 'a) prog" where
  "on_part get put m s = (case m (get s) of (r, p) \<Rightarrow> (r, put p s))"

lemma bnd_simps [simp]:
  "bnd (ret x) f = f x"
  "bnd (throw e) f = throw e"
  "bnd (bnd m f) g = bnd m (\<lambda>x. bnd (f x) g)"
  by (auto simp: bnd_def ret_def throw_def fun_eq_iff split: prod.splits sum.splits)

lemma bnd_ret [simp]: "bnd m ret = m"
  by (auto simp: bnd_def ret_def fun_eq_iff split: prod.splits sum.splits)

lemma bnd_Inr: "m s = (Inr x, s') \<Longrightarrow> bnd m f s = f x s'"
  by (simp add: bnd_def)

lemma bnd_Inl: "m s = (Inl e, s') \<Longrightarrow> bnd m f s = (Inl e, s')"
  by (simp add: bnd_def)

lemma bnd_eq_Inr:
  "bnd m f s = (Inr y, t) \<longleftrightarrow> (\<exists>x s'. m s = (Inr x, s') \<and> f x s' = (Inr y, t))"
  by (auto simp: bnd_def split: prod.splits sum.splits)

lemma bnd_eq_Inl:
  "bnd m f s = (Inl e, t) \<longleftrightarrow> m s = (Inl e, t) \<or> (\<exists>x s'. m s = (Inr x, s') \<and> f x s' = (Inl e, t))"
  by (auto simp: bnd_def split: prod.splits sum.splits)

lemma throw_if_simps [simp]:
  "throw_if True e = throw e" "throw_if False e = ret ()"
  by (simp_all add: throw_if_def)

section \<open>C++ integer division\<close>

text \<open>C++ division truncates towards zero and the remainder has the dividend's sign.\<close>

definition cdiv :: "int \<Rightarrow> int \<Rightarrow> int" where
  "cdiv a b = sgn a * sgn b * (\<bar>a\<bar> div \<bar>b\<bar>)"

definition cmod :: "int \<Rightarrow> int \<Rightarrow> int" where
  "cmod a b = a - b * cdiv a b"

lemma cmod_bound: "b \<noteq> 0 \<Longrightarrow> \<bar>cmod a b\<bar> < \<bar>b\<bar>"
proof -
  assume b: "b \<noteq> 0"
  have "cmod a b = sgn a * (\<bar>a\<bar> mod \<bar>b\<bar>)"
  proof -
    have "b * cdiv a b = sgn a * (\<bar>b\<bar> * (\<bar>a\<bar> div \<bar>b\<bar>))"
      by (simp add: cdiv_def abs_sgn mult.assoc mult.left_commute)
    moreover have "a = sgn a * \<bar>a\<bar>" by (simp add: sgn_mult_abs)
    ultimately have "cmod a b = sgn a * (\<bar>a\<bar> - \<bar>b\<bar> * (\<bar>a\<bar> div \<bar>b\<bar>))"
      by (metis cmod_def right_diff_distrib)
    then show ?thesis by (simp add: minus_mult_div_eq_mod)
  qed
  moreover have "\<bar>sgn a * (\<bar>a\<bar> mod \<bar>b\<bar>)\<bar> \<le> \<bar>a\<bar> mod \<bar>b\<bar>"
    using b by (simp add: abs_mult sgn_if)
  moreover have "\<bar>a\<bar> mod \<bar>b\<bar> < \<bar>b\<bar>" using b by simp
  ultimately show ?thesis by linarith
qed

lemma cdiv_cmod: "b * cdiv a b + cmod a b = a"
  by (simp add: cmod_def)

section \<open>Decimal output: \<open>std::to_string\<close>\<close>

fun show_nat :: "nat \<Rightarrow> string" where
  "show_nat n =
     (if n < 10 then [char_of (48 + n)] else show_nat (n div 10) @ [char_of (48 + n mod 10)])"

declare show_nat.simps [simp del]

definition show_int :: "int \<Rightarrow> string" where
  "show_int i = (if i < 0 then CHR ''-'' # show_nat (nat (- i)) else show_nat (nat i))"

section \<open>Lists and words\<close>

lemma nth_append_left [simp]: "i < length xs \<Longrightarrow> (xs @ ys) ! i = xs ! i"
  by (simp add: nth_append)

lemma list_update_append_left [simp]: "i < length xs \<Longrightarrow> (xs @ ys)[i := v] = xs[i := v] @ ys"
  by (simp add: list_update_append)

lemma list_update_map_self [simp]: "i < length xs \<Longrightarrow> (map f xs)[i := f (xs ! i)] = map f xs"
  by (simp add: list_update_same_conv)

lemma take_drop_prefix: "take (length ys) (drop (length xs) (xs @ ys @ zs)) = ys"
  by simp

lemma unat_less_32 [simp]: "unat (w :: u32) < 2 ^ 32"
  using unsigned_less [of w] by simp

lemma unat_Suc_below:
  fixes w l :: "'a::len word"
  assumes "w < l"
  shows "unat (w + 1) = Suc (unat w)" and "unat (w + 1) \<le> unat l"
proof -
  have "w + 1 \<noteq> 0"
  proof
    assume "w + 1 = 0"
    then have "w = - 1" by (simp add: add_eq_0_iff2)
    with assms show False by (metis word_n1_ge linorder_not_less)
  qed
  then show *: "unat (w + 1) = Suc (unat w)"
    by (simp add: add.commute unatSuc)
  show "unat (w + 1) \<le> unat l"
    using assms * by (simp add: word_less_nat_alt)
qed

end
