(* ===== verification/Node_Types.thy ===== *)
theory Node_Types
  imports Prelude
begin

text \<open>
  The enumerations of \<^verbatim>\<open>include/cowlang/NodeType.h\<close> and \<^verbatim>\<open>include/cowlang/InterpreterTypes.h\<close>
  and their codes in the byte stream.  A stream holds any 32-bit number where a node type or
  an operator is read (the C++ code casts it); the decoding functions return \<open>None\<close> for a
  number outside the enumeration, where every \<open>switch\<close> of the code takes its default branch.
\<close>

section \<open>Node types\<close>

datatype node_type =
    NT_Pass
  | NT_StatementList
  | NT_Name
  | NT_Assign
  | NT_Return
  | NT_String
  | NT_Compare
  | NT_Dictionary
  | NT_Integer
  | NT_IfElse
  | NT_If
  | NT_Call
  | NT_Attribute
  | NT_UnaryOp
  | NT_BinaryOp
  | NT_BoolOp
  | NT_List
  | NT_ListComp
  | NT_Comprehension
  | NT_Tuple
  | NT_Subscript
  | NT_Index
  | NT_ForLoop
  | NT_WhileLoop
  | NT_AugmentedAssign
  | NT_Continue
  | NT_Break
  | NT_Import
  | NT_ImportFrom
  | NT_Alias
  | NT_FunctionDef
  | NT_FunctionStartDefaults
  | NT_FunctionStartStub
  | NT_FunctionStart
  | NT_FunctionEnd
  | NT_Global

fun node_code :: "node_type \<Rightarrow> u32" where
  "node_code NT_Pass = 0"
| "node_code NT_StatementList = 1"
| "node_code NT_Name = 2"
| "node_code NT_Assign = 3"
| "node_code NT_Return = 4"
| "node_code NT_String = 5"
| "node_code NT_Compare = 6"
| "node_code NT_Dictionary = 7"
| "node_code NT_Integer = 8"
| "node_code NT_IfElse = 9"
| "node_code NT_If = 10"
| "node_code NT_Call = 11"
| "node_code NT_Attribute = 12"
| "node_code NT_UnaryOp = 13"
| "node_code NT_BinaryOp = 14"
| "node_code NT_BoolOp = 15"
| "node_code NT_List = 16"
| "node_code NT_ListComp = 17"
| "node_code NT_Comprehension = 18"
| "node_code NT_Tuple = 19"
| "node_code NT_Subscript = 20"
| "node_code NT_Index = 21"
| "node_code NT_ForLoop = 22"
| "node_code NT_WhileLoop = 23"
| "node_code NT_AugmentedAssign = 24"
| "node_code NT_Continue = 25"
| "node_code NT_Break = 26"
| "node_code NT_Import = 27"
| "node_code NT_ImportFrom = 28"
| "node_code NT_Alias = 29"
| "node_code NT_FunctionDef = 30"
| "node_code NT_FunctionStartDefaults = 31"
| "node_code NT_FunctionStartStub = 32"
| "node_code NT_FunctionStart = 33"
| "node_code NT_FunctionEnd = 34"
| "node_code NT_Global = 35"

definition node_types :: "node_type list" where
  "node_types =
     [NT_Pass, NT_StatementList, NT_Name, NT_Assign, NT_Return,
      NT_String, NT_Compare, NT_Dictionary, NT_Integer, NT_IfElse,
      NT_If, NT_Call, NT_Attribute, NT_UnaryOp, NT_BinaryOp,
      NT_BoolOp, NT_List, NT_ListComp, NT_Comprehension, NT_Tuple,
      NT_Subscript, NT_Index, NT_ForLoop, NT_WhileLoop, NT_AugmentedAssign,
      NT_Continue, NT_Break, NT_Import, NT_ImportFrom, NT_Alias,
      NT_FunctionDef, NT_FunctionStartDefaults, NT_FunctionStartStub, NT_FunctionStart, NT_FunctionEnd,
      NT_Global]"

definition node_type_of :: "u32 \<Rightarrow> node_type option" where
  "node_type_of w = (if unat w < length node_types then Some (node_types ! unat w) else None)"

lemma node_type_of_code [simp]: "node_type_of (node_code x) = Some x"
  by (cases x) (simp_all add: node_type_of_def node_types_def)

lemma node_type_of_None: "node_type_of w = None \<longleftrightarrow> 36 \<le> unat w"
  by (simp add: node_type_of_def node_types_def)

section \<open>Value types\<close>

datatype value_type =
    VT_None
  | VT_Bool
  | VT_String
  | VT_Integer
  | VT_Float
  | VT_DictItems
  | VT_CppObject
  | VT_Attribute
  | VT_Builtin
  | VT_List
  | VT_Dictionary
  | VT_PersistableDictionary
  | VT_Iterator
  | VT_Tuple
  | VT_Alias
  | VT_Module
  | VT_Function
  | VT_geo_Vector2
  | VT_Custom

fun value_code :: "value_type \<Rightarrow> u32" where
  "value_code VT_None = 0"
| "value_code VT_Bool = 1"
| "value_code VT_String = 2"
| "value_code VT_Integer = 3"
| "value_code VT_Float = 4"
| "value_code VT_DictItems = 5"
| "value_code VT_CppObject = 6"
| "value_code VT_Attribute = 7"
| "value_code VT_Builtin = 8"
| "value_code VT_List = 9"
| "value_code VT_Dictionary = 10"
| "value_code VT_PersistableDictionary = 11"
| "value_code VT_Iterator = 12"
| "value_code VT_Tuple = 13"
| "value_code VT_Alias = 14"
| "value_code VT_Module = 15"
| "value_code VT_Function = 16"
| "value_code VT_geo_Vector2 = 17"
| "value_code VT_Custom = 18"

definition value_types :: "value_type list" where
  "value_types =
     [VT_None, VT_Bool, VT_String, VT_Integer, VT_Float,
      VT_DictItems, VT_CppObject, VT_Attribute, VT_Builtin, VT_List,
      VT_Dictionary, VT_PersistableDictionary, VT_Iterator, VT_Tuple, VT_Alias,
      VT_Module, VT_Function, VT_geo_Vector2, VT_Custom]"

definition value_type_of :: "u32 \<Rightarrow> value_type option" where
  "value_type_of w = (if unat w < length value_types then Some (value_types ! unat w) else None)"

lemma value_type_of_code [simp]: "value_type_of (value_code x) = Some x"
  by (cases x) (simp_all add: value_type_of_def value_types_def)

lemma value_type_of_None: "value_type_of w = None \<longleftrightarrow> 19 \<le> unat w"
  by (simp add: value_type_of_def value_types_def)

section \<open>Operators\<close>

datatype compare_op =
    Cmp_Undefined
  | Cmp_Equals
  | Cmp_In
  | Cmp_Is
  | Cmp_IsNot
  | Cmp_Less
  | Cmp_LessEqual
  | Cmp_More
  | Cmp_MoreEqual
  | Cmp_NotEqual
  | Cmp_NotIn

fun compare_code :: "compare_op \<Rightarrow> u32" where
  "compare_code Cmp_Undefined = 0"
| "compare_code Cmp_Equals = 1"
| "compare_code Cmp_In = 2"
| "compare_code Cmp_Is = 3"
| "compare_code Cmp_IsNot = 4"
| "compare_code Cmp_Less = 5"
| "compare_code Cmp_LessEqual = 6"
| "compare_code Cmp_More = 7"
| "compare_code Cmp_MoreEqual = 8"
| "compare_code Cmp_NotEqual = 9"
| "compare_code Cmp_NotIn = 10"

definition compare_ops :: "compare_op list" where
  "compare_ops =
     [Cmp_Undefined, Cmp_Equals, Cmp_In, Cmp_Is, Cmp_IsNot,
      Cmp_Less, Cmp_LessEqual, Cmp_More, Cmp_MoreEqual, Cmp_NotEqual,
      Cmp_NotIn]"

definition compare_op_of :: "u32 \<Rightarrow> compare_op option" where
  "compare_op_of w = (if unat w < length compare_ops then Some (compare_ops ! unat w) else None)"

lemma compare_op_of_code [simp]: "compare_op_of (compare_code x) = Some x"
  by (cases x) (simp_all add: compare_op_of_def compare_ops_def)

lemma compare_op_of_None: "compare_op_of w = None \<longleftrightarrow> 11 \<le> unat w"
  by (simp add: compare_op_of_def compare_ops_def)

datatype bool_op =
    Bool_Undefined
  | Bool_And
  | Bool_Or

fun bool_code :: "bool_op \<Rightarrow> u32" where
  "bool_code Bool_Undefined = 0"
| "bool_code Bool_And = 1"
| "bool_code Bool_Or = 2"

definition bool_ops :: "bool_op list" where
  "bool_ops =
     [Bool_Undefined, Bool_And, Bool_Or]"

definition bool_op_of :: "u32 \<Rightarrow> bool_op option" where
  "bool_op_of w = (if unat w < length bool_ops then Some (bool_ops ! unat w) else None)"

lemma bool_op_of_code [simp]: "bool_op_of (bool_code x) = Some x"
  by (cases x) (simp_all add: bool_op_of_def bool_ops_def)

lemma bool_op_of_None: "bool_op_of w = None \<longleftrightarrow> 3 \<le> unat w"
  by (simp add: bool_op_of_def bool_ops_def)

datatype binary_op =
    Bin_Undefined
  | Bin_Add
  | Bin_BitAnd
  | Bin_BitOr
  | Bin_BitXor
  | Bin_Div
  | Bin_FloorDiv
  | Bin_LeftShift
  | Bin_Mod
  | Bin_Mult
  | Bin_Power
  | Bin_RightShift
  | Bin_Sub

fun binary_code :: "binary_op \<Rightarrow> u32" where
  "binary_code Bin_Undefined = 0"
| "binary_code Bin_Add = 1"
| "binary_code Bin_BitAnd = 2"
| "binary_code Bin_BitOr = 3"
| "binary_code Bin_BitXor = 4"
| "binary_code Bin_Div = 5"
| "binary_code Bin_FloorDiv = 6"
| "binary_code Bin_LeftShift = 7"
| "binary_code Bin_Mod = 8"
| "binary_code Bin_Mult = 9"
| "binary_code Bin_Power = 10"
| "binary_code Bin_RightShift = 11"
| "binary_code Bin_Sub = 12"

definition binary_ops :: "binary_op list" where
  "binary_ops =
     [Bin_Undefined, Bin_Add, Bin_BitAnd, Bin_BitOr, Bin_BitXor,
      Bin_Div, Bin_FloorDiv, Bin_LeftShift, Bin_Mod, Bin_Mult,
      Bin_Power, Bin_RightShift, Bin_Sub]"

definition binary_op_of :: "u32 \<Rightarrow> binary_op option" where
  "binary_op_of w = (if unat w < length binary_ops then Some (binary_ops ! unat w) else None)"

lemma binary_op_of_code [simp]: "binary_op_of (binary_code x) = Some x"
  by (cases x) (simp_all add: binary_op_of_def binary_ops_def)

lemma binary_op_of_None: "binary_op_of w = None \<longleftrightarrow> 13 \<le> unat w"
  by (simp add: binary_op_of_def binary_ops_def)

datatype unary_op =
    Un_Undefined
  | Un_Add
  | Un_Invert
  | Un_Not
  | Un_Sub

fun unary_code :: "unary_op \<Rightarrow> u32" where
  "unary_code Un_Undefined = 0"
| "unary_code Un_Add = 1"
| "unary_code Un_Invert = 2"
| "unary_code Un_Not = 3"
| "unary_code Un_Sub = 4"

definition unary_ops :: "unary_op list" where
  "unary_ops =
     [Un_Undefined, Un_Add, Un_Invert, Un_Not, Un_Sub]"

definition unary_op_of :: "u32 \<Rightarrow> unary_op option" where
  "unary_op_of w = (if unat w < length unary_ops then Some (unary_ops ! unat w) else None)"

lemma unary_op_of_code [simp]: "unary_op_of (unary_code x) = Some x"
  by (cases x) (simp_all add: unary_op_of_def unary_ops_def)

lemma unary_op_of_None: "unary_op_of w = None \<longleftrightarrow> 5 \<le> unat w"
  by (simp add: unary_op_of_def unary_ops_def)

lemmas decode_None_iffs =
  node_type_of_None value_type_of_None compare_op_of_None bool_op_of_None binary_op_of_None
  unary_op_of_None

end
