(* ===== verification/Std_Map.thy ===== *)
theory Std_Map
  imports Prelude
begin

text \<open>
  \<open>std::map\<close> as the code uses it: \<open>find\<close>, \<open>operator[]\<close> with assignment, \<open>erase\<close>, \<open>size\<close>
  and iterators that only move forward.  The interface is the locale \<open>ordered_map\<close>; the
  model's maps are strictly sorted association lists.  An iterator is the key it points to
  (\<open>None\<close> for \<open>end()\<close>): insertions do not invalidate \<open>std::map\<close> iterators and the key of a
  node never changes, so the key is all an iterator holds.
\<close>

section \<open>The interface\<close>

locale ordered_map =
  fixes find :: "'m \<Rightarrow> 'k::linorder \<Rightarrow> 'v option"
    and put :: "'k \<Rightarrow> 'v \<Rightarrow> 'm \<Rightarrow> 'm"
    and erase :: "'k \<Rightarrow> 'm \<Rightarrow> 'm"
    and first_key :: "'m \<Rightarrow> 'k option"
    and next_key :: "'k \<Rightarrow> 'm \<Rightarrow> 'k option"
    and sound :: "'m \<Rightarrow> bool"
  assumes sound_put: "sound m \<Longrightarrow> sound (put k v m)"
    and sound_erase: "sound m \<Longrightarrow> sound (erase k m)"
    and find_put: "sound m \<Longrightarrow> find (put k v m) j = (if j = k then Some v else find m j)"
    and find_erase: "sound m \<Longrightarrow> find (erase k m) j = (if j = k then None else find m j)"
    and first_None: "sound m \<Longrightarrow> first_key m = None \<longleftrightarrow> (\<forall>k. find m k = None)"
    and first_Some: "sound m \<Longrightarrow> first_key m = Some k \<Longrightarrow>
          find m k \<noteq> None \<and> (\<forall>j. find m j \<noteq> None \<longrightarrow> k \<le> j)"
    and next_None: "sound m \<Longrightarrow> next_key k m = None \<longleftrightarrow> (\<forall>j. find m j \<noteq> None \<longrightarrow> j \<le> k)"
    and next_Some: "sound m \<Longrightarrow> next_key k m = Some j \<Longrightarrow>
          k < j \<and> find m j \<noteq> None \<and> (\<forall>i. find m i \<noteq> None \<longrightarrow> i \<le> k \<or> j \<le> i)"
begin

lemma find_put_same: "sound m \<Longrightarrow> find (put k v m) k = Some v"
  by (simp add: find_put)

lemma find_put_other: "sound m \<Longrightarrow> j \<noteq> k \<Longrightarrow> find (put k v m) j = find m j"
  by (simp add: find_put)

lemma erase_put: "sound m \<Longrightarrow> find (put k v (erase k m)) = find (put k v m)"
  by (rule ext) (simp add: find_put find_erase sound_erase)

lemma next_increases: "sound m \<Longrightarrow> next_key k m = Some j \<Longrightarrow> k < j"
  using next_Some by blast

text \<open>An iterator at \<open>k\<close> reaches every later key: none is skipped by one step.\<close>

lemma next_covers:
  assumes "sound m" and "find m i \<noteq> None" and "k < i"
  obtains j where "next_key k m = Some j" and "j \<le> i"
proof (cases "next_key k m")
  case None
  with assms show ?thesis using next_None [of m k] by auto
next
  case (Some j)
  with assms next_Some [of m k j] have "j \<le> i" by auto
  with Some show ?thesis using that by blast
qed

text \<open>An insertion behind the iterator does not change where it goes next.\<close>

lemma next_put_behind:
  assumes "sound m" and "j \<le> k"
  shows "next_key k (put j v m) = next_key k m"
proof (cases "next_key k m")
  case None
  then have "\<forall>i. find (put j v m) i \<noteq> None \<longrightarrow> i \<le> k"
    using assms next_None [of m k] by (auto simp: find_put)
  then have "next_key k (put j v m) = None"
    using next_None [of "put j v m" k] sound_put [OF assms(1)] by blast
  with None show ?thesis by simp
next
  case (Some i)
  note i = next_Some [OF assms(1) Some]
  have in_put: "find (put j v m) i \<noteq> None" using i assms(1) by (simp add: find_put)
  have "next_key k (put j v m) \<noteq> None"
  proof
    assume "next_key k (put j v m) = None"
    then have "i \<le> k" using next_None [OF sound_put [OF assms(1)]] in_put by blast
    then show False using i by (auto dest: leD)
  qed
  then obtain i' where i': "next_key k (put j v m) = Some i'" by auto
  note n = next_Some [OF sound_put [OF assms(1)] i']
  from in_put have "i' \<le> i" using n i by force
  moreover have "find m i' \<noteq> None" using n assms by (auto simp: find_put split: if_splits)
  then have "i \<le> i'" using n i by force
  ultimately show ?thesis using Some i' by simp
qed

end

section \<open>Sorted association lists\<close>

type_synonym ('k, 'v) smap = "('k \<times> 'v) list"

fun sm_find :: "('k::linorder, 'v) smap \<Rightarrow> 'k \<Rightarrow> 'v option" where
  "sm_find [] k = None"
| "sm_find ((j, v) # m) k = (if k = j then Some v else sm_find m k)"

fun sm_put :: "'k::linorder \<Rightarrow> 'v \<Rightarrow> ('k, 'v) smap \<Rightarrow> ('k, 'v) smap" where
  "sm_put k v [] = [(k, v)]"
| "sm_put k v ((j, w) # m) =
     (if k < j then (k, v) # (j, w) # m else if k = j then (k, v) # m else (j, w) # sm_put k v m)"

fun sm_erase :: "'k::linorder \<Rightarrow> ('k, 'v) smap \<Rightarrow> ('k, 'v) smap" where
  "sm_erase k [] = []"
| "sm_erase k ((j, w) # m) = (if k = j then m else (j, w) # sm_erase k m)"

fun sm_first :: "('k::linorder, 'v) smap \<Rightarrow> 'k option" where
  "sm_first [] = None"
| "sm_first ((k, v) # m) = Some k"

fun sm_next :: "'k::linorder \<Rightarrow> ('k, 'v) smap \<Rightarrow> 'k option" where
  "sm_next k [] = None"
| "sm_next k ((j, v) # m) = (if k < j then Some j else sm_next k m)"

fun sm_keys :: "('k::linorder, 'v) smap \<Rightarrow> 'k set" where
  "sm_keys [] = {}"
| "sm_keys ((k, v) # m) = insert k (sm_keys m)"

definition sm_sound :: "('k::linorder, 'v) smap \<Rightarrow> bool" where
  "sm_sound m \<longleftrightarrow> sorted_wrt (<) (map fst m)"

lemma sm_sound_Nil [simp]: "sm_sound []"
  by (simp add: sm_sound_def)

lemma sm_keys_set: "sm_keys m = set (map fst m)"
  by (induction m rule: sm_keys.induct) auto

lemma sm_sound_Cons [simp]: "sm_sound ((k, v) # m) \<longleftrightarrow> (\<forall>j \<in> sm_keys m. k < j) \<and> sm_sound m"
  by (simp add: sm_sound_def sm_keys_set)

lemma sm_find_keys: "sm_find m k = None \<longleftrightarrow> k \<notin> sm_keys m"
  by (induction m k rule: sm_find.induct) auto

lemma sm_keys_put [simp]: "sm_keys (sm_put k v m) = insert k (sm_keys m)"
  by (induction k v m rule: sm_put.induct) auto

lemma sm_keys_erase: "sm_keys (sm_erase k m) \<subseteq> sm_keys m"
  by (induction k m rule: sm_erase.induct) auto

lemma sm_sound_put [simp]: "sm_sound m \<Longrightarrow> sm_sound (sm_put k v m)"
  by (induction k v m rule: sm_put.induct) auto

lemma sm_sound_erase [simp]: "sm_sound m \<Longrightarrow> sm_sound (sm_erase k m)"
  by (induction k m rule: sm_erase.induct) (use sm_keys_erase in fastforce)+

lemma sm_find_put: "sm_sound m \<Longrightarrow> sm_find (sm_put k v m) j = (if j = k then Some v else sm_find m j)"
  by (induction k v m rule: sm_put.induct) auto

lemma sm_find_erase: "sm_sound m \<Longrightarrow> sm_find (sm_erase k m) j = (if j = k then None else sm_find m j)"
  by (induction k m rule: sm_erase.induct) (auto simp: sm_find_keys)

lemma sm_next_Some:
  "sm_sound m \<Longrightarrow> sm_next k m = Some j \<Longrightarrow>
     k < j \<and> j \<in> sm_keys m \<and> (\<forall>i \<in> sm_keys m. i \<le> k \<or> j \<le> i)"
  by (induction k m rule: sm_next.induct) (auto split: if_splits dest: less_imp_le)

lemma sm_next_None: "sm_next k m = None \<longleftrightarrow> (\<forall>j \<in> sm_keys m. j \<le> k)"
  by (induction k m rule: sm_next.induct) auto

lemma sm_first_None: "sm_first m = None \<longleftrightarrow> sm_keys m = {}"
  by (cases m rule: sm_first.cases) auto

lemma sm_first_Some: "sm_sound m \<Longrightarrow> sm_first m = Some k \<Longrightarrow> k \<in> sm_keys m \<and> (\<forall>j \<in> sm_keys m. k \<le> j)"
  by (cases m rule: sm_first.cases) (auto simp: less_imp_le)

interpretation smap: ordered_map sm_find sm_put sm_erase sm_first sm_next sm_sound
proof unfold_locales
  fix m :: "('k::linorder, 'v) smap" and k j :: 'k and v :: 'v
  assume m: "sm_sound m"
  show "sm_sound (sm_put k v m)" "sm_sound (sm_erase k m)" using m by simp_all
  show "sm_find (sm_put k v m) j = (if j = k then Some v else sm_find m j)"
    using m by (rule sm_find_put)
  show "sm_find (sm_erase k m) j = (if j = k then None else sm_find m j)"
    using m by (rule sm_find_erase)
  show "sm_first m = None \<longleftrightarrow> (\<forall>k. sm_find m k = None)"
    by (auto simp: sm_first_None sm_find_keys)
  show "sm_next k m = None \<longleftrightarrow> (\<forall>j. sm_find m j \<noteq> None \<longrightarrow> j \<le> k)"
    unfolding sm_find_keys sm_next_None by blast
  show "sm_find m k \<noteq> None \<and> (\<forall>j. sm_find m j \<noteq> None \<longrightarrow> k \<le> j)" if "sm_first m = Some k"
    using sm_first_Some [OF m that] unfolding sm_find_keys by blast
  show "k < j \<and> sm_find m j \<noteq> None \<and> (\<forall>i. sm_find m i \<noteq> None \<longrightarrow> i \<le> k \<or> j \<le> i)"
    if "sm_next k m = Some j"
    using sm_next_Some [OF m that] unfolding sm_find_keys by blast
qed

section \<open>A whole traversal\<close>

text \<open>The keys an iterator started at \<open>begin()\<close> visits until \<open>end()\<close>.\<close>

fun sm_walk :: "nat \<Rightarrow> ('k::linorder, 'v) smap \<Rightarrow> 'k option \<Rightarrow> 'k list" where
  "sm_walk 0 m p = []"
| "sm_walk (Suc n) m p = (case p of None \<Rightarrow> [] | Some k \<Rightarrow> k # sm_walk n m (sm_next k m))"

lemma sm_next_skip: "(\<forall>j \<in> sm_keys pre. j \<le> k) \<Longrightarrow> sm_next k (pre @ m) = sm_next k m"
  by (induction pre rule: sm_keys.induct) auto

lemma sm_walk_suffix:
  assumes "sm_sound (pre @ m)" and "length m \<le> n"
  shows "sm_walk n (pre @ m) (sm_first m) = map fst m"
  using assms
proof (induction m arbitrary: pre n)
  case Nil
  then show ?case by (cases n) simp_all
next
  case (Cons p m)
  obtain k v where p: "p = (k, v)" by (cases p)
  obtain n' where n: "n = Suc n'" using Cons.prems(2) by (cases n) auto
  have snd: "sm_sound ((pre @ [p]) @ m)" using Cons.prems(1) by simp
  have "\<forall>j \<in> sm_keys (pre @ [p]). j \<le> k"
    using Cons.prems(1) by (auto simp: sm_sound_def sm_keys_set sorted_wrt_append p less_imp_le)
  then have "sm_next k ((pre @ [p]) @ m) = sm_next k m" by (rule sm_next_skip)
  also have "\<dots> = sm_first m"
    using Cons.prems(1) by (cases m rule: sm_first.cases) (auto simp: sm_sound_def sorted_wrt_append p)
  finally have "sm_next k (pre @ p # m) = sm_first m" by simp
  then show ?case
    using Cons.IH [OF snd, of n'] Cons.prems(2) by (simp add: n p)
qed

lemma sm_walk_all: "sm_sound m \<Longrightarrow> sm_walk (length m) m (sm_first m) = map fst m"
  using sm_walk_suffix [of "[]" m "length m"] by simp

end
