(* ===== verification/Floats.thy ===== *)
theory Floats
  imports Prelude
begin

text \<open>
  The \<open>double\<close> operations of the code: division, the test against zero, the detour through
  \<open>float\<close> of \<open>unpack_float\<close> (\<^verbatim>\<open>include/cowlang/unpack.h\<close>), and \<open>std::to_string\<close>.  A double is
  its IEEE 754 binary64 bit pattern; results are rounded to nearest, ties to even.  Every NaN
  result is the pattern \<open>f64_nan\<close>.
\<close>

type_synonym f64 = "64 word"

definition f64_sign :: "f64 \<Rightarrow> bool" where
  "f64_sign v = bit v 63"

definition f64_expo :: "f64 \<Rightarrow> nat" where
  "f64_expo v = unat (take_bit 11 (drop_bit 52 v))"

definition f64_frac :: "f64 \<Rightarrow> nat" where
  "f64_frac v = unat (take_bit 52 v)"

definition f64_is_nan :: "f64 \<Rightarrow> bool" where
  "f64_is_nan v \<longleftrightarrow> f64_expo v = 2047 \<and> f64_frac v \<noteq> 0"

definition f64_is_inf :: "f64 \<Rightarrow> bool" where
  "f64_is_inf v \<longleftrightarrow> f64_expo v = 2047 \<and> f64_frac v = 0"

definition f64_is_zero :: "f64 \<Rightarrow> bool" where
  "f64_is_zero v \<longleftrightarrow> f64_expo v = 0 \<and> f64_frac v = 0"

definition f64_nan :: f64 where
  "f64_nan = 0x7FF8000000000000"

definition with_sign :: "bool \<Rightarrow> f64 \<Rightarrow> f64" where
  "with_sign n v = (if n then v OR push_bit 63 1 else v)"

definition f64_inf :: "bool \<Rightarrow> f64" where
  "f64_inf n = with_sign n 0x7FF0000000000000"

text \<open>
  The magnitude of a finite double, counted in units of \<open>2 ^ -1074\<close> (the smallest positive
  double), so that all the arithmetic below is on natural numbers.
\<close>

definition f64_units :: "f64 \<Rightarrow> nat" where
  "f64_units v =
     (if f64_expo v = 0 then f64_frac v else (2 ^ 52 + f64_frac v) * 2 ^ (f64_expo v - 1))"

fun bit_len :: "nat \<Rightarrow> nat" where
  "bit_len n = (if n = 0 then 0 else Suc (bit_len (n div 2)))"

declare bit_len.simps [simp del]

text \<open>The integer nearest to \<open>N / D\<close>, the even one of two equally near.\<close>

definition half_even :: "nat \<Rightarrow> nat \<Rightarrow> nat" where
  "half_even N D =
     (let q = N div D; r = N mod D in if D < 2 * r \<or> (2 * r = D \<and> odd q) then q + 1 else q)"

text \<open>
  \<open>N / D\<close> rounded to \<open>p\<close> significant bits, no finer than \<open>2 ^ lo\<close>; and the double with a
  given number of units, infinite from \<open>2 ^ 1024\<close> on.
\<close>

definition round_units :: "nat \<Rightarrow> nat \<Rightarrow> nat \<Rightarrow> nat \<Rightarrow> nat" where
  "round_units p lo N D = (let k = max lo (bit_len (N div D) - p) in half_even N (D * 2 ^ k) * 2 ^ k)"

definition f64_pack :: "bool \<Rightarrow> nat \<Rightarrow> f64" where
  "f64_pack n u =
     (let k = bit_len u - 53; w = k * 2 ^ 52 + u div 2 ^ k
      in if 2047 * 2 ^ 52 \<le> w then f64_inf n else with_sign n (of_nat w))"

definition f64_div :: "f64 \<Rightarrow> f64 \<Rightarrow> f64" where
  "f64_div a b =
     (let n = (f64_sign a \<noteq> f64_sign b)
      in if f64_is_nan a \<or> f64_is_nan b \<or> (f64_is_inf a \<and> f64_is_inf b) \<or> (f64_is_zero a \<and> f64_is_zero b)
         then f64_nan
         else if f64_is_inf a \<or> f64_is_zero b then f64_inf n
         else if f64_is_inf b then with_sign n 0
         else f64_pack n (round_units 53 0 (f64_units a * 2 ^ 1074) (f64_units b)))"

text \<open>\<open>(double)(float)v\<close>: 24 significant bits, no finer than \<open>2 ^ -149\<close>, infinite from \<open>2 ^ 128\<close>.\<close>

definition f64_narrow :: "f64 \<Rightarrow> f64" where
  "f64_narrow v =
     (if f64_is_nan v then f64_nan
      else if f64_is_inf v then v
      else let u = round_units 24 925 (f64_units v) 1
           in if 2 ^ 1202 \<le> u then f64_inf (f64_sign v) else f64_pack (f64_sign v) u)"

text \<open>\<open>std::to_string(double)\<close>, that is \<^verbatim>\<open>printf("%f")\<close>.\<close>

definition f64_show :: "f64 \<Rightarrow> string" where
  "f64_show v =
     (let body =
        (if f64_is_nan v then ''nan''
         else if f64_is_inf v then ''inf''
         else let t = half_even (f64_units v * 10 ^ 6) (2 ^ 1074);
                  d = show_nat (t mod 10 ^ 6)
              in show_nat (t div 10 ^ 6) @ ''.'' @ replicate (6 - length d) (CHR ''0'') @ d)
      in if f64_sign v then CHR ''-'' # body else body)"

end
