(* ===== verification/Values.thy ===== *)
theory Values
  imports Prelude Node_Types Std_Map Floats
begin

text \<open>
  The value objects of the interpreter (\<^verbatim>\<open>include/cowlang/Value.h\<close>, \<^verbatim>\<open>List.h\<close>, \<^verbatim>\<open>Tuple.h\<close>,
  \<^verbatim>\<open>Dictionary.h\<close>, \<^verbatim>\<open>Iterator.h\<close>, \<^verbatim>\<open>src/interpreter/List.cpp\<close>, \<^verbatim>\<open>Dictionary.cpp\<close>,
  \<^verbatim>\<open>RangeIterator.h\<close>, \<^verbatim>\<open>Generator.cpp\<close>, \<^verbatim>\<open>args.h\<close>, \<^verbatim>\<open>unpack.h\<close>): the data, the heap they
  live in, and the operations that do not need the interpreter.

  A \<open>ValuePtr\<close> is \<open>None\<close> (the null pointer, Python's None) or the address of an object.
  Objects are shared and some are mutable, so they live in a heap, a list that only grows: an
  object the C++ code frees when its last \<open>shared_ptr\<close> goes stays in the model's heap.
\<close>

section \<open>Objects and the heap\<close>

type_synonym addr = nat
type_synonym valueptr = "addr option"

datatype builtin_type =
    BT_Range
  | BT_MakeInt
  | BT_MakeString
  | BT_Min
  | BT_Max
  | BT_Print
  | BT_Length

text \<open>The four maps of a \<open>PersistableDictionary\<close>.\<close>

record persist =
  m_elements_string :: "(string, string) smap"
  m_elements_int :: "(string, i64) smap"
  m_elements_double :: "(string, f64) smap"
  m_elements_bool :: "(string, bool) smap"

text \<open>The member functions the blockchain module binds to its names.\<close>

datatype bc_function =
    BC_get_txid
  | BC_get_current_height
  | BC_get_current_block
  | BC_get_previous_block
  | BC_get_current_time
  | BC_get_previous_time
  | BC_get_sender
  | BC_get_contractaddress
  | BC_get_value
  | BC_get_contract_balance
  | BC_get_random
  | BC_assert_address
  | BC_send
  | BC_revert
  | BC_suicide

text \<open>The generator state of a \<open>BlockchainModule\<close>: \<open>_s\<close>, \<open>s_i\<close>, \<open>s_j\<close> and \<open>seeded\<close>.\<close>

record rc4 =
  rc4_s :: "u8 list"
  s_i :: int
  s_j :: int
  seeded :: bool

datatype module_obj =
    RandModule
  | BlockchainModule rc4 "(string, addr) smap"

text \<open>The closures that \<open>Function\<close> objects hold.\<close>

datatype closure =
    ListAppend addr
  | RandInt

datatype obj =
    BoolVal bool
  | StringVal string
  | IntVal i64
  | FloatVal f64
  | ListVal "valueptr list"
  | DictVal "(string, valueptr) smap"
  | TupleVal "valueptr list"
  | PersistVal persist
  | AliasVal string string
  | ModuleVal module_obj
  | Builtin builtin_type
  | Function closure
  | CallableVMFunction "u8 list" "string list" "valueptr list"
  | CallableCFunction "string list" bc_function addr
  | ListIterator addr u32
  | RangeIterator u32 u32 u32 u32
  | DictItems addr
  | DictItemIterator addr "string option"
  | DictKeyIterator addr "string option"

type_synonym heap = "obj list"

definition halloc :: "obj \<Rightarrow> (heap, addr) prog" where
  "halloc x h = (Inr (length h), h @ [x])"

definition hget :: "addr \<Rightarrow> (heap, obj) prog" where
  "hget a = gets (\<lambda>h. h ! a)"

definition hset :: "addr \<Rightarrow> obj \<Rightarrow> (heap, unit) prog" where
  "hset a x = modify (\<lambda>h. h[a := x])"

text \<open>The allocation of a value that is returned: a non-null pointer to a new object.\<close>

definition hnew :: "obj \<Rightarrow> (heap, valueptr) prog" where
  "hnew x = bnd (halloc x) (\<lambda>a. ret (Some a))"

section \<open>Virtual methods of \<open>Value\<close>\<close>

fun obj_type :: "obj \<Rightarrow> value_type" where
  "obj_type (BoolVal b) = VT_Bool"
| "obj_type (StringVal s) = VT_String"
| "obj_type (IntVal i) = VT_Integer"
| "obj_type (FloatVal f) = VT_Float"
| "obj_type (ListVal xs) = VT_List"
| "obj_type (DictVal m) = VT_Dictionary"
| "obj_type (TupleVal xs) = VT_Tuple"
| "obj_type (PersistVal p) = VT_PersistableDictionary"
| "obj_type (AliasVal n a) = VT_Alias"
| "obj_type (ModuleVal m) = VT_Module"
| "obj_type (Builtin b) = VT_Builtin"
| "obj_type (Function f) = VT_Function"
| "obj_type (CallableVMFunction c as ds) = VT_Function"
| "obj_type (CallableCFunction as f t) = VT_Function"
| "obj_type (ListIterator l p) = VT_Iterator"
| "obj_type (RangeIterator p s e st) = VT_Iterator"
| "obj_type (DictItems d) = VT_DictItems"
| "obj_type (DictItemIterator d k) = VT_Iterator"
| "obj_type (DictKeyIterator d k) = VT_Iterator"

fun is_callable :: "obj \<Rightarrow> bool" where
  "is_callable (Builtin b) = True"
| "is_callable (Function f) = True"
| "is_callable (CallableVMFunction c as ds) = True"
| "is_callable (CallableCFunction as f t) = True"
| "is_callable (DictItems d) = True"
| "is_callable _ = False"

text \<open>Every iterator class of the code is a \<open>Generator\<close>.\<close>

definition is_generator :: "obj \<Rightarrow> bool" where
  "is_generator x \<longleftrightarrow> obj_type x = VT_Iterator"

definition can_iterate :: "obj \<Rightarrow> bool" where
  "can_iterate x \<longleftrightarrow> obj_type x = VT_List \<or> obj_type x = VT_Dictionary"

fun bool_test :: "obj \<Rightarrow> bool" where
  "bool_test (BoolVal b) = b"
| "bool_test (IntVal i) = (i \<noteq> 0)"
| "bool_test _ = True"

fun obj_size :: "obj \<Rightarrow> exn + u32" where
  "obj_size (StringVal s) = Inr (of_nat (length s))"
| "obj_size (ListVal xs) = Inr (of_nat (length xs))"
| "obj_size (TupleVal xs) = Inr (of_nat (length xs))"
| "obj_size (DictVal m) = Inr (of_nat (length m))"
| "obj_size _ = Inl (RuntimeError ''Cannot get size of value'')"

text \<open>The \<open>dynamic_cast\<close>s to the plain value classes.\<close>

fun as_int :: "obj \<Rightarrow> i64 option" where
  "as_int (IntVal i) = Some i"
| "as_int _ = None"

fun as_string :: "obj \<Rightarrow> string option" where
  "as_string (StringVal s) = Some s"
| "as_string _ = None"

fun as_bool :: "obj \<Rightarrow> bool option" where
  "as_bool (BoolVal b) = Some b"
| "as_bool _ = None"

text \<open>\<open>operator==\<close>, \<open>operator>\<close> and \<open>operator>=\<close> on two objects.\<close>

definition value_eq :: "obj \<Rightarrow> obj \<Rightarrow> bool" where
  "value_eq x y =
     (case (as_string x, as_string y) of
        (Some a, Some b) \<Rightarrow> a = b
      | _ \<Rightarrow> (case (as_int x, as_int y) of (Some a, Some b) \<Rightarrow> a = b | _ \<Rightarrow> False))"

definition value_gt :: "obj \<Rightarrow> obj \<Rightarrow> bool" where
  "value_gt x y = (case (as_int x, as_int y) of (Some a, Some b) \<Rightarrow> sint b < sint a | _ \<Rightarrow> False)"

definition value_ge :: "obj \<Rightarrow> obj \<Rightarrow> bool" where
  "value_ge x y = (case (as_int x, as_int y) of (Some a, Some b) \<Rightarrow> sint b \<le> sint a | _ \<Rightarrow> False)"

lemma as_int_Some [simp]: "as_int x = Some i \<longleftrightarrow> x = IntVal i"
  by (cases x) simp_all

lemma as_string_Some [simp]: "as_string x = Some i \<longleftrightarrow> x = StringVal i"
  by (cases x) simp_all

lemma as_bool_Some [simp]: "as_bool x = Some i \<longleftrightarrow> x = BoolVal i"
  by (cases x) simp_all

section \<open>Casts and checks\<close>

text \<open>\<open>ASSERT_GENERIC\<close>, \<open>ASSERT_LEFT_AND_RIGHT\<close>: a null pointer halts the VM.\<close>

definition halted :: exn where
  "halted = RuntimeError ''VM was halted: bytecode is improperly formatted.''"

definition bad_cast :: exn where
  "bad_cast = ValueException ''Invalid value cast''"

definition assert_ptr :: "valueptr \<Rightarrow> ('s, addr) prog" where
  "assert_ptr p = (case p of None \<Rightarrow> throw halted | Some a \<Rightarrow> ret a)"

text \<open>The object behind a pointer; \<open>None\<close> for the null pointer.\<close>

definition deref :: "heap \<Rightarrow> valueptr \<Rightarrow> obj option" where
  "deref h p = map_option (\<lambda>a. h ! a) p"

definition unpack_integer :: "heap \<Rightarrow> valueptr \<Rightarrow> exn + i64" where
  "unpack_integer h p =
     (case Option.bind (deref h p) as_int of
        Some i \<Rightarrow> Inr i
      | None \<Rightarrow> Inl (RuntimeError ''value is not an integer''))"

definition unpack_bool :: "heap \<Rightarrow> valueptr \<Rightarrow> exn + bool" where
  "unpack_bool h p = (case Option.bind (deref h p) as_bool of Some b \<Rightarrow> Inr b | None \<Rightarrow> Inl bad_cast)"

definition unpack_string :: "heap \<Rightarrow> valueptr \<Rightarrow> exn + string" where
  "unpack_string h p = (case Option.bind (deref h p) as_string of Some s \<Rightarrow> Inr s | None \<Rightarrow> Inl bad_cast)"

definition check_num_args :: "valueptr list \<Rightarrow> nat \<Rightarrow> ('s, unit) prog" where
  "check_num_args args n = throw_if (length args \<noteq> n) (RuntimeError ''Invalid number of arguments'')"

definition check_num_minargs :: "valueptr list \<Rightarrow> nat \<Rightarrow> ('s, unit) prog" where
  "check_num_minargs args n = throw_if (length args < n) (RuntimeError ''Invalid number of arguments'')"

definition check_is_integer :: "heap \<Rightarrow> valueptr \<Rightarrow> exn + i64" where
  "check_is_integer h p =
     (case Option.bind (deref h p) as_int of
        Some i \<Rightarrow> Inr i
      | None \<Rightarrow> Inl (RuntimeError ''Argument is not an integer''))"

definition relaxed_check_is_string :: "heap \<Rightarrow> valueptr \<Rightarrow> bool" where
  "relaxed_check_is_string h p = (Option.bind (deref h p) as_string \<noteq> None)"

section \<open>Factories of the memory manager\<close>

text \<open>\<open>create_integer\<close> takes an \<open>int32_t\<close>: its argument loses the upper half and is sign-extended.\<close>

definition int32_of :: "i64 \<Rightarrow> i64" where
  "int32_of i = scast (ucast i :: u32)"

definition create_integer :: "i64 \<Rightarrow> (heap, valueptr) prog" where
  "create_integer i = hnew (IntVal (int32_of i))"

definition create_boolean :: "bool \<Rightarrow> (heap, valueptr) prog" where
  "create_boolean b = hnew (BoolVal b)"

definition create_string :: "string \<Rightarrow> (heap, valueptr) prog" where
  "create_string s = hnew (StringVal s)"

definition create_float :: "f64 \<Rightarrow> (heap, valueptr) prog" where
  "create_float f = hnew (FloatVal f)"

definition create_list :: "(heap, addr) prog" where
  "create_list = halloc (ListVal [])"

definition create_tuple :: "(heap, addr) prog" where
  "create_tuple = halloc (TupleVal [])"

definition create_dictionary :: "(heap, addr) prog" where
  "create_dictionary = halloc (DictVal [])"

end
