(* ===== verification/Containers.thy ===== *)
theory Containers
  imports Values
begin

text \<open>
  Lists, tuples, dictionaries and their iterators (\<^verbatim>\<open>src/interpreter/List.cpp\<close>,
  \<^verbatim>\<open>src/interpreter/Dictionary.cpp\<close>, \<^verbatim>\<open>include/cowlang/Tuple.h\<close>,
  \<^verbatim>\<open>src/interpreter/RangeIterator.h\<close>), and \<open>str()\<close>.  The lemmas say which indices each list
  operation accepts, what a dictionary holds after an insertion, and what each iterator
  enumerates.
\<close>

section \<open>Lists\<close>

definition index_error :: exn where
  "index_error = RuntimeError ''List index out of range''"

definition list_size :: "'a list \<Rightarrow> u32" where
  "list_size xs = of_nat (length xs)"

text \<open>
  The position an index denotes: \<open>size() + index\<close> when it is negative.  The comparison is of an
  \<open>int64_t\<close> with a \<open>uint32_t\<close>, which C++ converts to \<open>int64_t\<close>.
\<close>

definition adjust_index :: "u32 \<Rightarrow> i64 \<Rightarrow> nat" where
  "adjust_index n i = nat (if sint i < 0 then uint n + sint i else sint i)"

text \<open>
  \<open>List::get\<close> negates \<open>(int32_t)size()\<close>; \<open>List::set\<close> and \<open>List::apply\<close> negate the unsigned
  \<open>size()\<close>, which wraps around.
\<close>

definition get_in_range :: "u32 \<Rightarrow> i64 \<Rightarrow> bool" where
  "get_in_range n i \<longleftrightarrow> \<not> (uint n \<le> sint i \<or> sint i \<le> - sint n)"

definition set_in_range :: "u32 \<Rightarrow> i64 \<Rightarrow> bool" where
  "set_in_range n i \<longleftrightarrow> \<not> (uint n \<le> sint i \<or> sint i \<le> uint (- n))"

definition list_get :: "'a list \<Rightarrow> i64 \<Rightarrow> exn + 'a" where
  "list_get xs i =
     (if get_in_range (list_size xs) i then Inr (xs ! adjust_index (list_size xs) i)
      else Inl index_error)"

definition list_set :: "'a list \<Rightarrow> i64 \<Rightarrow> 'a \<Rightarrow> exn + 'a list" where
  "list_set xs i v =
     (if set_in_range (list_size xs) i then Inr (xs[adjust_index (list_size xs) i := v])
      else Inl index_error)"

definition not_numeric :: exn where
  "not_numeric = RuntimeError ''Values need to be numerics''"

definition unknown_binary_op :: exn where
  "unknown_binary_op = RuntimeError ''Unknown binary op''"

text \<open>The integer object behind a pointer: its address and its value.\<close>

definition int_at :: "heap \<Rightarrow> valueptr \<Rightarrow> (addr \<times> i64) option" where
  "int_at h p =
     (case p of None \<Rightarrow> None | Some a \<Rightarrow> map_option (\<lambda>i. (a, i)) (as_int (h ! a)))"

text \<open>
  The switch shared by \<open>List::apply\<close> and the augmented assignment of a variable: the target's
  integer object is changed in place.
\<close>

definition apply_int :: "binary_op option \<Rightarrow> addr \<times> i64 \<Rightarrow> i64 \<Rightarrow> (heap, unit) prog" where
  "apply_int op t v =
     (case op of
        Some Bin_Add \<Rightarrow> hset (fst t) (IntVal (snd t + v))
      | Some Bin_Sub \<Rightarrow> hset (fst t) (IntVal (snd t - v))
      | Some Bin_Mult \<Rightarrow> hset (fst t) (IntVal (snd t * v))
      | _ \<Rightarrow> throw unknown_binary_op)"

definition list_apply :: "valueptr list \<Rightarrow> i64 \<Rightarrow> valueptr \<Rightarrow> binary_op option \<Rightarrow> (heap, unit) prog" where
  "list_apply xs i val op =
     (if \<not> set_in_range (list_size xs) i then throw index_error
      else bnd (gets (\<lambda>h. (int_at h (xs ! adjust_index (list_size xs) i), int_at h val))) (\<lambda>tv.
        case tv of
          (Some t, Some v) \<Rightarrow> apply_int op t (snd v)
        | _ \<Rightarrow> throw not_numeric))"

text \<open>\<open>List::contains\<close>: a null element halts the VM unless an equal one comes before it.\<close>

fun list_contains :: "heap \<Rightarrow> valueptr list \<Rightarrow> obj \<Rightarrow> exn + bool" where
  "list_contains h [] x = Inr False"
| "list_contains h (None # ps) x = Inl halted"
| "list_contains h (Some a # ps) x = (if value_eq (h ! a) x then Inr True else list_contains h ps x)"

text \<open>\<open>List::append\<close> and \<open>Tuple::append\<close> on the object at an address.\<close>

definition list_append :: "addr \<Rightarrow> valueptr \<Rightarrow> (heap, unit) prog" where
  "list_append a v =
     bnd (hget a) (\<lambda>x. case x of ListVal xs \<Rightarrow> hset a (ListVal (xs @ [v])) | _ \<Rightarrow> throw bad_cast)"

definition tuple_append :: "addr \<Rightarrow> valueptr \<Rightarrow> (heap, unit) prog" where
  "tuple_append a v =
     bnd (hget a) (\<lambda>x. case x of TupleVal xs \<Rightarrow> hset a (TupleVal (xs @ [v])) | _ \<Rightarrow> throw bad_cast)"

text \<open>\<open>Tuple::get\<close>; its parameter is a \<open>uint32_t\<close>, so a caller's \<open>int64_t\<close> is truncated.\<close>

definition tuple_get :: "valueptr list \<Rightarrow> u32 \<Rightarrow> exn + valueptr" where
  "tuple_get xs pos =
     (if length xs \<le> unat pos then Inl (RuntimeError ''Tuple index out of bounds'')
      else Inr (xs ! unat pos))"

section \<open>Dictionaries\<close>

text \<open>\<open>Dictionary::get\<close> returns the null pointer for a missing key.\<close>

definition dict_get :: "(string, valueptr) smap \<Rightarrow> string \<Rightarrow> valueptr" where
  "dict_get m k = (case sm_find m k of Some v \<Rightarrow> v | None \<Rightarrow> None)"

definition dict_insert :: "addr \<Rightarrow> string \<Rightarrow> valueptr \<Rightarrow> (heap, unit) prog" where
  "dict_insert d k v =
     bnd (hget d) (\<lambda>x. case x of DictVal m \<Rightarrow> hset d (DictVal (sm_put k v m)) | _ \<Rightarrow> throw bad_cast)"

text \<open>
  \<open>Dictionary::apply\<close>.  Without an old value, addition stores the argument's own object,
  subtraction negates the argument's object in place and stores it, and multiplication stores
  a new zero.  With an old value, \<open>Mult\<close> adds, as the code does.
\<close>

definition dict_apply :: "addr \<Rightarrow> string \<Rightarrow> valueptr \<Rightarrow> binary_op option \<Rightarrow> (heap, unit) prog" where
  "dict_apply d k val op =
     bnd (hget d) (\<lambda>x.
     bnd (gets (\<lambda>h. h)) (\<lambda>h.
     let target = (case x of DictVal m \<Rightarrow> dict_get m k | _ \<Rightarrow> None) in
     case int_at h val of
       None \<Rightarrow> throw not_numeric
     | Some (va, v) \<Rightarrow>
         (case target of
            None \<Rightarrow>
              (case op of
                 Some Bin_Add \<Rightarrow> dict_insert d k val
               | Some Bin_Sub \<Rightarrow> bnd (hset va (IntVal (- 1 * v))) (\<lambda>_. dict_insert d k val)
               | Some Bin_Mult \<Rightarrow> bnd (hnew (IntVal 0)) (\<lambda>zero. dict_insert d k zero)
               | _ \<Rightarrow> throw unknown_binary_op)
          | Some ta \<Rightarrow>
              (case as_int (h ! ta) of
                 None \<Rightarrow> throw not_numeric
               | Some t \<Rightarrow>
                   (case op of
                      Some Bin_Add \<Rightarrow> hset ta (IntVal (t + v))
                    | Some Bin_Sub \<Rightarrow> hset ta (IntVal (t - v))
                    | Some Bin_Mult \<Rightarrow> hset ta (IntVal (t + v))
                    | _ \<Rightarrow> throw unknown_binary_op)))))"

section \<open>Copies\<close>

text \<open>
  \<open>duplicate\<close> of each class: a new object that holds the same element pointers.  \<open>List\<close> and
  \<open>Dictionary\<close> fill a new container element by element; an iterator starts again at the beginning
  of the container it refers to.
\<close>

definition list_duplicate :: "valueptr list \<Rightarrow> (heap, valueptr) prog" where
  "list_duplicate xs =
     bnd (halloc (ListVal [])) (\<lambda>d. bnd (for_each xs (list_append d)) (\<lambda>_. ret (Some d)))"

definition tuple_duplicate :: "valueptr list \<Rightarrow> (heap, valueptr) prog" where
  "tuple_duplicate other = hnew (TupleVal other)"

definition dict_duplicate :: "(string, valueptr) smap \<Rightarrow> (heap, valueptr) prog" where
  "dict_duplicate m =
     bnd (halloc (DictVal [])) (\<lambda>d. bnd (for_each m (\<lambda>(k, v). dict_insert d k v)) (\<lambda>_. ret (Some d)))"

definition list_iterator_duplicate :: "addr \<Rightarrow> (heap, valueptr) prog" where
  "list_iterator_duplicate l = hnew (ListIterator l 0)"

definition dict_item_iterator_duplicate :: "addr \<Rightarrow> (heap, valueptr) prog" where
  "dict_item_iterator_duplicate d =
     bnd (hget d) (\<lambda>x. case x of DictVal m \<Rightarrow> hnew (DictItemIterator d (sm_first m)) | _ \<Rightarrow> throw bad_cast)"

definition dict_key_iterator_duplicate :: "addr \<Rightarrow> (heap, valueptr) prog" where
  "dict_key_iterator_duplicate d =
     bnd (hget d) (\<lambda>x. case x of DictVal m \<Rightarrow> hnew (DictKeyIterator d (sm_first m)) | _ \<Rightarrow> throw bad_cast)"

definition dict_items_duplicate :: "addr \<Rightarrow> (heap, valueptr) prog" where
  "dict_items_duplicate d = hnew (DictItems d)"

definition vm_function_duplicate ::
    "u8 list \<Rightarrow> string list \<Rightarrow> valueptr list \<Rightarrow> (heap, valueptr) prog" where
  "vm_function_duplicate begin_jump args defaults = hnew (CallableVMFunction begin_jump args defaults)"

definition c_function_duplicate ::
    "string list \<Rightarrow> bc_function \<Rightarrow> addr \<Rightarrow> (heap, valueptr) prog" where
  "c_function_duplicate args func owner = hnew (CallableCFunction args func owner)"

definition builtin_duplicate :: "builtin_type \<Rightarrow> (heap, valueptr) prog" where
  "builtin_duplicate t = hnew (Builtin t)"

definition duplicate :: "obj \<Rightarrow> (heap, valueptr) prog" where
  "duplicate x =
     (case x of
        ModuleVal m \<Rightarrow> ret None
      | PersistVal p \<Rightarrow> throw (RuntimeError ''Persistent dictionaries cannot be copied.'')
      | ListVal xs \<Rightarrow> list_duplicate xs
      | TupleVal xs \<Rightarrow> tuple_duplicate xs
      | DictVal m \<Rightarrow> dict_duplicate m
      | ListIterator l p \<Rightarrow> list_iterator_duplicate l
      | RangeIterator p s e st \<Rightarrow> hnew (RangeIterator s s e st)
      | DictItemIterator d k \<Rightarrow> dict_item_iterator_duplicate d
      | DictKeyIterator d k \<Rightarrow> dict_key_iterator_duplicate d
      | DictItems d \<Rightarrow> dict_items_duplicate d
      | CallableVMFunction code as ds \<Rightarrow> vm_function_duplicate code as ds
      | CallableCFunction as f b \<Rightarrow> c_function_duplicate as f b
      | Builtin t \<Rightarrow> builtin_duplicate t
      | _ \<Rightarrow> hnew x)"

section \<open>Iterators\<close>

text \<open>\<open>iterate()\<close> of the two iterable classes.\<close>

definition iterate :: "addr \<Rightarrow> (heap, addr) prog" where
  "iterate a =
     bnd (hget a) (\<lambda>x.
       case x of
         ListVal xs \<Rightarrow> halloc (ListIterator a 0)
       | DictVal m \<Rightarrow> halloc (DictKeyIterator a (sm_first m))
       | _ \<Rightarrow> throw bad_cast)"

text \<open>\<open>DictItems::iterate\<close>.\<close>

definition items_iterate :: "addr \<Rightarrow> (heap, addr) prog" where
  "items_iterate d =
     bnd (hget d) (\<lambda>x.
       case x of DictVal m \<Rightarrow> halloc (DictItemIterator d (sm_first m)) | _ \<Rightarrow> throw bad_cast)"

definition range_next :: "addr \<Rightarrow> u32 \<Rightarrow> u32 \<Rightarrow> u32 \<Rightarrow> u32 \<Rightarrow> (heap, valueptr) prog" where
  "range_next a pos start end step =
     (if sint end \<le> sint pos then throw StopIteration
      else bnd (hnew (IntVal (scast pos))) (\<lambda>r.
           bnd (hset a (RangeIterator (pos + step) start end step)) (\<lambda>_. ret r)))"

definition list_next :: "addr \<Rightarrow> addr \<Rightarrow> u32 \<Rightarrow> (heap, valueptr) prog" where
  "list_next a l pos =
     bnd (hget l) (\<lambda>x.
       case x of
         ListVal xs \<Rightarrow>
           (if list_size xs \<le> pos then throw StopIteration
            else bnd (lift_sum (list_get xs (ucast pos))) (\<lambda>r.
                 bnd (hset a (ListIterator l (pos + 1))) (\<lambda>_. ret r)))
       | _ \<Rightarrow> throw bad_cast)"

definition dict_item_next :: "addr \<Rightarrow> addr \<Rightarrow> string option \<Rightarrow> (heap, valueptr) prog" where
  "dict_item_next a d it =
     bnd (hget d) (\<lambda>x.
       case (x, it) of
         (DictVal m, Some k) \<Rightarrow>
           bnd (create_string k) (\<lambda>key.
           bnd create_tuple (\<lambda>t.
           bnd (tuple_append t key) (\<lambda>_.
           bnd (tuple_append t (dict_get m k)) (\<lambda>_.
           bnd (hset a (DictItemIterator d (sm_next k m))) (\<lambda>_. ret (Some t))))))
       | (DictVal m, None) \<Rightarrow> throw StopIteration
       | _ \<Rightarrow> throw bad_cast)"

text \<open>\<open>DictKeyIterator::next\<close> returns the values (a comment in the code says so).\<close>

definition dict_key_next :: "addr \<Rightarrow> addr \<Rightarrow> string option \<Rightarrow> (heap, valueptr) prog" where
  "dict_key_next a d it =
     bnd (hget d) (\<lambda>x.
       case (x, it) of
         (DictVal m, Some k) \<Rightarrow>
           bnd (hset a (DictKeyIterator d (sm_next k m))) (\<lambda>_. ret (dict_get m k))
       | (DictVal m, None) \<Rightarrow> throw StopIteration
       | _ \<Rightarrow> throw bad_cast)"

definition iter_next :: "addr \<Rightarrow> (heap, valueptr) prog" where
  "iter_next a =
     bnd (hget a) (\<lambda>x.
       case x of
         RangeIterator p s e st \<Rightarrow> range_next a p s e st
       | ListIterator l p \<Rightarrow> list_next a l p
       | DictItemIterator d k \<Rightarrow> dict_item_next a d k
       | DictKeyIterator d k \<Rightarrow> dict_key_next a d k
       | _ \<Rightarrow> throw bad_cast)"

section \<open>\<open>str()\<close>\<close>

text \<open>
  \<open>List::str\<close> calls \<open>str\<close> on its elements, which may be lists again.  A list that contains
  itself has no end; the fuel is one more than the number of objects, which any list that does
  not contain itself stays within, so running out of it is the C++ recursion that overflows
  the stack.
\<close>

fun join_strs :: "(obj \<Rightarrow> exn + string) \<Rightarrow> heap \<Rightarrow> bool \<Rightarrow> valueptr list \<Rightarrow> exn + string" where
  "join_strs f h first [] = Inr '']''"
| "join_strs f h first (p # ps) =
     (case (case deref h p of
              None \<Rightarrow> Inr ''None''
            | Some x \<Rightarrow>
                (case f x of
                   Inl e \<Rightarrow> Inl e
                 | Inr s \<Rightarrow> Inr (if obj_type x = VT_String then CHR 0x27 # s @ [CHR 0x27] else s))) of
        Inl e \<Rightarrow> Inl e
      | Inr s \<Rightarrow>
          (case join_strs f h False ps of
             Inl e \<Rightarrow> Inl e
           | Inr r \<Rightarrow> Inr ((if first then [] else '', '') @ s @ r)))"

primrec str_fuel :: "nat \<Rightarrow> heap \<Rightarrow> obj \<Rightarrow> exn + string" where
  "str_fuel 0 h x = Inl StackOverflow"
| "str_fuel (Suc n) h x =
     (case x of
        BoolVal b \<Rightarrow> Inr (if b then ''1'' else ''0'')
      | IntVal i \<Rightarrow> Inr (show_int (sint i))
      | FloatVal f \<Rightarrow> Inr (f64_show f)
      | StringVal s \<Rightarrow> Inr s
      | ListVal xs \<Rightarrow>
          (case join_strs (str_fuel n h) h True xs of Inl e \<Rightarrow> Inl e | Inr s \<Rightarrow> Inr (CHR ''['' # s))
      | _ \<Rightarrow> Inl (RuntimeError ''Cannot convert value to string''))"

definition obj_str :: "heap \<Rightarrow> obj \<Rightarrow> exn + string" where
  "obj_str h x = str_fuel (Suc (length h)) h x"

end
