(* ===== verification/Persist.thy ===== *)
theory Persist
  imports Values
begin

text \<open>
  \<open>PersistableDictionary\<close> (\<^verbatim>\<open>src/interpreter/PersistableDictionary.cpp\<close>), the contract's
  storage: four maps, one per storable type.  The lemmas state when a lookup returns the last
  value stored, that every stored key stays in at most the maps the code allows, and what
  \<open>remove\<close> leaves behind.
\<close>

definition empty_persist :: persist where
  "empty_persist =
     \<lparr>m_elements_string = [], m_elements_int = [], m_elements_double = [], m_elements_bool = []\<rparr>"

definition ps_sound :: "persist \<Rightarrow> bool" where
  "ps_sound p \<longleftrightarrow> sm_sound (m_elements_string p) \<and> sm_sound (m_elements_int p) \<and>
     sm_sound (m_elements_double p) \<and> sm_sound (m_elements_bool p)"

text \<open>\<open>get\<close> builds a new value object: here, the object it builds.\<close>

definition ps_find :: "persist \<Rightarrow> string \<Rightarrow> obj option" where
  "ps_find p key =
     (case sm_find (m_elements_string p) key of
        Some s \<Rightarrow> Some (StringVal s)
      | None \<Rightarrow>
     (case sm_find (m_elements_int p) key of
        Some i \<Rightarrow> Some (IntVal i)
      | None \<Rightarrow>
     (case sm_find (m_elements_double p) key of
        Some d \<Rightarrow> Some (FloatVal d)
      | None \<Rightarrow>
     (case sm_find (m_elements_bool p) key of
        Some b \<Rightarrow> Some (BoolVal b)
      | None \<Rightarrow> None))))"

definition ps_get :: "persist \<Rightarrow> string \<Rightarrow> (heap, valueptr) prog" where
  "ps_get p key = (case ps_find p key of None \<Rightarrow> ret None | Some x \<Rightarrow> hnew x)"

text \<open>\<open>remove\<close> looks at the integer map twice and never at the boolean one.\<close>

definition ps_remove :: "string \<Rightarrow> persist \<Rightarrow> persist" where
  "ps_remove key p =
     p\<lparr>m_elements_string := sm_erase key (m_elements_string p),
       m_elements_int := sm_erase key (sm_erase key (m_elements_int p)),
       m_elements_double := sm_erase key (m_elements_double p)\<rparr>"

definition ps_has :: "string \<Rightarrow> persist \<Rightarrow> bool" where
  "ps_has key p \<longleftrightarrow>
     sm_find (m_elements_string p) key \<noteq> None \<or> sm_find (m_elements_int p) key \<noteq> None \<or>
     sm_find (m_elements_int p) key \<noteq> None \<or> sm_find (m_elements_double p) key \<noteq> None"

definition ps_clear :: "persist \<Rightarrow> persist" where
  "ps_clear p =
     p\<lparr>m_elements_string := [], m_elements_int := [], m_elements_bool := [], m_elements_double := []\<rparr>"

text \<open>\<open>insert\<close>; a float goes through \<open>unpack_float\<close>, which returns a C++ \<open>float\<close>.\<close>

definition ps_insert :: "string \<Rightarrow> obj \<Rightarrow> persist \<Rightarrow> exn + persist" where
  "ps_insert key v p =
     (case v of
        StringVal s \<Rightarrow>
          (let p' = ps_remove key p in Inr (p'\<lparr>m_elements_string := sm_put key s (m_elements_string p')\<rparr>))
      | IntVal i \<Rightarrow>
          (let p' = ps_remove key p in Inr (p'\<lparr>m_elements_int := sm_put key i (m_elements_int p')\<rparr>))
      | BoolVal b \<Rightarrow>
          (let p' = ps_remove key p in Inr (p'\<lparr>m_elements_bool := sm_put key b (m_elements_bool p')\<rparr>))
      | FloatVal f \<Rightarrow>
          (let p' = ps_remove key p
           in Inr (p'\<lparr>m_elements_double := sm_put key (f64_narrow f) (m_elements_double p')\<rparr>))
      | _ \<Rightarrow> Inl (RuntimeError
               ''Persistent directories can only store string, int, float and boolean.''))"

text \<open>\<open>apply\<close>; \<open>val\<close> is the argument's integer value, \<open>None\<close> if it has none.\<close>

definition ps_apply :: "string \<Rightarrow> i64 option \<Rightarrow> binary_op option \<Rightarrow> persist \<Rightarrow> exn + persist" where
  "ps_apply key val op p =
     (let target = (case sm_find (m_elements_int p) key of Some t \<Rightarrow> t | None \<Rightarrow> 0);
          store = (\<lambda>i. Inr (p\<lparr>m_elements_int := sm_put key i (m_elements_int p)\<rparr>))
      in if sm_find (m_elements_bool p) key \<noteq> None \<or> sm_find (m_elements_double p) key \<noteq> None \<or>
            sm_find (m_elements_string p) key \<noteq> None
         then Inl (RuntimeError ''Values need to be numerics'')
         else case val of
           None \<Rightarrow> Inl (RuntimeError ''Values need to be numerics'')
         | Some v \<Rightarrow>
             (case op of
                Some Bin_Add \<Rightarrow> store (v + target)
              | Some Bin_Sub \<Rightarrow> store (target - v)
              | Some Bin_Mult \<Rightarrow> store (target * v)
              | _ \<Rightarrow> Inl (RuntimeError ''Unknown binary op'')))"

section \<open>Laws\<close>

lemmas ps_finds =
  smap.find_put smap.find_erase smap.sound_put smap.sound_erase

lemma ps_sound_empty [simp]: "ps_sound empty_persist"
  by (simp add: ps_sound_def empty_persist_def)

lemma ps_sound_remove [simp]: "ps_sound p \<Longrightarrow> ps_sound (ps_remove key p)"
  by (simp add: ps_sound_def ps_remove_def)

lemma ps_sound_clear [simp]: "ps_sound (ps_clear p)"
  by (simp add: ps_sound_def ps_clear_def)

lemma ps_sound_insert: "ps_sound p \<Longrightarrow> ps_insert key v p = Inr p' \<Longrightarrow> ps_sound p'"
  by (cases v) (auto simp: ps_insert_def ps_sound_def ps_remove_def Let_def)

lemma ps_sound_apply: "ps_sound p \<Longrightarrow> ps_apply key v op p = Inr p' \<Longrightarrow> ps_sound p'"
  by (auto simp: ps_apply_def ps_sound_def Let_def split: if_splits option.splits binary_op.splits)

text \<open>What a store of \<open>v\<close> leaves behind a key: the value itself, floats rounded to \<open>float\<close>.\<close>

definition stored :: "obj \<Rightarrow> obj" where
  "stored v = (case v of FloatVal f \<Rightarrow> FloatVal (f64_narrow f) | _ \<Rightarrow> v)"

definition storable :: "obj \<Rightarrow> bool" where
  "storable v \<longleftrightarrow> obj_type v \<in> {VT_String, VT_Integer, VT_Bool, VT_Float}"

lemma ps_find_insert:
  assumes "ps_sound p" and "ps_insert key v p = Inr p'"
  shows "ps_find p' j = (if j = key then Some (stored v) else ps_find p j)"
proof -
  have s: "sm_sound (m_elements_string p)" "sm_sound (m_elements_int p)"
    "sm_sound (m_elements_double p)" "sm_sound (m_elements_bool p)"
    using assms(1) by (simp_all add: ps_sound_def)
  show ?thesis
    using assms(2)
    by (cases v; cases "j = key")
      (auto simp: ps_insert_def ps_find_def ps_remove_def stored_def Let_def ps_finds s
        cong: option.case_cong)
qed

text \<open>
  The maps agree on a key when only one of them has it, save that a boolean may lie hidden
  under a value of another type.
\<close>

definition ps_one :: "persist \<Rightarrow> string \<Rightarrow> bool" where
  "ps_one p k \<longleftrightarrow>
     (sm_find (m_elements_string p) k = None \<or> sm_find (m_elements_int p) k = None) \<and>
     (sm_find (m_elements_string p) k = None \<or> sm_find (m_elements_double p) k = None) \<and>
     (sm_find (m_elements_int p) k = None \<or> sm_find (m_elements_double p) k = None)"

definition ps_disjoint :: "persist \<Rightarrow> bool" where
  "ps_disjoint p \<longleftrightarrow> (\<forall>k. ps_one p k)"

lemma ps_disjoint_empty [simp]: "ps_disjoint empty_persist"
  by (simp add: ps_disjoint_def ps_one_def empty_persist_def)

lemma ps_disjoint_insert:
  assumes "ps_sound p" and "ps_disjoint p" and "ps_insert key v p = Inr p'"
  shows "ps_disjoint p'"
  unfolding ps_disjoint_def
proof
  fix k
  have s: "sm_sound (m_elements_string p)" "sm_sound (m_elements_int p)"
    "sm_sound (m_elements_double p)" "sm_sound (m_elements_bool p)"
    using assms(1) by (simp_all add: ps_sound_def)
  have "ps_one p k" using assms(2) by (simp add: ps_disjoint_def)
  then show "ps_one p' k"
    using assms(3)
    by (cases v)
      (auto simp: ps_insert_def ps_one_def ps_remove_def Let_def ps_finds s)
qed

lemma ps_disjoint_apply:
  assumes "ps_sound p" and "ps_disjoint p" and "ps_apply key v op p = Inr p'"
  shows "ps_disjoint p'"
  unfolding ps_disjoint_def
proof
  fix k
  have s: "sm_sound (m_elements_int p)" using assms(1) by (simp add: ps_sound_def)
  have "ps_one p k" using assms(2) by (simp add: ps_disjoint_def)
  then show "ps_one p' k"
    using assms(3)
    by (auto simp: ps_apply_def ps_one_def Let_def ps_finds s
        split: if_splits option.splits binary_op.splits)
qed

section \<open>Properties\<close>

text \<open>
  C22: a store succeeds exactly for strings, integers, floats and booleans; afterwards the key
  holds the value (a float after rounding to single precision), every other key is as before,
  and no string, integer or float of the same key is left in another map.
\<close>

theorem store_then_load:
  assumes "ps_sound p" and "ps_disjoint p"
  shows "(case ps_insert key v p of
            Inl e \<Rightarrow> \<not> storable v
          | Inr p' \<Rightarrow> storable v \<and> ps_sound p' \<and> ps_disjoint p' \<and>
              ps_find p' = (ps_find p)(key \<mapsto> stored v))"
proof (cases "ps_insert key v p")
  case (Inl e)
  then show ?thesis by (cases v) (auto simp: ps_insert_def storable_def Let_def)
next
  case (Inr p')
  then have "storable v" by (cases v) (auto simp: ps_insert_def storable_def)
  with Inr show ?thesis
    using ps_sound_insert ps_disjoint_insert ps_find_insert assms by (auto simp: fun_eq_iff)
qed

theorem store_then_load_witness:
  "ps_find (projr (ps_insert ''k'' (IntVal 7) empty_persist)) ''k'' = Some (IntVal 7)"
  using store_then_load [OF ps_sound_empty ps_disjoint_empty, where key = "''k''" and v = "IntVal 7"]
  by (simp add: stored_def storable_def split: sum.splits)

text \<open>
  \<open>remove\<close> forgets a key unless a boolean was stored under it, in which case \<open>get\<close> still
  finds the boolean while \<open>has\<close> denies it: the code never looks at the boolean map there.
\<close>

theorem remove_keeps_booleans:
  assumes "ps_sound p"
  shows "ps_find (ps_remove key p) key = map_option BoolVal (sm_find (m_elements_bool p) key) \<and>
    \<not> ps_has key (ps_remove key p) \<and>
    (j \<noteq> key \<longrightarrow> ps_find (ps_remove key p) j = ps_find p j)"
proof -
  have s: "sm_sound (m_elements_string p)" "sm_sound (m_elements_int p)" "sm_sound (m_elements_double p)"
    using assms by (simp_all add: ps_sound_def)
  show ?thesis
    by (auto simp: ps_remove_def ps_find_def ps_has_def ps_finds s split: option.splits)
qed

theorem remove_keeps_booleans_witness:
  "\<exists>p. ps_find (ps_remove ''k'' p) ''k'' = Some (BoolVal True) \<and> \<not> ps_has ''k'' (ps_remove ''k'' p)"
  using remove_keeps_booleans [of "empty_persist\<lparr>m_elements_bool := [(''k'', True)]\<rparr>" "''k''"]
  by (auto simp: ps_sound_def empty_persist_def intro!: exI)

end
