(* ===== verification/Scopes.thy ===== *)
theory Scopes
  imports Values
begin

text \<open>
  \<open>Scope\<close> (\<^verbatim>\<open>include/cowlang/Scope.h\<close>, \<^verbatim>\<open>src/interpreter/Scope.cpp\<close>).  The live scopes of a
  run form a stack, represented as a list; a scope's \<open>m_parent\<close> is the index of another one.
  A parent exists before its child is constructed, so its index is smaller: \<open>scopes_ok\<close> states
  this, and the recursions over parents, which follow the code, terminate by it.

  The abstract view of a scope is its chain of ancestors, innermost first.  The refinement
  lemmas show that lookups, membership tests and assignments through parent pointers are the
  corresponding functions on the chain.
\<close>

section \<open>State\<close>

record scope =
  m_parent :: "nat option"
  m_terminated :: bool
  m_require_global :: bool
  depth :: int
  m_values :: "string \<rightharpoonup> valueptr"
  m_global_tags :: "string set"

type_synonym scopes = "scope list"

text \<open>The two constructors.\<close>

definition root_scope :: scope where
  "root_scope =
     \<lparr>m_parent = None, m_terminated = False, m_require_global = False, depth = 0,
      m_values = Map.empty, m_global_tags = {}\<rparr>"

definition child_scope :: "nat \<Rightarrow> scope \<Rightarrow> exn + scope" where
  "child_scope p parent =
     (let d = depth parent + 1
      in if 128 \<le> d then Inl (RuntimeError ''You have exceeded the maximum recursion depth of 128'')
         else Inr (root_scope\<lparr>m_parent := Some p, depth := d\<rparr>))"

section \<open>Operations\<close>

function has_value :: "scopes \<Rightarrow> nat \<Rightarrow> string \<Rightarrow> bool" where
  "has_value ss i name =
     ((case m_parent (ss ! i) of
         Some p \<Rightarrow> if p < i then has_value ss p name else False
       | None \<Rightarrow> False) \<or>
      m_values (ss ! i) name \<noteq> None)"
  by pat_completeness auto
termination
  by (relation "measure (\<lambda>(ss, i, name). i)") auto

declare has_value.simps [simp del]

definition put_value :: "scopes \<Rightarrow> nat \<Rightarrow> string \<Rightarrow> valueptr \<Rightarrow> scopes" where
  "put_value ss i name v = ss[i := (ss ! i)\<lparr>m_values := (m_values (ss ! i))(name \<mapsto> v)\<rparr>]"

function set_value :: "scopes \<Rightarrow> nat \<Rightarrow> string \<Rightarrow> valueptr \<Rightarrow> scopes" where
  "set_value ss i name v =
     (case m_parent (ss ! i) of
        Some p \<Rightarrow>
          (if p < i \<and> \<not> m_require_global (ss ! i) \<and> has_value ss p name then set_value ss p name v
           else if p < i \<and> m_require_global (ss ! i) \<and> name \<in> m_global_tags (ss ! i)
           then set_value ss p name v
           else put_value ss i name v)
      | None \<Rightarrow> put_value ss i name v)"
  by pat_completeness auto
termination
  by (relation "measure (\<lambda>(ss, i, name, v). i)") auto

declare set_value.simps [simp del]

text \<open>The names that \<open>get_value\<close> answers before it looks at any scope.\<close>

definition builtin_of :: "string \<Rightarrow> builtin_type option" where
  "builtin_of name =
     (if name = ''range'' then Some BT_Range
      else if name = ''int'' then Some BT_MakeInt
      else if name = ''str'' then Some BT_MakeString
      else if name = ''print'' then Some BT_Print
      else if name = ''len'' then Some BT_Length
      else if name = ''min'' then Some BT_Min
      else if name = ''max'' then Some BT_Max
      else None)"

definition no_such_value :: "string \<Rightarrow> exn" where
  "no_such_value name = RuntimeError (''No such value: '' @ name)"

function find_value :: "scopes \<Rightarrow> nat \<Rightarrow> string \<Rightarrow> exn + valueptr" where
  "find_value ss i name =
     (case m_values (ss ! i) name of
        Some v \<Rightarrow> Inr v
      | None \<Rightarrow>
          (case m_parent (ss ! i) of
             Some p \<Rightarrow> if p < i then find_value ss p name else Inl (no_such_value name)
           | None \<Rightarrow> Inl (no_such_value name)))"
  by pat_completeness auto
termination
  by (relation "measure (\<lambda>(ss, i, name). i)") auto

declare find_value.simps [simp del]

text \<open>
  \<open>get_value\<close>: None, a new builtin object, or the innermost binding.  The recursion on the
  parent repeats the tests for the reserved names, which fail again.
\<close>

definition get_value :: "scopes \<Rightarrow> nat \<Rightarrow> string \<Rightarrow> (heap, valueptr) prog" where
  "get_value ss i name =
     (if name = ''None'' then ret None
      else case builtin_of name of
        Some b \<Rightarrow> hnew (Builtin b)
      | None \<Rightarrow> lift_sum (find_value ss i name))"

definition set_global_tag :: "scopes \<Rightarrow> nat \<Rightarrow> string \<Rightarrow> scopes" where
  "set_global_tag ss i name = ss[i := (ss ! i)\<lparr>m_global_tags := insert name (m_global_tags (ss ! i))\<rparr>]"

definition terminate :: "scopes \<Rightarrow> nat \<Rightarrow> scopes" where
  "terminate ss i = ss[i := (ss ! i)\<lparr>m_terminated := True\<rparr>]"

definition is_terminated :: "scopes \<Rightarrow> nat \<Rightarrow> bool" where
  "is_terminated ss i = m_terminated (ss ! i)"

definition get_depth :: "scopes \<Rightarrow> nat \<Rightarrow> int" where
  "get_depth ss i = depth (ss ! i)"

definition require_global :: "scopes \<Rightarrow> nat \<Rightarrow> scopes" where
  "require_global ss i = ss[i := (ss ! i)\<lparr>m_require_global := True\<rparr>]"

section \<open>Well-formed scopes\<close>

definition scope_ok :: "scopes \<Rightarrow> nat \<Rightarrow> bool" where
  "scope_ok ss i \<longleftrightarrow>
     0 \<le> depth (ss ! i) \<and> depth (ss ! i) < 128 \<and>
     (case m_parent (ss ! i) of
        None \<Rightarrow> depth (ss ! i) = 0
      | Some p \<Rightarrow> p < i \<and> depth (ss ! i) = depth (ss ! p) + 1)"

definition scopes_ok :: "scopes \<Rightarrow> bool" where
  "scopes_ok ss \<longleftrightarrow> (\<forall>i < length ss. scope_ok ss i)"

text \<open>What no operation on scopes changes: the number of scopes and the shape of the tree.\<close>

definition same_shape :: "scopes \<Rightarrow> scopes \<Rightarrow> bool" where
  "same_shape ss ss' \<longleftrightarrow> map m_parent ss = map m_parent ss' \<and> map depth ss = map depth ss' \<and>
     map m_require_global ss = map m_require_global ss'"

lemma same_shape_refl [simp]: "same_shape ss ss"
  by (simp add: same_shape_def)

lemma same_shape_trans: "same_shape a b \<Longrightarrow> same_shape b c \<Longrightarrow> same_shape a c"
  by (simp add: same_shape_def)

lemma same_shape_length: "same_shape ss ss' \<Longrightarrow> length ss' = length ss"
  unfolding same_shape_def by (metis length_map)

lemma same_shape_nth:
  "same_shape ss ss' \<Longrightarrow> i < length ss \<Longrightarrow>
     m_parent (ss' ! i) = m_parent (ss ! i) \<and> depth (ss' ! i) = depth (ss ! i) \<and>
     m_require_global (ss' ! i) = m_require_global (ss ! i)"
  unfolding same_shape_def by (metis length_map nth_map)

lemma same_shape_update:
  "m_parent s = m_parent (ss ! i) \<Longrightarrow> depth s = depth (ss ! i) \<Longrightarrow>
     m_require_global s = m_require_global (ss ! i) \<Longrightarrow> same_shape ss (ss[i := s])"
proof (cases "i < length ss")
  case True
  assume "m_parent s = m_parent (ss ! i)" "depth s = depth (ss ! i)"
    "m_require_global s = m_require_global (ss ! i)"
  with True show ?thesis by (simp add: same_shape_def map_update)
qed (simp add: list_update_beyond)

lemma scopes_ok_shape:
  assumes "same_shape ss ss'" and "scopes_ok ss"
  shows "scopes_ok ss'"
  unfolding scopes_ok_def
proof (intro allI impI)
  fix i assume "i < length ss'"
  then have i: "i < length ss" using same_shape_length [OF assms(1)] by simp
  then have "scope_ok ss i" using assms(2) by (simp add: scopes_ok_def)
  then show "scope_ok ss' i"
    using same_shape_nth [OF assms(1)] i by (auto simp: scope_ok_def split: option.splits)
qed

lemma shape_put_value: "same_shape ss (put_value ss i name v)"
  by (simp add: put_value_def same_shape_update)

lemma shape_set_value [simp]: "same_shape ss (set_value ss i name v)"
proof (induction ss i name v rule: set_value.induct)
  case (1 ss i name v)
  then show ?case
    by (subst set_value.simps) (auto simp: shape_put_value split: option.splits)
qed

lemma shape_tags [simp]: "same_shape ss (set_global_tag ss i name)"
  by (simp add: set_global_tag_def same_shape_update)

lemma shape_terminate [simp]: "same_shape ss (terminate ss i)"
  by (simp add: terminate_def same_shape_update)

lemma scope_ok_append: "i < length ss \<Longrightarrow> scope_ok (ss @ ts) i \<longleftrightarrow> scope_ok ss i"
  by (cases "m_parent (ss ! i)") (auto simp: scope_ok_def)

lemma scopes_ok_snoc:
  assumes "scopes_ok ss" and "scope_ok (ss @ [s]) (length ss)"
  shows "scopes_ok (ss @ [s])"
  using assms by (auto simp: scopes_ok_def less_Suc_eq scope_ok_append)

lemma scopes_ok_child:
  assumes "scopes_ok ss" and "p < length ss" and "child_scope p (ss ! p) = Inr s"
  shows "scopes_ok (ss @ [s])"
proof (rule scopes_ok_snoc [OF assms(1)])
  have s: "m_parent s = Some p" "depth s = depth (ss ! p) + 1" "depth s < 128"
    using assms(3) by (auto simp: child_scope_def Let_def split: if_splits)
  moreover have "0 \<le> depth (ss ! p)" using assms(1,2) by (simp add: scopes_ok_def scope_ok_def)
  ultimately show "scope_ok (ss @ [s]) (length ss)"
    using assms(2) by (simp add: scope_ok_def)
qed

lemma scopes_ok_root: "scopes_ok ss \<Longrightarrow> scopes_ok (ss @ [root_scope])"
  by (rule scopes_ok_snoc) (simp_all add: scope_ok_def root_scope_def)

lemma scope_ok_take: "i < n \<Longrightarrow> n \<le> length ss \<Longrightarrow> scope_ok (take n ss) i \<longleftrightarrow> scope_ok ss i"
  using scope_ok_append [of i "take n ss" "drop n ss"] by simp

lemma scopes_ok_take: "scopes_ok ss \<Longrightarrow> scopes_ok (take n ss)"
  by (cases "n \<le> length ss") (auto simp: scopes_ok_def scope_ok_take)

section \<open>The chain of a scope\<close>

text \<open>The indices of a scope and of its ancestors, innermost first.\<close>

function chain :: "scopes \<Rightarrow> nat \<Rightarrow> nat list" where
  "chain ss i = i # (case m_parent (ss ! i) of Some p \<Rightarrow> if p < i then chain ss p else [] | None \<Rightarrow> [])"
  by pat_completeness auto
termination
  by (relation "measure (\<lambda>(ss, i). i)") auto

declare chain.simps [simp del]

text \<open>The abstract operations: a lookup, and the scope an assignment goes to.\<close>

fun chain_lookup :: "scopes \<Rightarrow> nat list \<Rightarrow> string \<Rightarrow> valueptr option" where
  "chain_lookup ss [] name = None"
| "chain_lookup ss (i # is) name =
     (case m_values (ss ! i) name of Some v \<Rightarrow> Some v | None \<Rightarrow> chain_lookup ss is name)"

definition binds :: "scopes \<Rightarrow> string \<Rightarrow> nat \<Rightarrow> bool" where
  "binds ss name i \<longleftrightarrow> m_values (ss ! i) name \<noteq> None"

fun chain_target :: "scopes \<Rightarrow> nat list \<Rightarrow> string \<Rightarrow> nat" where
  "chain_target ss [] name = 0"
| "chain_target ss [i] name = i"
| "chain_target ss (i # is) name =
     (if (if m_require_global (ss ! i) then name \<in> m_global_tags (ss ! i)
          else list_ex (binds ss name) is)
      then chain_target ss is name else i)"

lemma chain_not_Nil [simp]: "chain ss i \<noteq> []"
  by (subst chain.simps) simp

lemma chain_Cons: "\<exists>js. chain ss i = i # js"
  by (subst chain.simps) blast

lemma chain_le: "j \<in> set (chain ss i) \<Longrightarrow> j \<le> i"
proof (induction ss i rule: chain.induct)
  case (1 ss i)
  from 1(2) have "j = i \<or> (\<exists>p. m_parent (ss ! i) = Some p \<and> p < i \<and> j \<in> set (chain ss p))"
    by (subst (asm) chain.simps) (auto split: option.splits if_splits)
  with 1(1) show ?case by fastforce
qed

lemma has_value_chain: "has_value ss i name \<longleftrightarrow> list_ex (binds ss name) (chain ss i)"
proof (induction ss i name rule: has_value.induct)
  case (1 ss i name)
  have "has_value ss i name \<longleftrightarrow> binds ss name i \<or>
      (\<exists>p. m_parent (ss ! i) = Some p \<and> p < i \<and> has_value ss p name)"
    by (subst has_value.simps) (auto simp: binds_def split: option.splits)
  moreover have "list_ex (binds ss name) (chain ss i) \<longleftrightarrow> binds ss name i \<or>
      (\<exists>p. m_parent (ss ! i) = Some p \<and> p < i \<and> list_ex (binds ss name) (chain ss p))"
    by (subst chain.simps) (auto split: option.splits)
  ultimately show ?case using 1 by blast
qed

lemma find_value_chain:
  "find_value ss i name =
     (case chain_lookup ss (chain ss i) name of Some v \<Rightarrow> Inr v | None \<Rightarrow> Inl (no_such_value name))"
proof (induction ss i name rule: find_value.induct)
  case (1 ss i name)
  then show ?case
    by (subst find_value.simps, subst chain.simps) (auto split: option.splits)
qed

lemma set_value_chain: "set_value ss i name v = put_value ss (chain_target ss (chain ss i) name) name v"
proof (induction ss i name v rule: set_value.induct)
  case (1 ss i name v)
  show ?case
  proof (cases "m_parent (ss ! i)")
    case None
    then show ?thesis by (subst set_value.simps, subst chain.simps) simp
  next
    case (Some p)
    obtain js where js: "chain ss p = p # js" using chain_Cons by blast
    show ?thesis
      using 1 [OF Some] Some js has_value_chain [of ss p name]
      by (subst set_value.simps, subst chain.simps) auto
  qed
qed

lemma chain_target_in: "chain_target ss (i # is) name \<in> set (i # is)"
  by (induction ss "i # is" name arbitrary: i "is" rule: chain_target.induct) auto

lemma chain_shape: "same_shape ss ss' \<Longrightarrow> i < length ss \<Longrightarrow> chain ss' i = chain ss i"
proof (induction ss i rule: chain.induct)
  case (1 ss i)
  then show ?case
    by (subst (1 2) chain.simps) (auto simp: same_shape_nth split: option.splits)
qed

section \<open>Assignment and lookup\<close>

lemma put_value_nth [simp]:
  "i < length ss \<Longrightarrow> put_value ss i name v ! i = (ss ! i)\<lparr>m_values := (m_values (ss ! i))(name \<mapsto> v)\<rparr>"
  "j \<noteq> i \<Longrightarrow> put_value ss i name v ! j = ss ! j"
  by (simp_all add: put_value_def)

lemma length_put_value [simp]: "length (put_value ss i name v) = length ss"
  by (simp add: put_value_def)

lemma put_value_other: "k \<noteq> name \<Longrightarrow> m_values (put_value ss t name v ! j) k = m_values (ss ! j) k"
  by (cases "t < length ss"; cases "j = t") (simp_all add: put_value_def list_update_beyond)

lemma chain_lookup_other: "k \<noteq> name \<Longrightarrow> chain_lookup (put_value ss t name v) is k = chain_lookup ss is k"
  by (induction "is") (simp_all add: put_value_other split: option.splits)

lemma chain_lookup_target:
  assumes "t < length ss" and "t \<in> set is" and "list_all (\<lambda>j. \<not> binds ss name j) (takeWhile (\<lambda>j. j \<noteq> t) is)"
  shows "chain_lookup (put_value ss t name v) is name = Some v"
  using assms(2,3) by (induction "is") (use assms(1) in \<open>auto simp: binds_def split: if_splits\<close>)

lemma chain_target_less: "i < length ss \<Longrightarrow> chain_target ss (chain ss i) name < length ss"
  using chain_target_in [of ss i _ name] chain_Cons [of ss i] chain_le [of _ ss i]
  by (metis le_less_trans)

lemma length_set_value [simp]: "length (set_value ss i name v) = length ss"
  using shape_set_value [of ss i name v] by (simp add: same_shape_length)

lemma set_value_local:
  assumes "m_require_global (ss ! i)" and "name \<notin> m_global_tags (ss ! i)"
  shows "set_value ss i name v = put_value ss i name v"
  using assms by (subst set_value.simps) (simp split: option.splits)

lemma chain_length:
  assumes "scopes_ok ss" and "i < length ss"
  shows "int (length (chain ss i)) = depth (ss ! i) + 1"
  using assms
proof (induction ss i rule: chain.induct)
  case (1 ss i)
  then have "scope_ok ss i" by (simp add: scopes_ok_def)
  with 1 show ?case
    by (subst chain.simps) (auto simp: scope_ok_def split: option.splits)
qed

section \<open>Properties\<close>


definition demo_scopes :: scopes where
  "demo_scopes =
     [root_scope\<lparr>m_values := [''g'' \<mapsto> Some 0]\<rparr>,
      root_scope\<lparr>m_parent := Some 0, depth := 1, m_require_global := True,
                 m_values := [''a'' \<mapsto> Some 1]\<rparr>,
      root_scope\<lparr>m_parent := Some 1, depth := 2\<rparr>]"

lemma chain_demo: "chain demo_scopes 2 = [2, 1, 0]"
  by (simp add: chain.simps demo_scopes_def root_scope_def)


text \<open>
  C25: a function's own scope keeps its assignments to itself: an assignment to a name it has
  not declared \<open>global\<close> binds it there, leaves every other scope untouched, and is what the
  function reads next; an assignment to a declared name is made in the caller's scope.
\<close>

theorem function_scope_isolation:
  assumes "i < length ss" and "m_require_global (ss ! i)"
  shows "if name \<in> m_global_tags (ss ! i) \<and> (\<exists>p<i. m_parent (ss ! i) = Some p)
    then set_value ss i name v = set_value ss (the (m_parent (ss ! i))) name v
    else name \<notin> m_global_tags (ss ! i) \<longrightarrow>
      (\<forall>j. j \<noteq> i \<longrightarrow> set_value ss i name v ! j = ss ! j) \<and> find_value (set_value ss i name v) i name = Inr v"
proof (cases "name \<in> m_global_tags (ss ! i)")
  case True
  with assms(2) show ?thesis by (subst (1) set_value.simps) (auto simp: set_value.simps [of ss i])
next
  case False
  then have "set_value ss i name v = put_value ss i name v"
    using assms(2) by (simp add: set_value_local)
  with False assms(1) show ?thesis by (auto simp: find_value.simps [of _ i])
qed

theorem function_scope_isolation_witness:
  "set_value demo_scopes 1 ''g'' (Some 9) ! 0 = demo_scopes ! 0 \<and>
   find_value (set_value demo_scopes 1 ''g'' (Some 9)) 1 ''g'' = Inr (Some 9)"
  using function_scope_isolation [of 1 demo_scopes "''g''" "Some 9"]
  by (simp add: demo_scopes_def root_scope_def)

text \<open>
  In a well-formed stack of scopes the chain from any scope to its root has one scope per
  level of depth, so at most 128; constructing a child of a scope fails exactly when that scope
  is at depth 127, and otherwise keeps the stack well formed.
\<close>

theorem scope_depth_bound:
  assumes "scopes_ok ss" and "i < length ss"
  shows "int (length (chain ss i)) = depth (ss ! i) + 1 \<and> length (chain ss i) \<le> 128 \<and>
    (case child_scope i (ss ! i) of
       Inl e \<Rightarrow> length (chain ss i) = 128
     | Inr s \<Rightarrow> scopes_ok (ss @ [s]) \<and> length (chain (ss @ [s]) (length ss)) = Suc (length (chain ss i)))"
proof -
  have len: "int (length (chain ss i)) = depth (ss ! i) + 1"
    using assms by (rule chain_length)
  have d: "depth (ss ! i) < 128" using assms by (simp add: scopes_ok_def scope_ok_def)
  show ?thesis
  proof (cases "child_scope i (ss ! i)")
    case (Inl e)
    then show ?thesis using len d by (auto simp: child_scope_def Let_def split: if_splits)
  next
    case (Inr s)
    then have ok: "scopes_ok (ss @ [s])" using assms scopes_ok_child by blast
    have "depth s = depth (ss ! i) + 1" using Inr by (auto simp: child_scope_def Let_def split: if_splits)
    then show ?thesis using len d ok Inr chain_length [OF ok, of "length ss"] by simp
  qed
qed

theorem scope_depth_bound_witness:
  "length (chain demo_scopes 2) \<le> 128 \<and> scopes_ok demo_scopes"
proof -
  have "scopes_ok demo_scopes"
    by (auto simp: scopes_ok_def scope_ok_def demo_scopes_def root_scope_def less_Suc_eq numeral_3_eq_3)
  then show ?thesis using scope_depth_bound [of demo_scopes 2] by (simp add: demo_scopes_def)
qed

end
