(* ===== verification/Bitstream.thy ===== *)
theory Bitstream
  imports Prelude
begin

text \<open>
  The byte stream of \<^verbatim>\<open>thirdparty/bitstream/include/bitstream.h\<close>: a \<open>std::stringstream\<close> with a
  get and a put position and a sticky fail bit, big-endian integers and length-prefixed
  strings.  The lemmas show that the wire format does not depend on the host's byte order,
  that every reader inverts its writer, and that a failed stream stays failed and in place.
\<close>

section \<open>Byte order\<close>

text \<open>
  \<open>SwapByte\<close> for 2, 4 and 8 bytes, on a host where \<open>ShouldSwap\<close> holds.  The code's
  constants \<^verbatim>\<open>0xffff\<close>, \<^verbatim>\<open>0xffff0000\<close> and \<^verbatim>\<open>0xffffffffull\<close> are written with \<open>mask\<close>.
\<close>

definition swap16 :: "u16 \<Rightarrow> u16" where
  "swap16 v = (drop_bit 8 v OR push_bit 8 v)"

definition swap32 :: "u32 \<Rightarrow> u32" where
  "swap32 v =
     (push_bit 16 (ucast (swap16 (ucast (v AND mask 16)))) OR
      ucast (swap16 (ucast (drop_bit 16 (v AND push_bit 16 (mask 16))))))"

definition swap64 :: "u64 \<Rightarrow> u64" where
  "swap64 v =
     (push_bit 32 (ucast (swap32 (ucast (v AND mask 32)))) OR
      ucast (swap32 (ucast (drop_bit 32 v))))"

text \<open>The bytes of an object in memory, least significant first or last.\<close>

definition le_bytes32 :: "u32 \<Rightarrow> u8 list" where
  "le_bytes32 v = [ucast v, ucast (drop_bit 8 v), ucast (drop_bit 16 v), ucast (drop_bit 24 v)]"

definition le_bytes64 :: "u64 \<Rightarrow> u8 list" where
  "le_bytes64 v = map (\<lambda>i. ucast (drop_bit (8 * i) v)) [0..<8]"

definition be32 :: "u32 \<Rightarrow> u8 list" where
  "be32 v = [ucast (drop_bit 24 v), ucast (drop_bit 16 v), ucast (drop_bit 8 v), ucast v]"

definition be64 :: "u64 \<Rightarrow> u8 list" where
  "be64 v = be32 (ucast (drop_bit 32 v)) @ be32 (ucast v)"

text \<open>
  What \<open>SERIALIZER_FOR_POD\<close> writes for a 4 or 8 byte integer on a little-endian
  (\<open>little = True\<close>) or a big-endian host: \<open>Swap\<close> and then the object's bytes.
\<close>

definition pod_bytes32 :: "bool \<Rightarrow> u32 \<Rightarrow> u8 list" where
  "pod_bytes32 little v = (if little then le_bytes32 (swap32 v) else rev (le_bytes32 v))"

definition pod_bytes64 :: "bool \<Rightarrow> u64 \<Rightarrow> u8 list" where
  "pod_bytes64 little v = (if little then le_bytes64 (swap64 v) else rev (le_bytes64 v))"

fun of_be32 :: "u8 list \<Rightarrow> u32" where
  "of_be32 [a, b, c, d] =
     (push_bit 24 (ucast a) OR push_bit 16 (ucast b) OR push_bit 8 (ucast c) OR ucast d)"
| "of_be32 _ = 0"

definition of_be64 :: "u8 list \<Rightarrow> u64" where
  "of_be64 bs = (push_bit 32 (ucast (of_be32 (take 4 bs))) OR ucast (of_be32 (drop 4 bs)))"

lemma length_be32 [simp]: "length (be32 v) = 4"
  by (simp add: be32_def)

lemma length_be64 [simp]: "length (be64 v) = 8"
  by (simp add: be64_def)

lemma byte_range:
  "(n < 8 \<Longrightarrow> P) \<Longrightarrow> (8 \<le> n \<Longrightarrow> n < 16 \<Longrightarrow> P) \<Longrightarrow> (16 \<le> n \<Longrightarrow> n < 24 \<Longrightarrow> P) \<Longrightarrow>
   (24 \<le> n \<Longrightarrow> n < 32 \<Longrightarrow> P) \<Longrightarrow> (32 \<le> (n :: nat) \<Longrightarrow> P) \<Longrightarrow> P"
  by linarith

lemma of_be32_be32 [simp]: "of_be32 (be32 v) = v"
proof (rule bit_word_eqI)
  fix n
  show "bit (of_be32 (be32 v)) n = bit v n" if "n < LENGTH(32)"
    by (rule byte_range [of n]) (use that in \<open>auto simp: be32_def bit_simps\<close>)
qed

lemma of_be64_be64 [simp]: "of_be64 (be64 v) = v"
  by (rule bit_word_eqI) (auto simp: of_be64_def be64_def bit_simps)

lemma bit_swap16: "bit (swap16 v) n \<longleftrightarrow> (if n < 8 then bit v (n + 8) else n < 16 \<and> bit v (n - 8))"
  by (rule byte_range [of n]) (auto simp: swap16_def bit_simps add.commute dest: bit_imp_le_length)

lemma bit_swap32:
  "bit (swap32 v) n \<longleftrightarrow>
     (if n < 8 then bit v (n + 24) else if n < 16 then bit v (n + 8)
      else if n < 24 then bit v (n - 8) else n < 32 \<and> bit v (n - 24))"
  by (rule byte_range [of n]) (auto simp: swap32_def bit_simps bit_swap16 add.commute)

lemma bit_swap64:
  "bit (swap64 v) n \<longleftrightarrow>
     (if n < 32 then bit (swap32 (ucast (drop_bit 32 v))) n
      else n < 64 \<and> bit (swap32 (ucast v)) (n - 32))"
proof -
  have "ucast (v AND mask 32) = (ucast v :: u32)"
    by (rule bit_word_eqI) (simp add: bit_simps)
  then show ?thesis
    by (auto simp: swap64_def bit_simps dest: bit_imp_le_length)
qed

lemma le_bytes32_swap: "le_bytes32 (swap32 v) = be32 v"
  unfolding le_bytes32_def be32_def
  by (intro list.inject [THEN iffD2] conjI refl bit_word_eqI)
    (simp_all add: bit_simps bit_swap32 add.commute)

lemma rev_le_bytes32: "rev (le_bytes32 v) = be32 v"
  by (simp add: le_bytes32_def be32_def)

lemma le_bytes64_split:
  "le_bytes64 v = le_bytes32 (ucast v) @ le_bytes32 (ucast (drop_bit 32 v))"
proof -
  have "[0..<8] = [0, 1, 2, 3, 4, 5, 6, 7 :: nat]" by (simp add: upt_rec)
  then show ?thesis
    by (simp add: le_bytes64_def le_bytes32_def)
      (intro conjI bit_word_eqI; simp add: bit_simps add.assoc)
qed

lemma ucast_swap64:
  "ucast (swap64 v) = swap32 (ucast (drop_bit 32 v))"
  "ucast (drop_bit 32 (swap64 v)) = swap32 (ucast v)"
  by (rule bit_word_eqI; simp add: bit_simps bit_swap64)+

lemma pod_bytes32_be: "pod_bytes32 little v = be32 v"
  by (simp add: pod_bytes32_def le_bytes32_swap rev_le_bytes32)

lemma pod_bytes64_be: "pod_bytes64 little v = be64 v"
  by (simp add: pod_bytes64_def be64_def le_bytes64_split ucast_swap64 le_bytes32_swap rev_le_bytes32)

section \<open>The stream\<close>

text \<open>
  The fields of \<open>bitstream::bytecode\<close>: the buffer, the positions \<open>tellg\<close> and \<open>tellp\<close> of a
  good stream, and \<open>fail()\<close>.  A short read sets the fail bit, and nothing but \<open>clear\<close>
  (called by \<open>assign\<close>) takes it back: \<open>read\<close>, \<open>seekg\<close> and \<open>seekp\<close> leave a failed stream alone.
\<close>

record bitstream =
  bytecode :: "u8 list"
  getp :: nat
  putp :: nat
  failed :: bool

type_synonym 'a reader = "bitstream \<Rightarrow> (exn + 'a) \<times> bitstream"

definition bitstream_of :: "u8 list \<Rightarrow> bitstream" where
  "bitstream_of bs = \<lparr>bytecode = bs, getp = 0, putp = 0, failed = False\<rparr>"

definition eof_error :: exn where
  "eof_error = RuntimeError ''Unexpected EOF''"

text \<open>\<open>bytecode.read(buf, n)\<close>: the bytes extracted (fewer than \<open>n\<close> when the stream fails).\<close>

definition raw_read :: "nat \<Rightarrow> bitstream \<Rightarrow> u8 list \<times> bitstream" where
  "raw_read n s =
     (if failed s then ([], s)
      else if getp s + n \<le> length (bytecode s)
      then (take n (drop (getp s) (bytecode s)), s\<lparr>getp := getp s + n\<rparr>)
      else (drop (getp s) (bytecode s), s\<lparr>getp := length (bytecode s), failed := True\<rparr>))"

text \<open>\<open>bytecode.write(buf, n)\<close> at the put position, over what is there.\<close>

definition raw_write :: "u8 list \<Rightarrow> bitstream \<Rightarrow> bitstream" where
  "raw_write bs s =
     (if failed s then s
      else s\<lparr>bytecode := take (putp s) (bytecode s) @ bs @ drop (putp s + length bs) (bytecode s),
             putp := putp s + length bs\<rparr>)"

definition bs_assign :: "u8 list \<Rightarrow> bitstream \<Rightarrow> bitstream" where
  "bs_assign bs s = raw_write bs (s\<lparr>failed := False\<rparr>)"

definition bs_Read :: "u32 \<Rightarrow> bitstream \<Rightarrow> u8 list \<times> bitstream" where
  "bs_Read count s =
     (let (bs, s') = raw_read (unat count) s
      in (bs @ replicate (unat count - length bs) 32, s'))"

definition bs_pos :: "bitstream \<Rightarrow> u32" where
  "bs_pos s = (if failed s then - 1 else of_nat (getp s))"

definition bs_pos_write :: "bitstream \<Rightarrow> u32" where
  "bs_pos_write s = (if failed s then - 1 else of_nat (putp s))"

definition bs_move_to :: "u32 \<Rightarrow> bitstream \<Rightarrow> bitstream" where
  "bs_move_to pos s =
     (if failed s then s
      else if unat pos \<le> length (bytecode s) then s\<lparr>getp := unat pos\<rparr>
      else s\<lparr>failed := True\<rparr>)"

definition bs_move_to_write :: "u32 \<Rightarrow> bitstream \<Rightarrow> bitstream" where
  "bs_move_to_write pos s =
     (if failed s then s
      else if unat pos \<le> length (bytecode s) then s\<lparr>putp := unat pos\<rparr>
      else s\<lparr>failed := True\<rparr>)"

definition bs_move_to_end :: "bitstream \<Rightarrow> bitstream" where
  "bs_move_to_end s = (if failed s then s else s\<lparr>getp := length (bytecode s)\<rparr>)"

definition bs_move_to_end_write :: "bitstream \<Rightarrow> bitstream" where
  "bs_move_to_end_write s = (if failed s then s else s\<lparr>putp := length (bytecode s)\<rparr>)"

section \<open>Typed reads and writes\<close>

text \<open>
  \<open>operator>>\<close> and \<open>operator<<\<close>.  Integers go through \<open>pod_bytes32\<close> and \<open>pod_bytes64\<close>, which
  lemma \<open>pod_bytes32_be\<close> shows to be the big-endian bytes on every host.
\<close>

definition read_pod :: "nat \<Rightarrow> (u8 list \<Rightarrow> 'a) \<Rightarrow> 'a reader" where
  "read_pod n f s =
     (let (bs, s') = raw_read n s in if failed s' then (Inl eof_error, s') else (Inr (f bs), s'))"

definition get_u32 :: "u32 reader" where
  "get_u32 = read_pod 4 of_be32"

definition get_i32 :: "u32 reader" where
  "get_i32 = read_pod 4 of_be32"

definition get_i64 :: "i64 reader" where
  "get_i64 = read_pod 8 of_be64"

definition get_f64 :: "u64 reader" where
  "get_f64 = read_pod 8 of_be64"

definition get_bool :: "bool reader" where
  "get_bool = read_pod 1 (\<lambda>bs. hd bs \<noteq> 0)"

text \<open>\<open>operator&\<close>: a read that puts the get position back when it succeeds.\<close>

definition peek_u32 :: "u32 reader" where
  "peek_u32 s =
     (case get_u32 s of
        (Inl e, s') \<Rightarrow> (Inl e, s')
      | (Inr v, s') \<Rightarrow> (Inr v, s'\<lparr>getp := getp s\<rparr>))"

text \<open>Strings are bytes; \<open>char_of\<close> and \<open>of_char\<close> convert them.\<close>

definition chars_of :: "u8 list \<Rightarrow> string" where
  "chars_of bs = map (\<lambda>b. char_of (unat b)) bs"

definition bytes_of :: "string \<Rightarrow> u8 list" where
  "bytes_of cs = map (\<lambda>c. of_nat (of_char c)) cs"

definition get_string :: "string reader" where
  "get_string s =
     (case get_u32 s of
        (Inl e, s') \<Rightarrow> (Inl e, s')
      | (Inr n, s') \<Rightarrow>
          (if n = 0 then (Inr [], s') else read_pod (unat n) chars_of s'))"

definition put_u32 :: "u32 \<Rightarrow> bitstream \<Rightarrow> bitstream" where
  "put_u32 v = raw_write (pod_bytes32 True v)"

definition put_i64 :: "i64 \<Rightarrow> bitstream \<Rightarrow> bitstream" where
  "put_i64 v = raw_write (pod_bytes64 True v)"

definition put_bool :: "bool \<Rightarrow> bitstream \<Rightarrow> bitstream" where
  "put_bool b = raw_write [if b then 1 else 0]"

definition put_string :: "string \<Rightarrow> bitstream \<Rightarrow> bitstream" where
  "put_string cs s =
     (let s' = raw_write (pod_bytes32 True (of_nat (length cs))) s
      in if (of_nat (length cs) :: u32) \<noteq> 0 then raw_write (bytes_of cs) s' else s')"

definition enc_string :: "string \<Rightarrow> u8 list" where
  "enc_string cs = be32 (of_nat (length cs)) @ bytes_of cs"

section \<open>Laws of the readers\<close>

lemma chars_of_bytes_of [simp]: "chars_of (bytes_of cs) = cs"
proof -
  have "unat (of_nat (of_char c) :: u8) = of_char c" for c :: char
    by (simp add: unat_of_nat take_bit_eq_mod)
  then show ?thesis by (simp add: chars_of_def bytes_of_def comp_def)
qed

lemma length_bytes_of [simp]: "length (bytes_of cs) = length cs"
  by (simp add: bytes_of_def)

text \<open>A stream that has \<open>ds\<close> ahead of the get position.\<close>

definition ahead :: "u8 list \<Rightarrow> bitstream \<Rightarrow> bool" where
  "ahead ds s \<longleftrightarrow> \<not> failed s \<and> getp s + length ds \<le> length (bytecode s) \<and>
     take (length ds) (drop (getp s) (bytecode s)) = ds"

definition skip_bytes :: "nat \<Rightarrow> bitstream \<Rightarrow> bitstream" where
  "skip_bytes n s = s\<lparr>getp := getp s + n\<rparr>"

lemma ahead_append:
  "ahead (xs @ ys) s \<longleftrightarrow> ahead xs s \<and> ahead ys (skip_bytes (length xs) s)"
proof -
  have split: "take (length xs + length ys) d = xs @ ys \<longleftrightarrow>
      take (length xs) d = xs \<and> take (length ys) (drop (length xs) d) = ys"
    if "length xs + length ys \<le> length d" for d :: "u8 list"
    using that by (simp add: take_add append_eq_append_conv)
  show ?thesis
    using split [of "drop (getp s) (bytecode s)"]
    by (auto simp: ahead_def skip_bytes_def add.assoc add.commute add.left_commute)
qed

lemma skip_bytes_add [simp]: "skip_bytes m (skip_bytes n s) = skip_bytes (n + m) s"
  by (simp add: skip_bytes_def add.assoc)

lemma skip_bytes_0 [simp]: "skip_bytes 0 s = s"
  by (simp add: skip_bytes_def)

lemma raw_read_ahead: "ahead ds s \<Longrightarrow> raw_read (length ds) s = (ds, skip_bytes (length ds) s)"
  by (simp add: ahead_def raw_read_def skip_bytes_def)

lemma read_pod_ahead:
  "ahead ds s \<Longrightarrow> n = length ds \<Longrightarrow> read_pod n f s = (Inr (f ds), skip_bytes n s)"
  by (simp add: read_pod_def raw_read_ahead) (simp add: ahead_def skip_bytes_def)

lemma get_u32_ahead: "ahead (be32 v) s \<Longrightarrow> get_u32 s = (Inr v, skip_bytes 4 s)"
  by (simp add: get_u32_def read_pod_ahead)

lemma get_i32_ahead: "ahead (be32 v) s \<Longrightarrow> get_i32 s = (Inr v, skip_bytes 4 s)"
  by (simp add: get_i32_def read_pod_ahead)

lemma get_i64_ahead: "ahead (be64 v) s \<Longrightarrow> get_i64 s = (Inr v, skip_bytes 8 s)"
  by (simp add: get_i64_def read_pod_ahead)

lemma peek_u32_ahead: "ahead (be32 v) s \<Longrightarrow> peek_u32 s = (Inr v, s)"
  by (simp add: peek_u32_def get_u32_ahead skip_bytes_def)

lemma get_string_ahead:
  assumes "ahead (enc_string cs) s" and len: "length cs < 2 ^ 32"
  shows "get_string s = (Inr cs, skip_bytes (4 + length cs) s)"
proof -
  have n: "unat (of_nat (length cs) :: u32) = length cs"
    using len by (simp add: unat_of_nat take_bit_nat_eq_self)
  have a: "ahead (be32 (of_nat (length cs))) s" "ahead (bytes_of cs) (skip_bytes 4 s)"
    using assms(1) by (simp_all add: enc_string_def ahead_append)
  show ?thesis
  proof (cases "cs = []")
    case True
    then show ?thesis using get_u32_ahead [OF a(1)] by (simp add: get_string_def)
  next
    case False
    then have "(of_nat (length cs) :: u32) \<noteq> 0"
      using n by (metis length_0_conv unat_0)
    then show ?thesis
      using get_u32_ahead [OF a(1)] read_pod_ahead [OF a(2), of "length cs" chars_of] n
      by (simp add: get_string_def)
  qed
qed

section \<open>A failed stream stays failed\<close>

lemma read_pod_fails:
  "read_pod n f s = (r, s') \<Longrightarrow> 0 < n \<Longrightarrow>
     (r = Inl eof_error \<longleftrightarrow> failed s \<or> length (bytecode s) < getp s + n) \<and> (failed s' \<longleftrightarrow> r = Inl eof_error)"
  by (auto simp: read_pod_def raw_read_def Let_def split: if_splits)

lemma read_pod_failed: "failed s \<Longrightarrow> read_pod n f s = (Inl eof_error, s)"
  by (simp add: read_pod_def raw_read_def)

lemma get_string_failed: "failed s \<Longrightarrow> get_string s = (Inl eof_error, s)"
  by (simp add: get_string_def get_u32_def read_pod_failed)

lemma raw_write_failed [simp]: "failed s \<Longrightarrow> raw_write bs s = s"
  by (simp add: raw_write_def)

text \<open>What a reader may do to the stream: move the get position forward or set the fail bit.\<close>

definition reads :: "bitstream \<Rightarrow> bitstream \<Rightarrow> bool" where
  "reads s s' \<longleftrightarrow>
     bytecode s' = bytecode s \<and> putp s' = putp s \<and> getp s \<le> getp s' \<and>
     (getp s \<le> length (bytecode s) \<longrightarrow> getp s' \<le> length (bytecode s)) \<and> (failed s \<longrightarrow> s' = s)"

lemma reads_refl [simp]: "reads s s"
  by (simp add: reads_def)

lemma reads_trans: "reads s s' \<Longrightarrow> reads s' s'' \<Longrightarrow> reads s s''"
  by (auto simp: reads_def)

lemma raw_read_reads: "raw_read n s = (bs, s') \<Longrightarrow> getp s \<le> length (bytecode s) \<Longrightarrow> reads s s'"
  by (auto simp: raw_read_def reads_def split: if_splits)

lemma read_pod_reads: "read_pod n f s = (r, s') \<Longrightarrow> getp s \<le> length (bytecode s) \<Longrightarrow> reads s s'"
  by (auto simp: read_pod_def Let_def split: prod.splits if_splits dest: raw_read_reads)

lemma read_pod_progress:
  "read_pod n f s = (Inr v, s') \<Longrightarrow> getp s' = getp s + n \<and> getp s' \<le> length (bytecode s) \<and> \<not> failed s'"
  by (auto simp: read_pod_def raw_read_def Let_def split: if_splits)

lemma get_u32_reads: "get_u32 s = (r, s') \<Longrightarrow> getp s \<le> length (bytecode s) \<Longrightarrow> reads s s'"
  by (auto simp: get_u32_def dest: read_pod_reads)

lemma get_string_reads:
  assumes "get_string s = (r, s')" and "getp s \<le> length (bytecode s)"
  shows "reads s s'"
proof (cases "get_u32 s")
  case (Pair r1 s1)
  with assms(2) have 1: "reads s s1" by (auto dest: get_u32_reads)
  then have "getp s1 \<le> length (bytecode s1)" using assms(2) by (simp add: reads_def)
  then show ?thesis
    using assms(1) Pair 1
    by (auto simp: get_string_def split: sum.splits if_splits intro: reads_trans dest: read_pod_reads)
qed

section \<open>Writing\<close>

lemma raw_write_end:
  "\<not> failed s \<Longrightarrow> putp s = length (bytecode s) \<Longrightarrow>
     raw_write bs s = s\<lparr>bytecode := bytecode s @ bs, putp := length (bytecode s) + length bs\<rparr>"
  by (simp add: raw_write_def)

text \<open>The stream a writer has filled so far: put position at the end, not failed.\<close>

definition writer :: "u8 list \<Rightarrow> bitstream" where
  "writer bs = \<lparr>bytecode = bs, getp = 0, putp = length bs, failed = False\<rparr>"

lemma writer_simps [simp]:
  "bytecode (writer bs) = bs" "getp (writer bs) = 0" "putp (writer bs) = length bs"
  "\<not> failed (writer bs)"
  by (simp_all add: writer_def)

lemma raw_write_writer [simp]: "raw_write ds (writer bs) = writer (bs @ ds)"
  by (simp add: raw_write_end writer_def)

lemma put_u32_writer [simp]: "put_u32 v (writer bs) = writer (bs @ be32 v)"
  by (simp add: put_u32_def pod_bytes32_be)

lemma put_string_writer:
  "length cs < 2 ^ 32 \<Longrightarrow> put_string cs (writer bs) = writer (bs @ enc_string cs)"
proof -
  assume len: "length cs < 2 ^ 32"
  then have "unat (of_nat (length cs) :: u32) = length cs"
    by (simp add: unat_of_nat take_bit_nat_eq_self)
  then have "(of_nat (length cs) :: u32) = 0 \<longleftrightarrow> cs = []"
    by (metis length_0_conv unat_eq_zero)
  then show ?thesis
    by (cases "cs = []") (simp_all add: put_string_def pod_bytes32_be enc_string_def Let_def bytes_of_def)
qed

text \<open>
  Back-patching, as the compiler does for the length of a function stub: going back to a
  four-byte hole, filling it and going to the end again only changes the hole.
\<close>

lemma backpatch_writer:
  assumes "length pre < 2 ^ 32" and "length hole = 4"
  shows "bs_move_to_end_write (put_u32 v (bs_move_to_write (of_nat (length pre)) (writer (pre @ hole @ post))))
         = writer (pre @ be32 v @ post)"
proof -
  have "unat (of_nat (length pre) :: u32) = length pre"
    using assms(1) by (simp add: unat_of_nat take_bit_nat_eq_self)
  then show ?thesis
    using assms(2)
    by (simp add: bs_move_to_write_def put_u32_def pod_bytes32_be raw_write_def
        bs_move_to_end_write_def writer_def)
qed

lemma put_i64_writer [simp]: "put_i64 v (writer bs) = writer (bs @ be64 v)"
  by (simp add: put_i64_def pod_bytes64_be)

lemma aheadI: "getp s = length pre \<Longrightarrow> bytecode s = pre @ ds @ post \<Longrightarrow> \<not> failed s \<Longrightarrow> ahead ds s"
  by (simp add: ahead_def)

section \<open>Properties\<close>

text \<open>
  The bytes \<open>SERIALIZER_FOR_POD\<close> puts on the wire for 4 and 8 byte integers are the
  big-endian bytes of the value, on a little-endian and on a big-endian host alike, so
  bytecode compiled on one machine runs on the other.
\<close>

theorem wire_format_host_independent:
  "pod_bytes32 little v = be32 v \<and> of_be32 (pod_bytes32 little v) = v \<and>
   pod_bytes64 little w = be64 w \<and> of_be64 (pod_bytes64 little w) = w"
  by (simp add: pod_bytes32_be pod_bytes64_be)

text \<open>
  C21: reading undoes writing.  After an integer of 32 bits, one of 64 bits and a string have
  been written to a stream, the readers return the same three values in that order and leave
  the get position at the end.
\<close>

theorem stream_roundtrip:
  assumes "length cs < 2 ^ 32"
    and "s = (put_string cs (put_i64 w (put_u32 v (writer pre))))\<lparr>getp := length pre\<rparr>"
  shows "get_u32 s = (Inr v, skip_bytes 4 s) \<and>
    get_i64 (skip_bytes 4 s) = (Inr w, skip_bytes 12 s) \<and>
    get_string (skip_bytes 12 s) = (Inr cs, skip_bytes (16 + length cs) s) \<and>
    getp (skip_bytes (16 + length cs) s) = length (bytecode s)"
proof -
  have s: "s = (writer (pre @ be32 v @ be64 w @ enc_string cs))\<lparr>getp := length pre\<rparr>"
    using assms by (simp add: put_string_writer)
  then have a: "ahead (be32 v @ be64 w @ enc_string cs) s"
    by (auto intro!: aheadI [of _ pre _ "[]"])
  moreover have "getp (skip_bytes (16 + length cs) s) = length (bytecode s)"
    by (simp add: s skip_bytes_def enc_string_def)
  ultimately show ?thesis
    using assms(1) by (auto simp: ahead_append get_u32_ahead get_i64_ahead get_string_ahead)
qed

theorem stream_roundtrip_witness:
  "\<exists>s. get_string (skip_bytes 12 s) = (Inr ''ab'', skip_bytes 18 s)"
  using stream_roundtrip [where cs = "''ab''" and w = 7 and v = 5 and pre = "[1, 2]", OF _ refl] by auto

end
