(* ===== verification/Chain.thy ===== *)
theory Chain
  imports Std_Map Bitstream Values
begin

text \<open>
  The chain parameters and the balance bookkeeping of \<^verbatim>\<open>src/modules/blockchain_module.cpp\<close>, and
  the RC4 generator of \<^verbatim>\<open>include/modules/blockchain_module.h\<close>.  The member functions that
  contracts call are in theory \<open>Blockchain\<close>; here are the globals they work on and the
  arithmetic of \<open>send\<close> and \<open>suicide\<close>.

  The lemmas show that a transfer neither creates nor destroys value, and that the generator's
  state is always a permutation of the 256 octets.
\<close>

section \<open>Globals\<close>

record chain_env =
  txid :: string
  current_block :: string
  previous_block :: string
  current_time :: u32
  current_height :: u32
  previous_time :: u32
  sender :: string
  contract_address :: string
  call_value :: u64
  contract_balance :: u64
  send_map :: "(string, u64) smap"

section \<open>Transfers\<close>

text \<open>
  Crediting the receiver: the entry is changed before the overflow is noticed.  The check is
  \<^verbatim>\<open>it->second <= overflow_check\<close>, and a new entry is not checked.
\<close>

definition credit :: "string \<Rightarrow> string \<Rightarrow> u64 \<Rightarrow> (chain_env, unit) prog" where
  "credit msg a v env =
     (case sm_find (send_map env) a of
        Some old \<Rightarrow>
          (if old + v \<le> old then Inl (RuntimeError msg) else Inr (),
           env\<lparr>send_map := sm_put a (old + v) (send_map env)\<rparr>)
      | None \<Rightarrow> (Inr (), env\<lparr>send_map := sm_put a v (send_map env)\<rparr>))"

definition send_nothing :: exn where
  "send_nothing = RuntimeError ''sending nothing or more than the contract balance not allowed''"

definition receiver_overflow :: string where
  "receiver_overflow = ''sending produces overflow in receiver balance [receiver's balance]''"

definition suicide_overflow :: string where
  "suicide_overflow = ''sending produces overflow in receiver balance''"

text \<open>The debit of the contract balance, with its own overflow check.\<close>

definition debit :: "u64 \<Rightarrow> (chain_env, unit) prog" where
  "debit v env =
     (if contract_balance env \<le> contract_balance env - v
      then Inl (RuntimeError ''sending produces overflow in contract balance [sender's balance]'')
      else Inr (),
      env\<lparr>contract_balance := contract_balance env - v\<rparr>)"

definition send_value :: "string \<Rightarrow> i64 \<Rightarrow> (chain_env, unit) prog" where
  "send_value a v =
     bnd (gets contract_balance) (\<lambda>balance.
     bnd (throw_if (sint v \<le> 0 \<or> balance < v) send_nothing) (\<lambda>_.
     bnd (credit receiver_overflow a v) (\<lambda>_. debit v)))"

definition suicide_to :: "string \<Rightarrow> (chain_env, unit) prog" where
  "suicide_to a =
     bnd (gets contract_balance) (\<lambda>balance.
     bnd (credit suicide_overflow a balance) (\<lambda>_.
     bnd (modify (\<lambda>env. env\<lparr>contract_balance := 0\<rparr>)) (\<lambda>_. throw SuicideException)))"

section \<open>The generator\<close>

definition swap_byte :: "nat \<Rightarrow> nat \<Rightarrow> u8 list \<Rightarrow> u8 list" where
  "swap_byte i j s = (let temp = s ! i; s1 = s[i := s ! j] in s1[j := temp])"

text \<open>\<open>c_str\<close> and \<open>strlen\<close>: a string's bytes up to its first null byte.\<close>

definition c_bytes :: "string \<Rightarrow> u8 list" where
  "c_bytes cs = bytes_of (takeWhile (\<lambda>c. c \<noteq> char_of (0 :: nat)) cs)"

definition get_octet :: "u8 list \<Rightarrow> nat \<Rightarrow> u8" where
  "get_octet key i = key ! (i mod length key)"

text \<open>The seeding loop from index \<open>i\<close> for \<open>n\<close> rounds.\<close>

fun seed_loop :: "u8 list \<Rightarrow> nat \<Rightarrow> nat \<Rightarrow> int \<Rightarrow> u8 list \<Rightarrow> u8 list" where
  "seed_loop key i 0 j s = s"
| "seed_loop key i (Suc n) j s =
     (let j' = (j + uint (s ! i) + uint (get_octet key i)) AND 255
      in seed_loop key (Suc i) n j' (swap_byte i (nat j') s))"

text \<open>An empty key makes \<open>octet_idx % n_bytes\<close> a division by zero.\<close>

definition prng_seed_bytes :: "u8 list \<Rightarrow> (rc4, unit) prog" where
  "prng_seed_bytes key r =
     (if key = [] then (Inl ArithmeticTrap, r)
      else (Inr (), r\<lparr>rc4_s := seed_loop key 0 256 0 (rc4_s r), s_i := 0, s_j := 0, seeded := True\<rparr>))"

definition prng_get_octet :: "(rc4, u8) prog" where
  "prng_get_octet r =
     (let i = (s_i r + 1) AND 255;
          j = (s_j r + uint (rc4_s r ! nat i)) AND 255;
          s = swap_byte (nat i) (nat j) (rc4_s r)
      in (Inr (s ! nat ((uint (s ! nat i) + uint (s ! nat j)) AND 255)),
          r\<lparr>rc4_s := s, s_i := i, s_j := j\<rparr>))"

definition prng_get_uint :: "(rc4, u32) prog" where
  "prng_get_uint =
     bnd prng_get_octet (\<lambda>o0.
     times 3 (\<lambda>u. bnd prng_get_octet (\<lambda>b. ret (push_bit 8 u OR ucast b))) (ucast o0))"

definition prng_get_byte :: "(rc4, u8) prog" where
  "prng_get_byte = bnd prng_get_octet (\<lambda>b. ret (ucast (ucast b :: u32)))"

fun prng_get_bytes :: "nat \<Rightarrow> (rc4, u8 list) prog" where
  "prng_get_bytes 0 = ret []"
| "prng_get_bytes (Suc n) = bnd prng_get_byte (\<lambda>b. bnd (prng_get_bytes n) (\<lambda>bs. ret (b # bs)))"

definition prng_init :: rc4 where
  "prng_init = \<lparr>rc4_s = map of_nat [0..<256], s_i = 0, s_j = 0, seeded = False\<rparr>"

definition seed_prng :: "chain_env \<Rightarrow> (rc4, unit) prog" where
  "seed_prng env =
     for_each [current_block env, previous_block env, sender env, contract_address env, txid env]
       (\<lambda>k. prng_seed_bytes (c_bytes k))"

text \<open>\<open>get_random\<close> without the value object it returns.\<close>

definition draw_random :: "chain_env \<Rightarrow> (rc4, u32) prog" where
  "draw_random env =
     bnd (gets seeded) (\<lambda>s.
     bnd (if \<not> s then seed_prng env else ret ()) (\<lambda>_. prng_get_uint))"

section \<open>Value is conserved\<close>

definition sm_total :: "(string, u64) smap \<Rightarrow> nat" where
  "sm_total m = sum_list (map (\<lambda>(k, v). unat v) m)"

definition received :: "chain_env \<Rightarrow> string \<Rightarrow> nat" where
  "received env a = (case sm_find (send_map env) a of Some v \<Rightarrow> unat v | None \<Rightarrow> 0)"

definition money :: "chain_env \<Rightarrow> nat" where
  "money env = unat (contract_balance env) + sm_total (send_map env)"

lemma sm_total_put:
  "sm_sound m \<Longrightarrow>
     sm_total (sm_put a v m) + (case sm_find m a of Some w \<Rightarrow> unat w | None \<Rightarrow> 0) = sm_total m + unat v"
proof (induction a v m rule: sm_put.induct)
  case (2 k v j w m)
  have "sm_find m k = None" if "k < j"
    using that 2(2) by (auto simp: sm_find_keys)
  with 2 show ?case by (auto simp: sm_total_def split: option.splits)
qed (simp add: sm_total_def)

lemma unat_add_no_overflow:
  fixes x y :: u64
  assumes "x < x + y"
  shows "unat (x + y) = unat x + unat y"
  using assms unat_add_lem [of x y] no_olen_add_nat [of x y]
  by (metis order_less_imp_le)

lemma credit_Inr:
  assumes "sm_sound (send_map env)" and "credit msg a v env = (Inr (), env')"
  shows "contract_balance env' = contract_balance env \<and> sm_sound (send_map env') \<and>
    sm_total (send_map env') = sm_total (send_map env) + unat v \<and>
    received env' a = received env a + unat v \<and> (\<forall>b. b \<noteq> a \<longrightarrow> received env' b = received env b)"
proof (cases "sm_find (send_map env) a")
  case None
  with assms sm_total_put [of "send_map env" a v] show ?thesis
    by (auto simp: credit_def received_def sm_find_put)
next
  case (Some old)
  with assms have lt: "old < old + v" and env': "env' = env\<lparr>send_map := sm_put a (old + v) (send_map env)\<rparr>"
    by (auto simp: credit_def split: if_splits)
  note sum = unat_add_no_overflow [OF lt]
  show ?thesis
    using assms(1) sm_total_put [OF assms(1), of a "old + v"] Some sum
    by (auto simp: env' received_def sm_find_put)
qed

lemma credit_balance: "contract_balance (snd (credit msg a v env)) = contract_balance env"
  by (simp add: credit_def split: option.splits)

lemma debit_ok:
  fixes v :: u64
  assumes "0 < v" and "v \<le> contract_balance env"
  shows "debit v env = (Inr (), env\<lparr>contract_balance := contract_balance env - v\<rparr>)"
    and "unat (contract_balance env - v) + unat v = unat (contract_balance env)"
proof -
  show sub: "unat (contract_balance env - v) + unat v = unat (contract_balance env)"
    using assms(2) by (simp add: unat_sub word_le_nat_alt)
  have "0 < unat v" using assms(1) by (simp add: unat_gt_0 word_neq_0_conv)
  with sub have "contract_balance env - v < contract_balance env" by (simp add: word_less_nat_alt)
  then show "debit v env = (Inr (), env\<lparr>contract_balance := contract_balance env - v\<rparr>)"
    by (simp add: debit_def)
qed

lemma sint_pos_word: "0 < sint (v :: i64) \<Longrightarrow> 0 < v"
  by (metis sint_0 less_irrefl word_gt_0)

lemma send_value_effect:
  assumes "sm_sound (send_map env)"
  shows "case send_value a v env of
      (Inr _, env') \<Rightarrow>
        0 < sint v \<and> unat (contract_balance env') + unat v = unat (contract_balance env) \<and>
        received env' a = received env a + unat v \<and>
        (\<forall>b. b \<noteq> a \<longrightarrow> received env' b = received env b) \<and> money env' = money env
    | (Inl e, env') \<Rightarrow>
        contract_balance env' = contract_balance env \<and>
        (e = send_nothing \<and> env' = env \<and> (sint v \<le> 0 \<or> contract_balance env < v) \<or>
         e = RuntimeError receiver_overflow \<and> 2 ^ 64 \<le> received env a + unat v)"
proof (cases "sint v \<le> 0 \<or> contract_balance env < v")
  case True
  then show ?thesis by (auto simp: send_value_def gets_def bnd_def throw_if_def throw_def)
next
  case False
  then have pos: "0 < v" "0 < sint v" and cov: "v \<le> contract_balance env" using sint_pos_word by auto
  have run: "send_value a v env = bnd (credit receiver_overflow a v) (\<lambda>_. debit v) env"
    using False by (simp add: send_value_def gets_def bnd_def throw_if_def ret_def)
  show ?thesis
  proof (cases "credit receiver_overflow a v env")
    case (Pair r env1)
    show ?thesis
    proof (cases r)
      case (Inr u)
      note c = credit_Inr [OF assms, of receiver_overflow a v env1]
      have "debit v env1 = (Inr (), env1\<lparr>contract_balance := contract_balance env1 - v\<rparr>)"
        and "unat (contract_balance env1 - v) + unat v = unat (contract_balance env1)"
        using debit_ok [of v env1] pos cov c Pair Inr by simp_all
      then show ?thesis
        using Pair Inr c pos by (auto simp: run bnd_def money_def received_def)
    next
      case (Inl e)
      then obtain old where old: "sm_find (send_map env) a = Some old" "old + v \<le> old"
        "e = RuntimeError receiver_overflow" "contract_balance env1 = contract_balance env"
        using Pair by (auto simp: credit_def split: option.splits if_splits)
      have "\<not> unat old + unat v < 2 ^ 64"
      proof
        assume "unat old + unat v < 2 ^ 64"
        then have "unat (old + v) = unat old + unat v" by (simp add: unat_add_lem [THEN iffD1])
        moreover have "0 < unat v" using pos by (simp add: unat_gt_0 word_neq_0_conv)
        ultimately show False using old(2) by (simp add: word_le_nat_alt)
      qed
      then show ?thesis using Pair Inl old by (simp add: run bnd_def received_def)
    qed
  qed
qed

text \<open>
  C14: a transfer conserves value.  If \<open>send\<close> succeeds, the amount was positive and covered by
  the contract balance, it moved from the balance to the receiver's entry in full, every other
  entry is as before, and the sum of all balances is unchanged.  If it fails, the balance is
  unchanged, and the failure is one of two: an inadmissible amount, with nothing changed, or a
  receiver entry that would wrap around.
\<close>

theorem send_conserves_value:
  assumes "sm_sound (send_map env)"
  shows "case send_value a v env of
      (Inr _, env') \<Rightarrow>
        0 < sint v \<and> unat (contract_balance env') + unat v = unat (contract_balance env) \<and>
        received env' a = received env a + unat v \<and>
        (\<forall>b. b \<noteq> a \<longrightarrow> received env' b = received env b) \<and> money env' = money env
    | (Inl e, env') \<Rightarrow>
        contract_balance env' = contract_balance env \<and>
        (e = send_nothing \<and> env' = env \<and> (sint v \<le> 0 \<or> contract_balance env < v) \<or>
         e = RuntimeError receiver_overflow \<and> 2 ^ 64 \<le> received env a + unat v)"
  using send_value_effect [OF assms, of v a] .

definition demo_env :: chain_env where
  "demo_env =
     \<lparr>txid = ''tx'', current_block = ''cur'', previous_block = ''prev'', current_time = 9,
      current_height = 7, previous_time = 8, sender = ''alice'', contract_address = ''contract'',
      call_value = 5, contract_balance = 100, send_map = [(''bob'', 30)]\<rparr>"

theorem send_conserves_value_witness:
  "send_value ''bob'' 40 demo_env =
     (Inr (), demo_env\<lparr>contract_balance := 60, send_map := [(''bob'', 70)]\<rparr>) \<and>
   money (demo_env\<lparr>contract_balance := 60, send_map := [(''bob'', 70)]\<rparr>) = money demo_env"
proof -
  have run: "send_value ''bob'' 40 demo_env =
     (Inr (), demo_env\<lparr>contract_balance := 60, send_map := [(''bob'', 70)]\<rparr>)"
    by (simp add: send_value_def demo_env_def bnd_def gets_def throw_if_def ret_def credit_def debit_def)
  have "sm_sound (send_map demo_env)" by (simp add: demo_env_def)
  from send_conserves_value [OF this, of 40 "''bob''"] run show ?thesis by simp
qed

lemma suicide_to_effect:
  assumes "sm_sound (send_map env)"
  shows "case suicide_to a env of
      (Inr _, _) \<Rightarrow> False
    | (Inl e, env') \<Rightarrow>
        if sm_find (send_map env) a \<noteq> None \<and>
           (contract_balance env = 0 \<or> 2 ^ 64 \<le> received env a + unat (contract_balance env))
        then e = RuntimeError suicide_overflow \<and> contract_balance env' = contract_balance env
        else e = SuicideException \<and> contract_balance env' = 0 \<and> money env' = money env \<and>
             received env' a = received env a + unat (contract_balance env)"
proof (cases "credit suicide_overflow a (contract_balance env) env")
  case (Pair r env1)
  have run: "suicide_to a env = (case r of Inl e \<Rightarrow> (Inl e, env1)
      | Inr _ \<Rightarrow> (Inl SuicideException, env1\<lparr>contract_balance := 0\<rparr>))"
    using Pair by (simp add: suicide_to_def bnd_def gets_def modify_def throw_def split: sum.splits)
  let ?b = "contract_balance env"
  have wraps: "old + ?b \<le> old \<longleftrightarrow> ?b = 0 \<or> 2 ^ 64 \<le> unat old + unat ?b" for old
  proof (cases "unat old + unat ?b < 2 ^ 64")
    case True
    then have "unat (old + ?b) = unat old + unat ?b" by (simp add: unat_add_lem [THEN iffD1])
    with True show ?thesis by (simp add: word_le_nat_alt unat_eq_0)
  next
    case False
    have "unat (old + ?b) < 2 ^ 64" using unsigned_less [of "old + ?b"] by simp
    with False have "\<not> old < old + ?b" using unat_add_no_overflow [of old ?b] by auto
    with False show ?thesis by (simp add: linorder_not_less)
  qed
  let ?stuck = "sm_find (send_map env) a \<noteq> None \<and> (?b = 0 \<or> 2 ^ 64 \<le> received env a + unat ?b)"
  have r: "if ?stuck then r = Inl (RuntimeError suicide_overflow) \<and> contract_balance env1 = ?b else r = Inr ()"
  proof (cases "sm_find (send_map env) a")
    case None
    with Pair show ?thesis by (auto simp: credit_def)
  next
    case (Some old)
    with wraps [of old] have stuck: "?stuck \<longleftrightarrow> old + ?b \<le> old" by (simp add: received_def)
    show ?thesis using Pair Some unfolding stuck credit_def by (cases "old + ?b \<le> old") auto
  qed
  show ?thesis
  proof (cases ?stuck)
    case True
    with r show ?thesis by (simp add: run)
  next
    case False
    with r have "r = Inr ()" by simp
    moreover from this Pair
    have "contract_balance env1 = ?b \<and> sm_total (send_map env1) = sm_total (send_map env) + unat ?b \<and>
        received env1 a = received env a + unat ?b"
      using credit_Inr [OF assms, of suicide_overflow a ?b env1] by simp
    ultimately show ?thesis using False by (simp only: run) (simp add: money_def received_def)
  qed
qed

text \<open>
  C27: \<open>suicide\<close> never returns.  It pays the whole balance to the address, whatever it is, and
  then the sum of all balances is unchanged and the contract is empty; or it reports an
  overflow, which happens exactly when the receiver has an entry already and the contract's
  balance is zero (nothing could overflow) or the entry would wrap around.
\<close>

theorem suicide_pays_everything:
  assumes "sm_sound (send_map env)"
  shows "case suicide_to a env of
      (Inr _, _) \<Rightarrow> False
    | (Inl e, env') \<Rightarrow>
        if sm_find (send_map env) a \<noteq> None \<and>
           (contract_balance env = 0 \<or> 2 ^ 64 \<le> received env a + unat (contract_balance env))
        then e = RuntimeError suicide_overflow \<and> contract_balance env' = contract_balance env
        else e = SuicideException \<and> contract_balance env' = 0 \<and> money env' = money env \<and>
             received env' a = received env a + unat (contract_balance env)"
  using suicide_to_effect [OF assms, of a] .

theorem suicide_pays_everything_witness:
  "suicide_to ''not an address'' demo_env =
     (Inl SuicideException,
      demo_env\<lparr>contract_balance := 0, send_map := [(''bob'', 30), (''not an address'', 100)]\<rparr>) \<and>
   fst (suicide_to ''bob'' (demo_env\<lparr>contract_balance := 0\<rparr>)) = Inl (RuntimeError suicide_overflow)"
proof -
  have run: "suicide_to ''not an address'' demo_env =
     (Inl SuicideException,
      demo_env\<lparr>contract_balance := 0, send_map := [(''bob'', 30), (''not an address'', 100)]\<rparr>)"
    by (simp add: suicide_to_def demo_env_def bnd_def gets_def modify_def throw_def credit_def)
  have run0: "suicide_to ''bob'' (demo_env\<lparr>contract_balance := 0\<rparr>) =
     (Inl (RuntimeError suicide_overflow), demo_env\<lparr>contract_balance := 0\<rparr>)"
    by (simp add: suicide_to_def demo_env_def bnd_def gets_def credit_def)
  have "sm_sound (send_map demo_env)" by (simp add: demo_env_def)
  from suicide_pays_everything [OF this, of "''not an address''"] run run0 show ?thesis by simp
qed

section \<open>The generator's state\<close>

definition rc4_ok :: "rc4 \<Rightarrow> bool" where
  "rc4_ok r \<longleftrightarrow> length (rc4_s r) = 256 \<and> distinct (rc4_s r) \<and>
     0 \<le> s_i r \<and> s_i r < 256 \<and> 0 \<le> s_j r \<and> s_j r < 256"

lemma swap_byte_simps [simp]:
  assumes "i < length s" and "j < length s"
  shows "length (swap_byte i j s) = length s" "distinct (swap_byte i j s) = distinct s"
    "set (swap_byte i j s) = set s"
  using assms distinct_swap [of i s j] set_swap [of i s j] by (simp_all add: swap_byte_def Let_def)

lemma and_255: "(x :: int) AND 255 = x mod 256"
  using take_bit_eq_mask [of 8 x] by (simp add: mask_eq_exp_minus_1 take_bit_eq_mod)

lemma seed_loop_perm:
  assumes "distinct s" and "length s = 256" and "i + n \<le> 256" and "0 \<le> j"
  shows "distinct (seed_loop key i n j s) \<and> length (seed_loop key i n j s) = 256"
  using assms
proof (induction key i n j s rule: seed_loop.induct)
  case (2 key i n j s)
  let ?j = "(j + uint (s ! i) + uint (get_octet key i)) AND 255"
  have "0 \<le> ?j" "nat ?j < 256" by (simp_all add: and_255)
  with 2 show ?case by (simp add: Let_def)
qed simp

text \<open>What a generator operation keeps.\<close>

definition keeps_rc4 :: "(rc4, 'a) prog \<Rightarrow> bool" where
  "keeps_rc4 m \<longleftrightarrow> (\<forall>r. rc4_ok r \<longrightarrow> rc4_ok (snd (m r)))"

lemma keeps_rc4_bnd: "keeps_rc4 m \<Longrightarrow> (\<And>x. keeps_rc4 (f x)) \<Longrightarrow> keeps_rc4 (bnd m f)"
  unfolding keeps_rc4_def bnd_def by (auto split: prod.splits sum.splits; metis snd_conv)

lemma keeps_rc4_ret: "keeps_rc4 (ret x)" "keeps_rc4 (gets f)"
  by (simp_all add: keeps_rc4_def ret_def gets_def)

lemma keeps_rc4_for_each: "(\<And>x. keeps_rc4 (f x)) \<Longrightarrow> keeps_rc4 (for_each xs f)"
  by (induction xs) (auto intro: keeps_rc4_bnd keeps_rc4_ret)

lemma keeps_rc4_times: "(\<And>x. keeps_rc4 (f x)) \<Longrightarrow> keeps_rc4 (times n f a)"
  by (induction n arbitrary: a) (auto intro: keeps_rc4_bnd keeps_rc4_ret)

lemma keeps_rc4_seed: "keeps_rc4 (prng_seed_bytes key)"
  by (auto simp: keeps_rc4_def prng_seed_bytes_def rc4_ok_def seed_loop_perm)

lemma keeps_rc4_octet: "keeps_rc4 prng_get_octet"
  unfolding keeps_rc4_def
proof (intro allI impI)
  fix r assume r: "rc4_ok r"
  let ?i = "(s_i r + 1) AND 255"
  let ?j = "(s_j r + uint (rc4_s r ! nat ?i)) AND 255"
  have "0 \<le> ?i" "?i < 256" "0 \<le> ?j" "?j < 256" by (simp_all add: and_255)
  with r show "rc4_ok (snd (prng_get_octet r))"
    by (simp add: prng_get_octet_def rc4_ok_def Let_def nat_less_iff)
qed

lemma keeps_rc4_seed_prng: "keeps_rc4 (seed_prng env)"
  unfolding seed_prng_def by (intro keeps_rc4_for_each keeps_rc4_seed)

lemma keeps_rc4_uint: "keeps_rc4 prng_get_uint"
  unfolding prng_get_uint_def
  by (intro keeps_rc4_bnd keeps_rc4_times keeps_rc4_octet keeps_rc4_ret)

lemma keeps_rc4_bytes: "keeps_rc4 (prng_get_bytes n)"
proof (induction n)
  case (Suc n)
  then show ?case
    unfolding prng_get_bytes.simps prng_get_byte_def
    by (intro keeps_rc4_bnd keeps_rc4_octet keeps_rc4_ret)
qed (simp add: keeps_rc4_ret)

lemma keeps_rc4_draw: "keeps_rc4 (draw_random env)"
  unfolding draw_random_def
  by (intro keeps_rc4_bnd keeps_rc4_ret keeps_rc4_uint) (simp add: keeps_rc4_seed_prng keeps_rc4_ret)

lemma rc4_ok_init: "rc4_ok prng_init"
  by (simp add: rc4_ok_def prng_init_def distinct_map inj_on_def word_unat_eq_iff unat_of_nat take_bit_eq_mod)

text \<open>
  C28: from the state the constructor sets up, any number of \<open>random\<close> calls, under any chain
  parameters, leaves the generator with a permutation of all 256 octets and with both indices
  below 256, so no access to the state array is out of bounds; a first call fails exactly
  when one of the five seed strings is empty (or starts with a null byte), by a division by zero.
\<close>

theorem rc4_state_is_permutation:
  "rc4_ok (snd (for_each envs (\<lambda>env. bnd (draw_random env) (\<lambda>_. ret ())) prng_init)) \<and>
   ((\<exists>e. fst (draw_random env prng_init) = Inl e) \<longleftrightarrow>
      [] \<in> c_bytes ` {current_block env, previous_block env, sender env, contract_address env, txid env})"
proof
  have "keeps_rc4 (for_each envs (\<lambda>env. bnd (draw_random env) (\<lambda>_. ret ())))"
    by (intro keeps_rc4_for_each keeps_rc4_bnd keeps_rc4_draw keeps_rc4_ret)
  then show "rc4_ok (snd (for_each envs (\<lambda>env. bnd (draw_random env) (\<lambda>_. ret ())) prng_init))"
    using rc4_ok_init by (simp add: keeps_rc4_def)
  have octet: "\<exists>b r'. prng_get_octet r = (Inr b, r')" for r by (simp add: prng_get_octet_def Let_def)
  have uint: "\<exists>u r'. prng_get_uint r = (Inr u, r')" for r
    using octet unfolding prng_get_uint_def numeral_3_eq_3 times.simps bnd_def ret_def
    by (auto split: prod.splits sum.splits) (metis Pair_inject sum.distinct(1))+
  have seed: "(\<exists>e. fst (for_each ks (\<lambda>k. prng_seed_bytes (c_bytes k)) r) = Inl e) \<longleftrightarrow> [] \<in> c_bytes ` set ks"
    for ks r
    by (induction ks arbitrary: r) (auto simp: ret_def bnd_def prng_seed_bytes_def)
  have "(\<exists>e. fst (draw_random env prng_init) = Inl e) \<longleftrightarrow> (\<exists>e. fst (seed_prng env prng_init) = Inl e)"
    using uint unfolding draw_random_def bnd_def gets_def prng_init_def
    by (auto split: prod.splits sum.splits) (metis fst_conv sum.distinct(1))+
  then show "(\<exists>e. fst (draw_random env prng_init) = Inl e) \<longleftrightarrow>
      [] \<in> c_bytes ` {current_block env, previous_block env, sender env, contract_address env, txid env}"
    unfolding seed_prng_def seed by simp
qed

end
