(* ===== verification/Machine.thy ===== *)
theory Machine
  imports Containers Persist Scopes Chain
begin

text \<open>
  The state of a run and the parts of \<open>Interpreter\<close> that do not evaluate nodes
  (\<^verbatim>\<open>include/cowlang/Interpreter.h\<close> and \<^verbatim>\<open>src/interpreter/Interpreter.cpp\<close>): the step
  counter, names, modules, and \<open>skip_next\<close>.

  The \<open>vm\<close> record is what all interpreters of a run share: the heap of values, the stack of
  live scopes, the program output, the chain parameters, and two things the host provides, the
  numbers \<open>rand()\<close> returns and the address check of the bitcoin library.  Its field \<open>ip\<close> is the
  interpreter that is running; a call of a contract function replaces it for the time of the
  call.
\<close>

section \<open>State\<close>

record interp =
  m_data :: bitstream
  m_num_execution_steps :: u32
  m_execution_step_limit :: u32
  m_loaded_modules :: "string \<rightharpoonup> addr"
  m_store :: addr
  m_global_scope :: nat

record vm =
  heap :: heap
  scopes :: scopes
  program_output :: string
  chain_state :: chain_env
  rand_stream :: "nat \<Rightarrow> u32"
  rand_pos :: nat
  addr_check :: "string \<Rightarrow> bool"
  ip :: interp

type_synonym 'a exec = "(vm, 'a) prog"

datatype loop_state =
    LS_None
  | LS_TopLevel
  | LS_Normal
  | LS_Break
  | LS_Continue
  | LS_IgnoreAll

definition on_heap :: "(heap, 'a) prog \<Rightarrow> 'a exec" where
  "on_heap = on_part heap (\<lambda>h s. s\<lparr>heap := h\<rparr>)"

definition on_ip :: "(interp, 'a) prog \<Rightarrow> 'a exec" where
  "on_ip = on_part ip (\<lambda>i s. s\<lparr>ip := i\<rparr>)"

definition on_chain :: "(chain_env, 'a) prog \<Rightarrow> 'a exec" where
  "on_chain = on_part chain_state (\<lambda>c s. s\<lparr>chain_state := c\<rparr>)"

definition on_scopes :: "(scopes \<Rightarrow> scopes) \<Rightarrow> unit exec" where
  "on_scopes f = modify (\<lambda>s. s\<lparr>scopes := f (scopes s)\<rparr>)"

text \<open>A pure result that depends on the heap.\<close>

definition with_heap :: "(heap \<Rightarrow> exn + 'a) \<Rightarrow> 'a exec" where
  "with_heap f s = (f (heap s), s)"

definition obj_at :: "addr \<Rightarrow> obj exec" where
  "obj_at a = gets (\<lambda>s. heap s ! a)"

section \<open>Reading the bytecode and charging steps\<close>

definition on_data :: "(bitstream, 'a) prog \<Rightarrow> (interp, 'a) prog" where
  "on_data = on_part m_data (\<lambda>d i. i\<lparr>m_data := d\<rparr>)"

definition rd_u32 :: "(interp, u32) prog" where
  "rd_u32 = on_data get_u32"

definition rd_string :: "(interp, string) prog" where
  "rd_string = on_data get_string"

definition move_to :: "u32 \<Rightarrow> (interp, unit) prog" where
  "move_to pos = modify (\<lambda>i. i\<lparr>m_data := bs_move_to pos (m_data i)\<rparr>)"

definition data_pos :: "(interp, u32) prog" where
  "data_pos = gets (\<lambda>i. bs_pos (m_data i))"

text \<open>\<open>CHARGE_EXECUTION\<close>.\<close>

definition charge :: "(interp, unit) prog" where
  "charge i =
     (let i' = i\<lparr>m_num_execution_steps := m_num_execution_steps i + 1\<rparr>
      in if 0 < m_execution_step_limit i' \<and> m_execution_step_limit i' \<le> m_num_execution_steps i'
         then (Inl OutOfGasException, i') else (Inr (), i'))"

definition set_execution_step_limit :: "u32 \<Rightarrow> (interp, unit) prog" where
  "set_execution_step_limit limit =
     bnd (throw_if (limit = 0) (RuntimeError ''Limit has to be larger than 0'')) (\<lambda>_.
     modify (\<lambda>i. i\<lparr>m_execution_step_limit := limit\<rparr>))"

definition set_num_execution_steps :: "u32 \<Rightarrow> (interp, unit) prog" where
  "set_num_execution_steps current = modify (\<lambda>i. i\<lparr>m_num_execution_steps := current\<rparr>)"

text \<open>\<open>re_assign_bitstream\<close> writes over the old bytes at the put position.\<close>

definition re_assign_bitstream :: "bitstream \<Rightarrow> (interp, unit) prog" where
  "re_assign_bitstream d = modify (\<lambda>i. i\<lparr>m_data := bs_assign (bytecode d) (m_data i)\<rparr>)"

text \<open>\<^verbatim>\<open>for(i = 0; i < n; ++i) { CHARGE_EXECUTION; acc = f(acc); }\<close>\<close>

definition charged_times :: "u32 \<Rightarrow> ('a \<Rightarrow> (interp, 'a) prog) \<Rightarrow> 'a \<Rightarrow> (interp, 'a) prog" where
  "charged_times n f = times (unat n) (\<lambda>a. bnd charge (\<lambda>_. f a))"

definition exec_times :: "u32 \<Rightarrow> ('a \<Rightarrow> 'a exec) \<Rightarrow> 'a \<Rightarrow> 'a exec" where
  "exec_times n f = times (unat n) (\<lambda>a. bnd (on_ip charge) (\<lambda>_. f a))"

definition read_name :: "(interp, string) prog" where
  "read_name =
     bnd rd_u32 (\<lambda>t.
       if node_type_of t = Some NT_Name then rd_string
       else if node_type_of t = Some NT_String then rd_string
       else throw (RuntimeError ''Not a valid name''))"

definition read_names :: "(interp, string list) prog" where
  "read_names =
     bnd rd_u32 (\<lambda>t.
       if node_type_of t = Some NT_Name then bnd rd_string (\<lambda>str. ret [str])
       else if node_type_of t = Some NT_String then bnd rd_string (\<lambda>str. ret [str])
       else if node_type_of t = Some NT_Tuple then
         bnd rd_u32 (\<lambda>num_elems.
         bnd (throw_if (num_elems \<noteq> 2) (RuntimeError ''Can only name pairs'')) (\<lambda>_.
         bnd read_name (\<lambda>a. bnd read_name (\<lambda>b. ret [a, b]))))
       else throw (RuntimeError (''Not a valid name ['' @ show_int (sint t) @ '']'')))"

section \<open>Skipping a node\<close>

definition skip_error :: exn where
  "skip_error = RuntimeError ''Failed to skip unknown node type!''"

text \<open>
  One level of \<open>skip_next\<close>, \<open>rec\<close> standing for the nested calls.  The operator of a node is
  read and ignored.
\<close>

definition skip_step :: "(interp, unit) prog \<Rightarrow> (interp, unit) prog" where
  "skip_step rec =
     bnd rd_u32 (\<lambda>t.
       case node_type_of t of
         Some NT_Pass \<Rightarrow> ret ()
       | Some NT_Name \<Rightarrow> bnd rd_string (\<lambda>_. ret ())
       | Some NT_ForLoop \<Rightarrow> bnd read_names (\<lambda>_. bnd rec (\<lambda>_. rec))
       | Some NT_WhileLoop \<Rightarrow> bnd rec (\<lambda>_. rec)
       | Some NT_Assign \<Rightarrow> bnd rec (\<lambda>_. bnd rd_u32 (\<lambda>n. charged_times n (\<lambda>_. rec) ()))
       | Some NT_StatementList \<Rightarrow> bnd rd_u32 (\<lambda>n. charged_times n (\<lambda>_. rec) ())
       | Some NT_Index \<Rightarrow> rec
       | Some NT_Return \<Rightarrow> rec
       | Some NT_String \<Rightarrow> bnd rd_string (\<lambda>_. ret ())
       | Some NT_Compare \<Rightarrow>
           bnd rec (\<lambda>_. bnd rd_u32 (\<lambda>n. charged_times n (\<lambda>_. bnd rd_u32 (\<lambda>op. rec)) ()))
       | Some NT_Integer \<Rightarrow> bnd rd_u32 (\<lambda>_. ret ())
       | Some NT_Call \<Rightarrow> bnd rec (\<lambda>_. bnd rd_u32 (\<lambda>n. charged_times n (\<lambda>_. rec) ()))
       | Some NT_IfElse \<Rightarrow> bnd rec (\<lambda>_. bnd rec (\<lambda>_. rec))
       | Some NT_List \<Rightarrow> bnd rd_u32 (\<lambda>n. charged_times n (\<lambda>_. rec) ())
       | Some NT_Tuple \<Rightarrow> bnd rd_u32 (\<lambda>n. charged_times n (\<lambda>_. rec) ())
       | Some NT_Dictionary \<Rightarrow> bnd rd_u32 (\<lambda>n. charged_times n (\<lambda>_. bnd rec (\<lambda>_. rec)) ())
       | Some NT_UnaryOp \<Rightarrow> bnd rd_u32 (\<lambda>op. rec)
       | Some NT_BoolOp \<Rightarrow> bnd rd_u32 (\<lambda>op. bnd rd_u32 (\<lambda>n. charged_times n (\<lambda>_. rec) ()))
       | Some NT_AugmentedAssign \<Rightarrow> bnd rd_u32 (\<lambda>op. bnd rec (\<lambda>_. rec))
       | Some NT_BinaryOp \<Rightarrow> bnd rd_u32 (\<lambda>op. bnd rec (\<lambda>_. rec))
       | Some NT_If \<Rightarrow> bnd rec (\<lambda>_. rec)
       | Some NT_Attribute \<Rightarrow> bnd rec (\<lambda>_. rec)
       | Some NT_Subscript \<Rightarrow> bnd rec (\<lambda>_. rec)
       | Some NT_Break \<Rightarrow> ret ()
       | Some NT_Continue \<Rightarrow> ret ()
       | _ \<Rightarrow> throw skip_error)"

primrec skip_fuel :: "nat \<Rightarrow> (interp, unit) prog" where
  "skip_fuel 0 = throw OutOfFuel"
| "skip_fuel (Suc n) = skip_step (skip_fuel n)"

text \<open>Each level reads four bytes, so the bytes ahead are levels enough (\<open>skip_next_fuel\<close> below).\<close>

definition skip_next :: "(interp, unit) prog" where
  "skip_next i = skip_fuel (Suc (length (bytecode (m_data i)) - getp (m_data i))) i"

section \<open>Scopes and interpreters come and go\<close>

text \<open>
  A C++ \<open>Scope\<close> object on the stack, or the root scope of an interpreter, is the last element
  of \<open>scopes\<close> while it lives.  Leaving the block that declares it, normally or by an exception,
  drops it and what was put above it.
\<close>

definition push_scope :: "scope \<Rightarrow> nat exec" where
  "push_scope sc s = (Inr (length (scopes s)), s\<lparr>scopes := scopes s @ [sc]\<rparr>)"

definition push_child :: "nat \<Rightarrow> nat exec" where
  "push_child p = bnd (gets scopes) (\<lambda>ss. bnd (lift_sum (child_scope p (ss ! p))) push_scope)"

definition local_scope :: "nat \<Rightarrow> (nat \<Rightarrow> 'a exec) \<Rightarrow> 'a exec" where
  "local_scope p f s =
     (case bnd (push_child p) f s of (r, s') \<Rightarrow> (r, s'\<lparr>scopes := take (length (scopes s)) (scopes s')\<rparr>))"

text \<open>A block with an interpreter of its own; its outcome is returned, not thrown.\<close>

definition own_interp :: "'a exec \<Rightarrow> (exn + 'a) exec" where
  "own_interp m s =
     (case m s of (r, s') \<Rightarrow> (Inr r, s'\<lparr>scopes := take (length (scopes s)) (scopes s'), ip := ip s\<rparr>))"

text \<open>\<open>try\<close>: the outcome as a value.\<close>

definition catch :: "'a exec \<Rightarrow> (exn + 'a) exec" where
  "catch m s = (case m s of (r, s') \<Rightarrow> (Inr r, s'))"

definition scope_set :: "nat \<Rightarrow> string \<Rightarrow> valueptr \<Rightarrow> unit exec" where
  "scope_set i name v = on_scopes (\<lambda>ss. set_value ss i name v)"

definition scope_get :: "nat \<Rightarrow> string \<Rightarrow> valueptr exec" where
  "scope_get i name = bnd (gets scopes) (\<lambda>ss. on_heap (get_value ss i name))"

text \<open>\<open>Interpreter(data, mem)\<close>: a root scope that holds the empty storage.\<close>

definition new_interpreter :: "u8 list \<Rightarrow> nat exec" where
  "new_interpreter code =
     bnd (push_scope root_scope) (\<lambda>root.
     bnd (on_heap (halloc (PersistVal empty_persist))) (\<lambda>st.
     bnd (modify (\<lambda>s. s\<lparr>ip := \<lparr>m_data = bitstream_of code, m_num_execution_steps = 0,
            m_execution_step_limit = 0, m_loaded_modules = Map.empty, m_store = st,
            m_global_scope = root\<rparr>\<rparr>)) (\<lambda>_.
     bnd (scope_set root ''store'' (Some st)) (\<lambda>_. ret root))))"

section \<open>Modules and members\<close>

definition set_module :: "string \<Rightarrow> addr \<Rightarrow> (interp, unit) prog" where
  "set_module name a = modify (\<lambda>i. i\<lparr>m_loaded_modules := (m_loaded_modules i)(name \<mapsto> a)\<rparr>)"

text \<open>\<open>get_module\<close>, built without \<open>USE_GEO\<close>.\<close>

definition get_module :: "string \<Rightarrow> addr option exec" where
  "get_module name =
     bnd (gets (\<lambda>s. m_loaded_modules (ip s) name)) (\<lambda>found.
       case found of
         Some a \<Rightarrow> ret (Some a)
       | None \<Rightarrow>
           (if name = ''rand'' then
              bnd (on_heap (halloc (ModuleVal RandModule))) (\<lambda>a.
              bnd (on_ip (set_module name a)) (\<lambda>_. ret (Some a)))
            else ret None))"

text \<open>\<open>get_member\<close> of the classes that have members, on the object at an address.\<close>

definition list_get_member :: "addr \<Rightarrow> string \<Rightarrow> valueptr exec" where
  "list_get_member a name =
     (if name = ''append'' then on_heap (hnew (Function (ListAppend a)))
      else throw (LanguageException (''No such member List::'' @ name)))"

definition dict_get_member :: "addr \<Rightarrow> string \<Rightarrow> valueptr exec" where
  "dict_get_member a name =
     (if name = ''items'' then on_heap (hnew (DictItems a))
      else throw (RuntimeError (''Failed to get member Dictionary::'' @ name)))"

definition rand_get_member :: "string \<Rightarrow> valueptr exec" where
  "rand_get_member name =
     (if name = ''randint'' then on_heap (hnew (Function RandInt))
      else throw (RuntimeError (''No such member: '' @ name)))"

definition blockchain_get_member :: "(string, addr) smap \<Rightarrow> string \<Rightarrow> valueptr exec" where
  "blockchain_get_member function_map name =
     (case sm_find function_map name of
        Some f \<Rightarrow> ret (Some f)
      | None \<Rightarrow> throw (RuntimeError (''no such function '' @ CHR 0x27 # name @ CHR 0x27 # '' in blockchain module'')))"

definition get_member :: "addr \<Rightarrow> string \<Rightarrow> valueptr exec" where
  "get_member a name =
     bnd (obj_at a) (\<lambda>x.
       case x of
         ListVal xs \<Rightarrow> list_get_member a name
       | DictVal m \<Rightarrow> dict_get_member a name
       | ModuleVal RandModule \<Rightarrow> rand_get_member name
       | ModuleVal (BlockchainModule r fs) \<Rightarrow> blockchain_get_member fs name
       | _ \<Rightarrow> throw (LanguageException (''No such member: '' @ name)))"

lemmas get_member_defs =
  get_member_def list_get_member_def dict_get_member_def rand_get_member_def blockchain_get_member_def

definition unknown_module :: "string \<Rightarrow> exn" where
  "unknown_module name = RuntimeError (''Unknown module: '' @ name)"

definition load_from_module :: "nat \<Rightarrow> string \<Rightarrow> string \<Rightarrow> string \<Rightarrow> unit exec" where
  "load_from_module i mname name as_name =
     bnd (get_module mname) (\<lambda>module.
       case module of
         None \<Rightarrow> throw (unknown_module mname)
       | Some a \<Rightarrow>
           bnd (get_member a name) (\<lambda>v. scope_set i (if as_name = [] then name else as_name) v))"

definition load_module :: "nat \<Rightarrow> string \<Rightarrow> string \<Rightarrow> unit exec" where
  "load_module i mname as_name =
     bnd (get_module mname) (\<lambda>module.
       case module of
         None \<Rightarrow> throw (unknown_module mname)
       | Some a \<Rightarrow> scope_set i (if as_name = [] then mname else as_name) (Some a))"

text \<open>\<open>set_value\<close>, \<open>set_string\<close> and \<open>set_list\<close> bind names in the global scope.\<close>

definition interp_set_value :: "string \<Rightarrow> valueptr \<Rightarrow> unit exec" where
  "interp_set_value name v = bnd (gets (\<lambda>s. m_global_scope (ip s))) (\<lambda>g. scope_set g name v)"

definition set_string :: "string \<Rightarrow> string \<Rightarrow> unit exec" where
  "set_string name v = bnd (on_heap (create_string v)) (\<lambda>p. interp_set_value name p)"

definition set_list :: "string \<Rightarrow> string list \<Rightarrow> unit exec" where
  "set_list name xs =
     bnd (on_heap create_list) (\<lambda>l.
     bnd (for_each xs (\<lambda>e. bnd (on_heap (create_string e)) (\<lambda>p. on_heap (list_append l p)))) (\<lambda>_.
     interp_set_value name (Some l)))"

end
