(* ===== verification/Builtins.thy ===== *)
theory Builtins
  imports Machine
begin

text \<open>
  The builtin functions (\<^verbatim>\<open>src/interpreter/Builtin.h\<close>), the \<open>Function\<close> closures
  (\<open>list.append\<close> and \<open>rand.randint\<close>), and the member functions of the blockchain module.
\<close>

section \<open>strtol\<close>

definition is_space :: "char \<Rightarrow> bool" where
  "is_space c \<longleftrightarrow> of_char c \<in> {32, 9, 10, 11, 12, 13 :: nat}"

definition digit_of :: "char \<Rightarrow> nat option" where
  "digit_of c = (let n = of_char c in if 48 \<le> n \<and> n \<le> 57 then Some (n - 48) else None)"

fun digits :: "nat \<Rightarrow> string \<Rightarrow> nat" where
  "digits acc [] = acc"
| "digits acc (c # cs) = (case digit_of c of Some d \<Rightarrow> digits (acc * 10 + d) cs | None \<Rightarrow> acc)"

text \<open>\<open>strtol(s, &end, 10)\<close> clamps to the range of \<open>long\<close>.\<close>

definition clamp64 :: "int \<Rightarrow> int" where
  "clamp64 i = (if i < - (2 ^ 63) then - (2 ^ 63) else if 2 ^ 63 - 1 < i then 2 ^ 63 - 1 else i)"

definition strtol :: "string \<Rightarrow> int" where
  "strtol s =
     (case dropWhile is_space s of
        [] \<Rightarrow> 0
      | c # cs \<Rightarrow>
          (if c = CHR ''-'' then clamp64 (- int (digits 0 cs))
           else if c = CHR ''+'' then clamp64 (int (digits 0 cs))
           else clamp64 (int (digits 0 (c # cs)))))"

section \<open>Builtin functions\<close>

definition with_int :: "valueptr \<Rightarrow> (i64 \<Rightarrow> 'a exec) \<Rightarrow> 'a exec" where
  "with_int p f = bnd (with_heap (\<lambda>h. unpack_integer h p)) f"

text \<open>\<open>range\<close>: the bounds go through \<open>int\<close> variables, so they lose their upper halves.\<close>

definition builtin_range :: "valueptr list \<Rightarrow> valueptr exec" where
  "builtin_range args =
     (case args of
        [a] \<Rightarrow>
          with_int a (\<lambda>m. on_heap (hnew (RangeIterator 0 0 (ucast m) 1)))
      | [a, b] \<Rightarrow>
          with_int a (\<lambda>n. with_int b (\<lambda>m. on_heap (hnew (RangeIterator (ucast n) (ucast n) (ucast m) 1))))
      | [a, b, c] \<Rightarrow>
          with_int a (\<lambda>n. with_int b (\<lambda>m. with_int c (\<lambda>k.
            on_heap (hnew (RangeIterator (ucast n) (ucast n) (ucast m) (ucast k))))))
      | _ \<Rightarrow> throw (RuntimeError ''Invalid number of arguments''))"

definition builtin_str :: "valueptr list \<Rightarrow> valueptr exec" where
  "builtin_str args =
     bnd (check_num_args args 1) (\<lambda>_.
       case hd args of
         None \<Rightarrow> on_heap (create_string ''None'')
       | Some a \<Rightarrow> bnd (with_heap (\<lambda>h. obj_str h (h ! a))) (\<lambda>s. on_heap (create_string s)))"

text \<open>\<open>min\<close> and \<open>max\<close>: the result goes through an \<open>int\<close>.\<close>

definition builtin_minmax :: "bool \<Rightarrow> valueptr list \<Rightarrow> valueptr exec" where
  "builtin_minmax is_max args =
     bnd (check_num_args args 2) (\<lambda>_.
     bnd (with_heap (\<lambda>h. check_is_integer h (args ! 0))) (\<lambda>i1.
     bnd (with_heap (\<lambda>h. check_is_integer h (args ! 1))) (\<lambda>i2.
     let pick = (if is_max then (if sint i1 < sint i2 then i2 else i1)
                 else (if sint i2 < sint i1 then i2 else i1))
     in on_heap (create_integer pick))))"

definition builtin_int :: "valueptr list \<Rightarrow> valueptr exec" where
  "builtin_int args =
     bnd (check_num_args args 1) (\<lambda>_.
     bnd (gets (\<lambda>s. deref (heap s) (hd args))) (\<lambda>x.
       case x of
         Some (IntVal i) \<Rightarrow> ret (hd args)
       | Some (StringVal s) \<Rightarrow> on_heap (hnew (IntVal (of_int (strtol (takeWhile (\<lambda>c. c \<noteq> char_of (0 :: nat)) s)))))
       | _ \<Rightarrow> throw (RuntimeError ''Can not convert to integer'')))"

definition builtin_len :: "valueptr list \<Rightarrow> valueptr exec" where
  "builtin_len args =
     bnd (check_num_args args 1) (\<lambda>_.
     bnd (assert_ptr (hd args)) (\<lambda>a.
     bnd (with_heap (\<lambda>h. obj_size (h ! a))) (\<lambda>n. on_heap (hnew (IntVal (ucast n))))))"

definition print_program_output :: "string \<Rightarrow> unit exec" where
  "print_program_output str = modify (\<lambda>s. s\<lparr>program_output := program_output s @ str\<rparr>)"

definition print_arg :: "string \<Rightarrow> valueptr \<Rightarrow> unit exec" where
  "print_arg prefix arg =
     bnd (gets (\<lambda>s. deref (heap s) arg)) (\<lambda>x.
       case x of
         Some (StringVal s) \<Rightarrow> print_program_output (prefix @ s)
       | None \<Rightarrow> bnd (on_heap (create_string ''None'')) (\<lambda>_. print_program_output (prefix @ ''None''))
       | Some y \<Rightarrow>
           bnd (with_heap (\<lambda>h. obj_str h y)) (\<lambda>s.
           bnd (on_heap (create_string s)) (\<lambda>_. print_program_output (prefix @ s))))"

fun print_args :: "string \<Rightarrow> valueptr list \<Rightarrow> unit exec" where
  "print_args prefix [] = print_program_output [char_of (10 :: nat)]"
| "print_args prefix (p # ps) = bnd (print_arg prefix p) (\<lambda>_. print_args '' '' ps)"

definition builtin_print :: "valueptr list \<Rightarrow> valueptr exec" where
  "builtin_print args =
     bnd (check_num_minargs args 1) (\<lambda>_. bnd (print_args [] args) (\<lambda>_. ret None))"

definition builtin_call :: "builtin_type \<Rightarrow> valueptr list \<Rightarrow> valueptr exec" where
  "builtin_call b args =
     bnd (throw_if (None \<in> set args) halted) (\<lambda>_.
       case b of
         BT_Range \<Rightarrow> builtin_range args
       | BT_MakeString \<Rightarrow> builtin_str args
       | BT_Min \<Rightarrow> builtin_minmax False args
       | BT_Max \<Rightarrow> builtin_minmax True args
       | BT_MakeInt \<Rightarrow> builtin_int args
       | BT_Length \<Rightarrow> builtin_len args
       | BT_Print \<Rightarrow> builtin_print args)"

section \<open>Closures\<close>

definition next_rand :: "u32 exec" where
  "next_rand s = (Inr (rand_stream s (rand_pos s)), s\<lparr>rand_pos := Suc (rand_pos s)\<rparr>)"

text \<open>\<open>value_cast\<close> of an argument to \<open>IntVal\<close>.\<close>

definition cast_int :: "valueptr \<Rightarrow> i64 exec" where
  "cast_int p =
     with_heap (\<lambda>h. case Option.bind (deref h p) as_int of Some i \<Rightarrow> Inr i | None \<Rightarrow> Inl bad_cast)"

text \<open>\<open>start + rand() % (end - start)\<close>, in 64-bit arithmetic; \<open>rand\<close> is not negative.\<close>

definition randint :: "valueptr list \<Rightarrow> valueptr exec" where
  "randint args =
     bnd (throw_if (length args \<noteq> 2) (RuntimeError ''Invalid number of arguments'')) (\<lambda>_.
     bnd (cast_int (args ! 0)) (\<lambda>start.
     bnd (cast_int (args ! 1)) (\<lambda>end.
     bnd (throw_if (sint end \<le> sint start) (RuntimeError ''Not a valid range'')) (\<lambda>_.
     bnd next_rand (\<lambda>r.
     on_heap (hnew (IntVal (start + of_int (cmod (uint r) (sint (end - start)))))))))))"

definition function_call :: "closure \<Rightarrow> valueptr list \<Rightarrow> valueptr exec" where
  "function_call f args =
     (case f of
        ListAppend a \<Rightarrow>
          bnd (throw_if (length args \<noteq> 1) (RuntimeError ''Invalid number of arguments'')) (\<lambda>_.
          bnd (on_heap (list_append a (hd args))) (\<lambda>_. ret None))
      | RandInt \<Rightarrow> randint args)"

section \<open>The blockchain module\<close>

definition arg_missing :: "string \<Rightarrow> exn" where
  "arg_missing name = RuntimeError (name @ '' argument not present'')"

definition pointer_clash :: exn where
  "pointer_clash = RuntimeError ''pointer clash''"

text \<open>The \<open>address\<close> argument as a string, without the checks on its contents.\<close>

definition address_arg :: "nat \<Rightarrow> string exec" where
  "address_arg sc =
     bnd (gets scopes) (\<lambda>ss.
     bnd (throw_if (\<not> has_value ss sc ''address'') (arg_missing ''address'')) (\<lambda>_.
     bnd (scope_get sc ''address'') (\<lambda>p.
       case p of
         None \<Rightarrow> throw pointer_clash
       | Some a \<Rightarrow> with_heap (\<lambda>h. obj_str h (h ! a)))))"

definition invalid_address :: exn where
  "invalid_address = RuntimeError ''assert failed: argument is not a valid address''"

text \<open>\<open>a.c_str()\<close> is handed to the address check: the string up to its first null byte.\<close>

definition check_address :: "string \<Rightarrow> unit exec" where
  "check_address a =
     bnd (throw_if (a = []) (RuntimeError ''address cannot be of length zero'')) (\<lambda>_.
     bnd (gets (\<lambda>s. addr_check s (takeWhile (\<lambda>c. c \<noteq> char_of (0 :: nat)) a))) (\<lambda>ok.
     throw_if (\<not> ok) invalid_address))"

definition bc_assert_address :: "nat \<Rightarrow> valueptr exec" where
  "bc_assert_address sc =
     bnd (address_arg sc) (\<lambda>a. bnd (check_address a) (\<lambda>_. on_heap (hnew (BoolVal True))))"

definition bc_send :: "nat \<Rightarrow> valueptr exec" where
  "bc_send sc =
     bnd (address_arg sc) (\<lambda>a.
     bnd (check_address a) (\<lambda>_.
     bnd (gets scopes) (\<lambda>ss.
     bnd (throw_if (\<not> has_value ss sc ''value'') (arg_missing ''value'')) (\<lambda>_.
     bnd (scope_get sc ''value'') (\<lambda>v.
     with_int v (\<lambda>value.
     bnd (on_chain (send_value a value)) (\<lambda>_. on_heap (hnew (BoolVal True)))))))))"

text \<open>\<open>suicide\<close> looks at neither the length nor the validity of the address.\<close>

definition bc_suicide :: "nat \<Rightarrow> valueptr exec" where
  "bc_suicide sc = bnd (address_arg sc) (\<lambda>a. bnd (on_chain (suicide_to a)) (\<lambda>_. ret None))"

definition on_module :: "addr \<Rightarrow> (rc4, 'a) prog \<Rightarrow> 'a exec" where
  "on_module this m =
     bnd (obj_at this) (\<lambda>x.
       case x of
         ModuleVal (BlockchainModule r fs) \<Rightarrow>
           (case m r of (res, r') \<Rightarrow>
              bnd (on_heap (hset this (ModuleVal (BlockchainModule r' fs)))) (\<lambda>_. lift_sum res))
       | _ \<Rightarrow> throw bad_cast)"

definition bc_random :: "addr \<Rightarrow> valueptr exec" where
  "bc_random this =
     bnd (gets chain_state) (\<lambda>env.
     bnd (on_module this (draw_random env)) (\<lambda>u. on_heap (hnew (IntVal (ucast u)))))"

definition bc_string :: "(chain_env \<Rightarrow> string) \<Rightarrow> valueptr exec" where
  "bc_string f = bnd (gets (\<lambda>s. f (chain_state s))) (\<lambda>v. on_heap (hnew (StringVal v)))"

definition bc_int :: "(chain_env \<Rightarrow> i64) \<Rightarrow> valueptr exec" where
  "bc_int f = bnd (gets (\<lambda>s. f (chain_state s))) (\<lambda>v. on_heap (hnew (IntVal v)))"

definition bc_call :: "bc_function \<Rightarrow> addr \<Rightarrow> nat \<Rightarrow> valueptr exec" where
  "bc_call f this sc =
     (case f of
        BC_get_txid \<Rightarrow> bc_string txid
      | BC_get_current_height \<Rightarrow> bc_int (\<lambda>e. ucast (current_height e))
      | BC_get_current_block \<Rightarrow> bc_string current_block
      | BC_get_previous_block \<Rightarrow> bc_string previous_block
      | BC_get_current_time \<Rightarrow> bc_int (\<lambda>e. ucast (current_time e))
      | BC_get_previous_time \<Rightarrow> bc_int (\<lambda>e. ucast (previous_time e))
      | BC_get_sender \<Rightarrow> bc_string sender
      | BC_get_contractaddress \<Rightarrow> bc_string contract_address
      | BC_get_value \<Rightarrow> bc_int call_value
      | BC_get_contract_balance \<Rightarrow> bc_int contract_balance
      | BC_get_random \<Rightarrow> bc_random this
      | BC_assert_address \<Rightarrow> bc_assert_address sc
      | BC_send \<Rightarrow> bc_send sc
      | BC_revert \<Rightarrow> throw RevertException
      | BC_suicide \<Rightarrow> bc_suicide sc)"

text \<open>The constructor: the generator's initial state and the names of the functions.\<close>

definition bc_functions :: "(string \<times> string list \<times> bc_function) list" where
  "bc_functions =
     [(''txid'', [], BC_get_txid),
      (''current_height'', [], BC_get_current_height),
      (''current_block'', [], BC_get_current_block),
      (''previous_block'', [], BC_get_previous_block),
      (''current_time'', [], BC_get_current_time),
      (''previous_time'', [], BC_get_previous_time),
      (''sender'', [], BC_get_sender),
      (''contract_address'', [], BC_get_contractaddress),
      (''value'', [], BC_get_value),
      (''contract_balance'', [], BC_get_contract_balance),
      (''random'', [], BC_get_random),
      (''assert_address'', [''address''], BC_assert_address),
      (''send'', [''address'', ''value''], BC_send),
      (''revert'', [], BC_revert),
      (''suicide'', [''address''], BC_suicide)]"

definition add_function :: "addr \<Rightarrow> string \<times> string list \<times> bc_function \<Rightarrow> unit exec" where
  "add_function this e =
     (case e of (name, params, f) \<Rightarrow>
       bnd (on_heap (halloc (CallableCFunction params f this))) (\<lambda>c.
       bnd (obj_at this) (\<lambda>x.
         case x of
           ModuleVal (BlockchainModule r fs) \<Rightarrow>
             on_heap (hset this (ModuleVal (BlockchainModule r (sm_put name c fs))))
         | _ \<Rightarrow> throw bad_cast)))"

definition register_blockchain_module :: "unit exec" where
  "register_blockchain_module =
     bnd (on_heap (halloc (ModuleVal (BlockchainModule prng_init [])))) (\<lambda>this.
     bnd (for_each bc_functions (add_function this)) (\<lambda>_.
     on_ip (set_module ''blockchain'' this)))"

end
