(* ===== verification/Meter.thy ===== *)
theory Meter
  imports Prelude
begin

text \<open>
  A meter for fuelled programs.  The interpreter and \<open>skip_next\<close> are recursions on fuel, and in
  both the code itself bounds the recursion by a quantity that goes down: the gas left, the
  bytes left.  The locale \<open>meter\<close> is the interface: a measure of the state, the states it is
  meant for, the states an exception may leave, and the operation that makes the measure go
  down.  Its lemmas say which programs never run out of fuel, one rule per construct of the
  program language.
\<close>

definition fuelless :: "('s, 'a) prog \<Rightarrow> bool" where
  "fuelless m \<longleftrightarrow> (\<forall>s. fst (m s) \<noteq> Inl OutOfFuel)"

named_theorems fuelless_intros

lemma fuelless_ret [fuelless_intros]: "fuelless (ret x)"
  by (simp add: fuelless_def ret_def)

lemma fuelless_throw [fuelless_intros]: "e \<noteq> OutOfFuel \<Longrightarrow> fuelless (throw e)"
  by (simp add: fuelless_def throw_def)

lemma fuelless_throw_if [fuelless_intros]: "e \<noteq> OutOfFuel \<Longrightarrow> fuelless (throw_if b e)"
  by (cases b) (simp_all add: fuelless_ret fuelless_throw)

lemma fuelless_gets [fuelless_intros]: "fuelless (gets f)"
  by (simp add: fuelless_def gets_def)

lemma fuelless_modify [fuelless_intros]: "fuelless (modify f)"
  by (simp add: fuelless_def modify_def)

lemma fuelless_lift_sum [fuelless_intros]: "r \<noteq> Inl OutOfFuel \<Longrightarrow> fuelless (lift_sum r)"
  by (simp add: fuelless_def lift_sum_def)

lemma fuelless_bnd [fuelless_intros]: "fuelless m \<Longrightarrow> (\<And>x. fuelless (f x)) \<Longrightarrow> fuelless (bnd m f)"
  by (auto simp: fuelless_def bnd_def split: prod.split sum.split) (metis fst_conv)+

lemma fuelless_for_each [fuelless_intros]: "(\<And>x. fuelless (f x)) \<Longrightarrow> fuelless (for_each xs f)"
  by (induction xs) (auto intro: fuelless_intros)

text \<open>
  \<open>within mu ok err n m\<close>: from a good state that measures less than \<open>n\<close>, the program does not
  run out of fuel; if it returns, the state is good and measures no more, and if it throws, the
  state is one that an exception may leave.
\<close>

definition within :: "('s \<Rightarrow> nat) \<Rightarrow> ('s \<Rightarrow> bool) \<Rightarrow> ('s \<Rightarrow> bool) \<Rightarrow> nat \<Rightarrow> ('s, 'a) prog \<Rightarrow> bool" where
  "within mu ok err n m \<longleftrightarrow>
     (\<forall>s. ok s \<longrightarrow> mu s < n \<longrightarrow>
        (case m s of (Inr x, s') \<Rightarrow> ok s' \<and> mu s' \<le> mu s | (Inl e, s') \<Rightarrow> e \<noteq> OutOfFuel \<and> err s'))"

lemma withinI:
  assumes "\<And>s x s'. ok s \<Longrightarrow> mu s < n \<Longrightarrow> m s = (Inr x, s') \<Longrightarrow> ok s' \<and> mu s' \<le> mu s"
    and "\<And>s e s'. ok s \<Longrightarrow> mu s < n \<Longrightarrow> m s = (Inl e, s') \<Longrightarrow> e \<noteq> OutOfFuel \<and> err s'"
  shows "within mu ok err n m"
  using assms by (fastforce simp: within_def split: prod.split sum.split)

lemma within_Inr:
  "within mu ok err n m \<Longrightarrow> ok s \<Longrightarrow> mu s < n \<Longrightarrow> m s = (Inr x, s') \<Longrightarrow> ok s' \<and> mu s' \<le> mu s"
  by (fastforce simp: within_def)

lemma within_Inl:
  "within mu ok err n m \<Longrightarrow> ok s \<Longrightarrow> mu s < n \<Longrightarrow> m s = (Inl e, s') \<Longrightarrow> e \<noteq> OutOfFuel \<and> err s'"
  by (fastforce simp: within_def)

lemma within_mono: "within mu ok err n m \<Longrightarrow> k \<le> n \<Longrightarrow> within mu ok err k m"
  by (simp add: within_def)

lemma within_0: "within mu ok err 0 m"
  by (simp add: within_def)

named_theorems within_intros

locale meter =
  fixes mu :: "'s \<Rightarrow> nat"
    and ok :: "'s \<Rightarrow> bool"
    and err :: "'s \<Rightarrow> bool"
    and tick :: "('s, 't) prog"
  assumes ok_err: "ok s \<Longrightarrow> err s"
    and tick_Inr: "ok s \<Longrightarrow> tick s = (Inr t, s') \<Longrightarrow> ok s' \<and> mu s' < mu s"
    and tick_Inl: "ok s \<Longrightarrow> tick s = (Inl e, s') \<Longrightarrow> e \<noteq> OutOfFuel \<and> err s'"
begin

abbreviation fine :: "nat \<Rightarrow> ('s, 'a) prog \<Rightarrow> bool" where
  "fine n m \<equiv> within mu ok err n m"

lemma fine_pure: "(\<And>s. snd (m s) = s) \<Longrightarrow> fuelless m \<Longrightarrow> fine n m"
  using ok_err by (intro withinI) (metis snd_conv order_refl, metis fst_conv snd_conv fuelless_def)

lemma fine_ret: "fine n (ret x)"
  by (rule fine_pure) (simp_all add: ret_def fuelless_ret)

lemma fine_throw: "e \<noteq> OutOfFuel \<Longrightarrow> fine n (throw e)"
  by (rule fine_pure) (simp_all add: throw_def fuelless_throw)

lemma fine_throw_if: "e \<noteq> OutOfFuel \<Longrightarrow> fine n (throw_if b e)"
  by (cases b) (simp_all add: fine_ret fine_throw)

lemma fine_gets: "fine n (gets f)"
  by (rule fine_pure) (simp_all add: gets_def fuelless_gets)

lemma fine_lift_sum: "r \<noteq> Inl OutOfFuel \<Longrightarrow> fine n (lift_sum r)"
  by (rule fine_pure) (simp_all add: lift_sum_def fuelless_lift_sum)

lemma fine_bnd:
  assumes "fine n m" and "\<And>x. fine n (f x)"
  shows "fine n (bnd m f)"
proof (rule withinI)
  fix s x s' assume s: "ok s" "mu s < n" and run: "bnd m f s = (Inr x, s')"
  then obtain y t where t: "m s = (Inr y, t)" "f y t = (Inr x, s')" by (auto simp: bnd_eq_Inr)
  with within_Inr [OF assms(1) s] have "ok t" "mu t \<le> mu s" by auto
  with within_Inr [OF assms(2) _ _ t(2)] s show "ok s' \<and> mu s' \<le> mu s" by fastforce
next
  fix s e s' assume s: "ok s" "mu s < n" and run: "bnd m f s = (Inl e, s')"
  then consider "m s = (Inl e, s')" | y t where "m s = (Inr y, t)" "f y t = (Inl e, s')"
    by (auto simp: bnd_eq_Inl)
  then show "e \<noteq> OutOfFuel \<and> err s'"
  proof cases
    case (2 y t)
    with within_Inr [OF assms(1) s] have "ok t" "mu t \<le> mu s" by auto
    with within_Inl [OF assms(2) _ _ 2(2)] s show ?thesis by fastforce
  qed (use within_Inl [OF assms(1) s] in blast)
qed

lemma fine_times: "(\<And>a. fine n (f a)) \<Longrightarrow> fine n (times k f a)"
  by (induction k arbitrary: a) (auto intro: fine_bnd fine_ret)

lemma fine_for_each: "(\<And>x. fine n (f x)) \<Longrightarrow> fine n (for_each xs f)"
  by (induction xs) (auto intro: fine_bnd fine_ret)

lemma fine_tick: "fine n tick"
  using tick_Inr tick_Inl by (intro withinI) (auto intro: less_imp_le)

text \<open>After a tick one unit of fuel less is enough.\<close>

lemma fine_after_tick:
  assumes "\<And>x. fine n (f x)"
  shows "fine (Suc n) (bnd tick f)"
proof (rule withinI)
  fix s x s' assume s: "ok s" "mu s < Suc n" and run: "bnd tick f s = (Inr x, s')"
  then obtain y t where t: "tick s = (Inr y, t)" "f y t = (Inr x, s')" by (auto simp: bnd_eq_Inr)
  with tick_Inr [OF s(1)] have "ok t" "mu t < mu s" by auto
  with within_Inr [OF assms _ _ t(2)] s show "ok s' \<and> mu s' \<le> mu s" by fastforce
next
  fix s e s' assume s: "ok s" "mu s < Suc n" and run: "bnd tick f s = (Inl e, s')"
  then consider "tick s = (Inl e, s')" | y t where "tick s = (Inr y, t)" "f y t = (Inl e, s')"
    by (auto simp: bnd_eq_Inl)
  then show "e \<noteq> OutOfFuel \<and> err s'"
  proof cases
    case (2 y t)
    with tick_Inr [OF s(1)] have "ok t" "mu t < mu s" by auto
    with within_Inl [OF assms _ _ 2(2)] s show ?thesis by fastforce
  qed (use tick_Inl [OF s(1)] in blast)
qed

text \<open>A step that goes on only after a tick, for loops on fuel.\<close>

definition ticking :: "nat \<Rightarrow> ('s, 'a + 'b) prog \<Rightarrow> bool" where
  "ticking n m \<longleftrightarrow> fine n m \<and>
     (\<forall>s a s'. ok s \<longrightarrow> mu s < n \<longrightarrow> m s = (Inr (Inl a), s') \<longrightarrow> mu s' < mu s)"

lemma ticking_tick:
  assumes "\<And>x. fine n (f x)"
  shows "ticking n (bnd tick f)"
proof -
  have "mu s' < mu s" if s: "ok s" "mu s < n" and run: "bnd tick f s = (Inr (Inl a), s')" for s a s'
  proof -
    obtain y t where t: "tick s = (Inr y, t)" "f y t = (Inr (Inl a), s')"
      using run by (auto simp: bnd_eq_Inr)
    with tick_Inr [OF s(1)] have "ok t" "mu t < mu s" by auto
    with within_Inr [OF assms _ _ t(2)] s show ?thesis by fastforce
  qed
  then show ?thesis using assms by (auto simp: ticking_def intro: fine_bnd fine_tick)
qed

lemma ticking_stop: "ticking n (ret (Inr b))"
  by (simp add: ticking_def fine_ret) (simp add: ret_def)

lemma ticking_gets: "(\<And>x. ticking n (f x)) \<Longrightarrow> ticking n (bnd (gets g) f)"
  by (auto simp: ticking_def intro: fine_bnd fine_gets) (auto simp: bnd_def gets_def)

lemma fine_loop_upto:
  assumes "\<And>a. ticking n (f a)" and "k \<le> n"
  shows "fine k (loop_fuel k f a)"
  using assms(2)
proof (induction k arbitrary: a)
  case (Suc k)
  let ?g = "\<lambda>r. case r of Inl a' \<Rightarrow> loop_fuel k f a' | Inr b \<Rightarrow> ret b"
  have f: "fine (Suc k) (f a)" using assms(1) Suc.prems by (auto simp: ticking_def intro: within_mono)
  have rest: "?g r t = (r', s') \<Longrightarrow> ok t \<Longrightarrow> mu t \<le> mu s \<Longrightarrow> (\<And>a'. r = Inl a' \<Longrightarrow> mu t < mu s) \<Longrightarrow>
      mu s < Suc k \<Longrightarrow> (case r' of Inr _ \<Rightarrow> ok s' \<and> mu s' \<le> mu s | Inl e \<Rightarrow> e \<noteq> OutOfFuel \<and> err s')"
    for r t r' s s'
  proof (cases r)
    case (Inl a')
    assume *: "?g r t = (r', s')" "ok t" "\<And>a'. r = Inl a' \<Longrightarrow> mu t < mu s" "mu s < Suc k"
    then have "mu t < k" "mu t \<le> mu s" using Inl by force+
    moreover have "fine k (loop_fuel k f a')" using Suc.IH [of a'] Suc.prems by simp
    ultimately show ?thesis
      using * Inl within_Inr [of mu ok err k "loop_fuel k f a'" t] within_Inl [of mu ok err k "loop_fuel k f a'" t]
      by (cases r') fastforce+
  qed (auto simp: ret_def)
  show ?case
  proof (rule withinI)
    fix s x s' assume s: "ok s" "mu s < Suc k" and run: "loop_fuel (Suc k) f a s = (Inr x, s')"
    then obtain r t where t: "f a s = (Inr r, t)" "?g r t = (Inr x, s')" by (auto simp: bnd_eq_Inr)
    moreover have "r = Inl a' \<Longrightarrow> mu t < mu s" for a'
      using t(1) s assms(1) [of a] Suc.prems by (auto simp: ticking_def)
    ultimately show "ok s' \<and> mu s' \<le> mu s"
      using rest [OF t(2), of s] within_Inr [OF f s] s by auto
  next
    fix s e s' assume s: "ok s" "mu s < Suc k" and run: "loop_fuel (Suc k) f a s = (Inl e, s')"
    then consider "f a s = (Inl e, s')" | r t where "f a s = (Inr r, t)" "?g r t = (Inl e, s')"
      by (auto simp: bnd_eq_Inl)
    then show "e \<noteq> OutOfFuel \<and> err s'"
    proof cases
      case (2 r t)
      moreover have "r = Inl a' \<Longrightarrow> mu t < mu s" for a'
        using 2(1) s assms(1) [of a] Suc.prems by (auto simp: ticking_def)
      ultimately show ?thesis using rest [OF 2(2), of s] within_Inr [OF f s] s by auto
    qed (use within_Inl [OF f s] in blast)
  qed
qed (rule within_0)

lemma fine_loop: "(\<And>a. ticking n (f a)) \<Longrightarrow> fine n (loop_fuel n f a)"
  using fine_loop_upto [of n f n] by simp

end

section \<open>More fuel, same answer\<close>

text \<open>\<open>refines m m'\<close>: where \<open>m\<close> does not run out of fuel, \<open>m'\<close> does the same.\<close>

definition refines :: "('s, 'a) prog \<Rightarrow> ('s, 'a) prog \<Rightarrow> bool" where
  "refines m m' \<longleftrightarrow> (\<forall>s. fst (m s) = Inl OutOfFuel \<or> m s = m' s)"

named_theorems refines_intros

lemma refines_refl [refines_intros]: "refines m m"
  by (simp add: refines_def)

lemma refines_out_of_fuel: "refines (throw OutOfFuel) m"
  by (simp add: refines_def throw_def)

lemma refines_bnd [refines_intros]:
  assumes "refines m m'" and "\<And>x. refines (f x) (f' x)"
  shows "refines (bnd m f) (bnd m' f')"
  unfolding refines_def
proof
  fix s
  show "fst (bnd m f s) = Inl OutOfFuel \<or> bnd m f s = bnd m' f' s"
  proof (cases "fst (m s) = Inl OutOfFuel")
    case True
    then show ?thesis by (cases "m s") (simp add: bnd_def)
  next
    case False
    with assms(1) have "m s = m' s" by (auto simp: refines_def)
    then show ?thesis using assms(2) by (auto simp: bnd_def refines_def split: prod.split sum.split)
  qed
qed

lemma refines_times [refines_intros]:
  "(\<And>a. refines (f a) (f' a)) \<Longrightarrow> refines (times k f a) (times k f' a)"
  by (induction k arbitrary: a) (auto intro: refines_intros)

lemma refines_for_each [refines_intros]:
  "(\<And>x. refines (f x) (f' x)) \<Longrightarrow> refines (for_each xs f) (for_each xs f')"
  by (induction xs) (auto intro: refines_intros)

lemma refines_loop:
  assumes "\<And>a. refines (f a) (f' a)"
  shows "refines (loop_fuel k f a) (loop_fuel (Suc k) f' a)"
proof (induction k arbitrary: a)
  case (Suc k)
  show ?case
    unfolding loop_fuel.simps(2) [of k] loop_fuel.simps(2) [of "Suc k"]
    using Suc assms by (intro refines_bnd) (auto split: sum.split intro: refines_refl)
qed (simp add: refines_out_of_fuel)

lemma refines_if [refines_intros]:
  "(b \<Longrightarrow> refines m m') \<Longrightarrow> (\<not> b \<Longrightarrow> refines k k') \<Longrightarrow> refines (if b then m else k) (if b then m' else k')"
  by simp

lemma refines_result:
  "refines m m' \<Longrightarrow> fst (m s) \<noteq> Inl OutOfFuel \<Longrightarrow> m' s = m s"
  by (auto simp: refines_def)

lemma refines_chain:
  assumes "\<And>n. refines (f n) (f (Suc n))" and "fst (f n s) \<noteq> Inl OutOfFuel" and "n \<le> k"
  shows "f k s = f n s"
  using assms(3)
proof (induction k rule: dec_induct)
  case (step k)
  then show ?case using refines_result [OF assms(1), of k s] assms(2) by simp
qed simp

end
