(* ===== verification/Exec.thy ===== *)
theory Exec
  imports Builtins Meter
begin

text \<open>
  \<open>Interpreter::execute_next\<close> (\<^verbatim>\<open>src/interpreter/Interpreter.cpp\<close>) and what it calls back:
  contract functions (\<^verbatim>\<open>include/cowlang/CallableVMFunction.h\<close>), module functions
  (\<^verbatim>\<open>include/cowlang/CallableCFunction.h\<close>), function definitions and \<open>calldata\<close>.

  There is one definition per case of the \<open>switch\<close>.  Each takes \<open>rec\<close>, which stands for the
  recursive call of \<open>execute_next\<close>; the recursion is tied by \<open>exec\<close>, whose fuel bounds the
  depth of the C++ recursion and the iterations of each loop.  The loop state the code passes
  by reference is an argument and part of the result.  The variable \<open>dummy_loop_state\<close> of the
  code is \<open>LS_None\<close> whenever it is passed (lemma \<open>exec_keeps_None\<close> of theory \<open>Gas\<close>), so
  \<open>eval\<close> passes that and drops what comes back.
\<close>

type_synonym recursion = "nat \<Rightarrow> loop_state \<Rightarrow> (valueptr \<times> loop_state) exec"

definition eval :: "recursion \<Rightarrow> nat \<Rightarrow> valueptr exec" where
  "eval rec sc = bnd (rec sc LS_None) (\<lambda>r. ret (fst r))"

definition eval_ptr :: "recursion \<Rightarrow> nat \<Rightarrow> addr exec" where
  "eval_ptr rec sc = bnd (eval rec sc) assert_ptr"

definition truthy :: "valueptr \<Rightarrow> bool exec" where
  "truthy p = gets (\<lambda>s. case deref (heap s) p of None \<Rightarrow> False | Some x \<Rightarrow> bool_test x)"

definition terminated :: "nat \<Rightarrow> bool exec" where
  "terminated sc = gets (\<lambda>s. is_terminated (scopes s) sc)"

definition do_terminate :: "nat \<Rightarrow> unit exec" where
  "do_terminate sc = on_scopes (\<lambda>ss. terminate ss sc)"

section \<open>Imports\<close>

definition load_alias :: "nat \<Rightarrow> string \<Rightarrow> valueptr \<Rightarrow> unit exec" where
  "load_alias sc module p =
     bnd (gets (\<lambda>s. deref (heap s) p)) (\<lambda>x.
       case x of Some (AliasVal name as_name) \<Rightarrow> load_from_module sc module name as_name | _ \<Rightarrow> throw bad_cast)"

definition node_import_from :: "recursion \<Rightarrow> nat \<Rightarrow> valueptr exec" where
  "node_import_from rec sc =
     bnd (on_ip read_name) (\<lambda>module.
     bnd (rec sc LS_IgnoreAll) (\<lambda>r.
     bnd (assert_ptr (fst r)) (\<lambda>a.
     bnd (obj_at a) (\<lambda>x.
     bnd (case x of
            TupleVal xs \<Rightarrow> for_each xs (load_alias sc module)
          | _ \<Rightarrow> load_alias sc module (Some a)) (\<lambda>_. ret None)))))"

definition node_import :: "recursion \<Rightarrow> nat \<Rightarrow> valueptr exec" where
  "node_import rec sc =
     bnd (rec sc LS_IgnoreAll) (\<lambda>r.
     bnd (assert_ptr (fst r)) (\<lambda>a.
     bnd (obj_at a) (\<lambda>x.
     bnd (case x of AliasVal name as_name \<Rightarrow> load_module sc name as_name | _ \<Rightarrow> throw bad_cast) (\<lambda>_.
     ret None))))"

definition node_alias :: "valueptr exec" where
  "node_alias =
     bnd (on_ip rd_string) (\<lambda>name.
     bnd (on_ip rd_string) (\<lambda>as_name. on_heap (hnew (AliasVal name as_name))))"

section \<open>Atoms and containers\<close>

definition node_name :: "nat \<Rightarrow> valueptr exec" where
  "node_name sc =
     bnd (on_ip rd_string) (\<lambda>str.
       if str = ''False'' then on_heap (create_boolean False)
       else if str = ''True'' then on_heap (create_boolean True)
       else scope_get sc str)"

definition node_string :: "valueptr exec" where
  "node_string = bnd (on_ip rd_string) (\<lambda>str. on_heap (create_string str))"

definition node_integer :: "valueptr exec" where
  "node_integer = bnd (on_ip (on_data get_i32)) (\<lambda>v. on_heap (create_integer (scast v)))"

definition node_tuple :: "recursion \<Rightarrow> nat \<Rightarrow> valueptr exec" where
  "node_tuple rec sc =
     bnd (on_ip rd_u32) (\<lambda>n.
     bnd (on_heap create_tuple) (\<lambda>t.
     bnd (exec_times n (\<lambda>_. bnd (eval_ptr rec sc) (\<lambda>a. on_heap (tuple_append t (Some a)))) ()) (\<lambda>_.
     ret (Some t))))"

definition node_list :: "recursion \<Rightarrow> nat \<Rightarrow> valueptr exec" where
  "node_list rec sc =
     bnd (on_heap create_list) (\<lambda>l.
     bnd (on_ip rd_u32) (\<lambda>n.
     bnd (exec_times n (\<lambda>_. bnd (eval_ptr rec sc) (\<lambda>a. on_heap (list_append l (Some a)))) ()) (\<lambda>_.
     ret (Some l))))"

definition node_dictionary :: "recursion \<Rightarrow> nat \<Rightarrow> valueptr exec" where
  "node_dictionary rec sc =
     bnd (on_heap create_dictionary) (\<lambda>d.
     bnd (on_ip rd_u32) (\<lambda>n.
     bnd (exec_times n (\<lambda>_.
            bnd (on_ip read_name) (\<lambda>name.
            bnd (eval_ptr rec sc) (\<lambda>a. on_heap (dict_insert d name (Some a))))) ()) (\<lambda>_.
     ret (Some d))))"

definition node_attribute :: "recursion \<Rightarrow> nat \<Rightarrow> valueptr exec" where
  "node_attribute rec sc =
     bnd (eval_ptr rec sc) (\<lambda>a. bnd (on_ip read_name) (\<lambda>name. get_member a name))"

definition node_subscript :: "recursion \<Rightarrow> nat \<Rightarrow> valueptr exec" where
  "node_subscript rec sc =
     bnd (eval rec sc) (\<lambda>slice.
     bnd (eval rec sc) (\<lambda>val.
     bnd (assert_ptr slice) (\<lambda>sa.
     bnd (assert_ptr val) (\<lambda>va.
     bnd (obj_at sa) (\<lambda>i.
     bnd (obj_at va) (\<lambda>x.
       case (x, i) of
         (DictVal m, StringVal k) \<Rightarrow> ret (dict_get m k)
       | (PersistVal p, StringVal k) \<Rightarrow> on_heap (ps_get p k)
       | (ListVal xs, IntVal n) \<Rightarrow> lift_sum (list_get xs n)
       | (TupleVal xs, IntVal n) \<Rightarrow> lift_sum (tuple_get xs (ucast n))
       | _ \<Rightarrow> throw (RuntimeError ''Invalid subscript'')))))))"

section \<open>Assignments\<close>

definition undefined_container :: "string \<Rightarrow> exn" where
  "undefined_container name =
     RuntimeError (''Array or dictionary '' @ CHR 0x27 # name @ CHR 0x27 # '' has not been defined.'')"

definition not_a_container :: "string \<Rightarrow> exn" where
  "not_a_container name =
     RuntimeError (''Variable '' @ CHR 0x27 # name @ CHR 0x27 # '' is not an array or dictionary.'')"

definition bad_dict_index :: exn where
  "bad_dict_index = RuntimeError (''Dictionary indices must be of type '' @ CHR 0x27 # ''String'' @ [CHR 0x27])"

definition bad_array_index :: exn where
  "bad_array_index = RuntimeError (''Array indices must be of type '' @ CHR 0x27 # ''Integer'' @ [CHR 0x27])"

text \<open>\<open>insert\<close> of a dictionary or of the storage, and \<open>List::set\<close>, on the object at an address.\<close>

definition store_at :: "addr \<Rightarrow> string \<Rightarrow> addr \<Rightarrow> unit exec" where
  "store_at o_addr key val =
     bnd (obj_at o_addr) (\<lambda>x.
     bnd (obj_at val) (\<lambda>v.
       case x of
         PersistVal p \<Rightarrow>
           bnd (lift_sum (ps_insert key v p)) (\<lambda>p'. on_heap (hset o_addr (PersistVal p')))
       | _ \<Rightarrow> on_heap (dict_insert o_addr key (Some val))))"

definition set_at :: "addr \<Rightarrow> i64 \<Rightarrow> addr \<Rightarrow> unit exec" where
  "set_at o_addr i val =
     bnd (obj_at o_addr) (\<lambda>x.
       case x of
         ListVal xs \<Rightarrow> bnd (lift_sum (list_set xs i (Some val))) (\<lambda>xs'. on_heap (hset o_addr (ListVal xs')))
       | _ \<Rightarrow> throw bad_cast)"

definition assign_subscript :: "recursion \<Rightarrow> nat \<Rightarrow> addr \<Rightarrow> unit exec" where
  "assign_subscript rec sc val =
     bnd (on_ip rd_u32) (\<lambda>_.
     bnd (eval_ptr rec sc) (\<lambda>ia.
     bnd (on_ip read_name) (\<lambda>sscr.
     bnd (scope_get sc sscr) (\<lambda>p.
       case p of
         None \<Rightarrow> throw (undefined_container sscr)
       | Some oa \<Rightarrow>
           bnd (obj_at oa) (\<lambda>x.
           bnd (obj_at ia) (\<lambda>i.
             if obj_type x = VT_Dictionary \<or> obj_type x = VT_PersistableDictionary then
               (case i of StringVal k \<Rightarrow> store_at oa k val | _ \<Rightarrow> throw bad_dict_index)
             else if obj_type x = VT_List then
               (case i of IntVal n \<Rightarrow> set_at oa n val | _ \<Rightarrow> throw bad_array_index)
             else throw (not_a_container sscr)))))))"

text \<open>The three-name branch cannot be taken: \<open>read_names\<close> returns one or two names.\<close>

definition assign_names :: "nat \<Rightarrow> addr \<Rightarrow> unit exec" where
  "assign_names sc val =
     bnd (on_ip read_names) (\<lambda>names.
       case names of
         [n] \<Rightarrow> scope_set sc n (Some val)
       | [n0, n1] \<Rightarrow>
           bnd (obj_at val) (\<lambda>x.
             case x of
               TupleVal xs \<Rightarrow>
                 bnd (lift_sum (tuple_get xs 0)) (\<lambda>v0.
                 bnd (scope_set sc n0 v0) (\<lambda>_.
                 bnd (lift_sum (tuple_get xs 1)) (\<lambda>v1. scope_set sc n1 v1)))
             | _ \<Rightarrow> throw (RuntimeError ''cannot unpack value: not a tuple''))
       | [n0, subscript, dict] \<Rightarrow>
           bnd (scope_get sc dict) (\<lambda>p.
           bnd (assert_ptr p) (\<lambda>oa.
           bnd (obj_at oa) (\<lambda>x.
             if obj_type x = VT_Dictionary \<or> obj_type x = VT_PersistableDictionary then store_at oa subscript val
             else if obj_type x = VT_List then ret ()
             else throw (RuntimeError ''subscript assigning only supported by array and dict''))))
       | _ \<Rightarrow> throw (RuntimeError ''invalid number of names''))"

definition node_assign :: "recursion \<Rightarrow> nat \<Rightarrow> valueptr exec" where
  "node_assign rec sc =
     bnd (eval_ptr rec sc) (\<lambda>val.
     bnd (on_ip rd_u32) (\<lambda>num_targets.
     bnd (exec_times num_targets (\<lambda>_.
            bnd (on_ip (on_data peek_u32)) (\<lambda>look_ahead.
              if node_type_of look_ahead = Some NT_Subscript then assign_subscript rec sc val
              else assign_names sc val)) ()) (\<lambda>_.
     ret None)))"

text \<open>\<open>apply\<close> of a dictionary, of the storage and of a list.\<close>

definition apply_at :: "addr \<Rightarrow> string \<Rightarrow> valueptr \<Rightarrow> binary_op option \<Rightarrow> unit exec" where
  "apply_at oa key val op =
     bnd (obj_at oa) (\<lambda>x.
       case x of
         PersistVal p \<Rightarrow>
           bnd (with_heap (\<lambda>h. ps_apply key (Option.bind (deref h val) as_int) op p)) (\<lambda>p'.
           on_heap (hset oa (PersistVal p')))
       | _ \<Rightarrow> on_heap (dict_apply oa key val op))"

definition augment_subscript :: "recursion \<Rightarrow> nat \<Rightarrow> binary_op option \<Rightarrow> unit exec" where
  "augment_subscript rec sc op =
     bnd (on_ip rd_u32) (\<lambda>_.
     bnd (eval_ptr rec sc) (\<lambda>ia.
     bnd (on_ip read_name) (\<lambda>sscr.
     bnd (scope_get sc sscr) (\<lambda>p.
     bnd (eval rec sc) (\<lambda>val.
       case p of
         None \<Rightarrow> throw (undefined_container sscr)
       | Some oa \<Rightarrow>
           bnd (obj_at oa) (\<lambda>x.
           bnd (obj_at ia) (\<lambda>i.
             if obj_type x = VT_Dictionary \<or> obj_type x = VT_PersistableDictionary then
               (case i of StringVal k \<Rightarrow> apply_at oa k val op | _ \<Rightarrow> throw bad_dict_index)
             else if obj_type x = VT_List then
               (case (i, x) of
                  (IntVal n, ListVal xs) \<Rightarrow> on_heap (list_apply xs n val op)
                | _ \<Rightarrow> throw bad_array_index)
             else throw (not_a_container sscr))))))))"

definition augment_name :: "recursion \<Rightarrow> nat \<Rightarrow> binary_op option \<Rightarrow> unit exec" where
  "augment_name rec sc op =
     bnd (on_ip read_name) (\<lambda>t_name.
     bnd (scope_get sc t_name) (\<lambda>target.
     bnd (eval rec sc) (\<lambda>value.
       if op \<noteq> Some Bin_Add \<and> op \<noteq> Some Bin_Sub \<and> op \<noteq> Some Bin_Mult then throw unknown_binary_op
       else
         bnd (gets (\<lambda>s. (int_at (heap s) target, int_at (heap s) value))) (\<lambda>tv.
           case tv of
             (Some t, Some v) \<Rightarrow> on_heap (apply_int op t (snd v))
           | _ \<Rightarrow> throw not_numeric))))"

definition node_augmented_assign :: "recursion \<Rightarrow> nat \<Rightarrow> valueptr exec" where
  "node_augmented_assign rec sc =
     bnd (on_ip rd_u32) (\<lambda>op_type.
     bnd (on_ip (on_data peek_u32)) (\<lambda>look_ahead.
     bnd (if node_type_of look_ahead = Some NT_Subscript
          then augment_subscript rec sc (binary_op_of op_type)
          else augment_name rec sc (binary_op_of op_type)) (\<lambda>_.
     ret None)))"

definition node_global :: "nat \<Rightarrow> valueptr exec" where
  "node_global sc =
     bnd (on_ip rd_u32) (\<lambda>size.
     bnd (exec_times size (\<lambda>_.
            bnd (on_ip read_name) (\<lambda>name. on_scopes (\<lambda>ss. set_global_tag ss sc name))) ()) (\<lambda>_.
     ret None))"

section \<open>Statement lists and branches\<close>

definition node_statement_list :: "recursion \<Rightarrow> nat \<Rightarrow> loop_state \<Rightarrow> (valueptr \<times> loop_state) exec" where
  "node_statement_list rec sc loop_state =
     bnd (on_ip rd_u32) (\<lambda>size.
     exec_times size (\<lambda>(final, ls).
       bnd (terminated sc) (\<lambda>done.
         if done \<or> ls = LS_Break \<or> ls = LS_Continue then bnd (on_ip skip_next) (\<lambda>_. ret (final, ls))
         else
           bnd (rec sc (if ls = LS_TopLevel then LS_Normal else ls)) (\<lambda>r.
           ret (fst r, if ls \<noteq> LS_None \<and> snd r \<noteq> LS_Normal then snd r else ls))))
       (None, loop_state))"

definition not_a_loop :: exn where
  "not_a_loop = RuntimeError ''Not a loop''"

definition node_continue :: "loop_state \<Rightarrow> (valueptr \<times> loop_state) exec" where
  "node_continue ls = (if ls = LS_None then throw not_a_loop else ret (None, LS_Continue))"

definition node_break :: "loop_state \<Rightarrow> (valueptr \<times> loop_state) exec" where
  "node_break ls = (if ls = LS_None then throw not_a_loop else ret (None, LS_Break))"

definition node_if :: "recursion \<Rightarrow> nat \<Rightarrow> loop_state \<Rightarrow> (valueptr \<times> loop_state) exec" where
  "node_if rec sc ls =
     bnd (rec sc ls) (\<lambda>r.
     bnd (truthy (fst r)) (\<lambda>cond.
       if cond then rec sc (snd r)
       else bnd (on_ip skip_next) (\<lambda>_. ret (None, snd r))))"

definition node_if_else :: "recursion \<Rightarrow> nat \<Rightarrow> loop_state \<Rightarrow> (valueptr \<times> loop_state) exec" where
  "node_if_else rec sc ls =
     bnd (rec sc ls) (\<lambda>r.
     bnd (gets (\<lambda>s. deref (heap s) (fst r))) (\<lambda>test.
       case test of
         Some x \<Rightarrow>
           (case as_bool x of
              None \<Rightarrow> throw (RuntimeError ''not a boolean!'')
            | Some True \<Rightarrow> bnd (rec sc (snd r)) (\<lambda>r'. bnd (on_ip skip_next) (\<lambda>_. ret r'))
            | Some False \<Rightarrow> bnd (on_ip skip_next) (\<lambda>_. rec sc (snd r)))
       | None \<Rightarrow> bnd (on_ip skip_next) (\<lambda>_. rec sc (snd r))))"

definition node_return :: "recursion \<Rightarrow> nat \<Rightarrow> valueptr exec" where
  "node_return rec sc = bnd (eval rec sc) (\<lambda>v. bnd (do_terminate sc) (\<lambda>_. ret v))"

section \<open>Operators\<close>

definition unknown_unary :: exn where
  "unknown_unary = RuntimeError ''Unknown unary operation''"

definition apply_unary :: "unary_op option \<Rightarrow> addr \<Rightarrow> obj \<Rightarrow> (heap, valueptr) prog" where
  "apply_unary op a x =
     (case x of
        BoolVal b \<Rightarrow>
          (case op of Some Un_Not \<Rightarrow> create_boolean (\<not> b) | _ \<Rightarrow> throw unknown_unary)
      | IntVal i \<Rightarrow>
          (case op of
             Some Un_Sub \<Rightarrow> create_integer (- 1 * i)
           | Some Un_Add \<Rightarrow> ret (Some a)
           | Some Un_Not \<Rightarrow> create_boolean False
           | _ \<Rightarrow> throw unknown_unary)
      | _ \<Rightarrow>
          (case op of
             Some Un_Not \<Rightarrow> create_boolean False
           | _ \<Rightarrow> throw (RuntimeError ''Unknonw unary op'')))"

definition node_unary_op :: "recursion \<Rightarrow> nat \<Rightarrow> valueptr exec" where
  "node_unary_op rec sc =
     bnd (on_ip rd_u32) (\<lambda>op.
     bnd (eval_ptr rec sc) (\<lambda>a.
     bnd (obj_at a) (\<lambda>x. on_heap (apply_unary (unary_op_of op) a x))))"

text \<open>One operand of \<open>and\<close> (\<open>is_and\<close>) or \<open>or\<close>: a null pointer counts as false.\<close>

definition bool_operand :: "recursion \<Rightarrow> nat \<Rightarrow> bool \<Rightarrow> bool \<Rightarrow> bool exec" where
  "bool_operand rec sc is_and res =
     (if res \<noteq> is_and then bnd (on_ip skip_next) (\<lambda>_. ret res)
      else
        bnd (eval rec sc) (\<lambda>val.
        bnd (gets (\<lambda>s. deref (heap s) val)) (\<lambda>x.
          case x of
            None \<Rightarrow> ret False
          | Some y \<Rightarrow>
              (case as_bool y of
                 None \<Rightarrow> throw (RuntimeError ''not a valid bool operation'')
               | Some b \<Rightarrow> ret b))))"

definition node_bool_op :: "recursion \<Rightarrow> nat \<Rightarrow> valueptr exec" where
  "node_bool_op rec sc =
     bnd (on_ip rd_u32) (\<lambda>op.
     bnd (on_ip rd_u32) (\<lambda>num_vals.
     bnd (case bool_op_of op of
            Some Bool_And \<Rightarrow> exec_times num_vals (bool_operand rec sc True) True
          | Some Bool_Or \<Rightarrow> exec_times num_vals (bool_operand rec sc False) False
          | _ \<Rightarrow> throw (RuntimeError ''unknown bool op type'')) (\<lambda>res.
     on_heap (create_boolean res))))"

text \<open>\<open>operator<<\<close> of a \<open>ValueType\<close> on a stream.\<close>

definition show_type :: "value_type \<Rightarrow> string" where
  "show_type t =
     (case t of
        VT_None \<Rightarrow> ''None'' | VT_Bool \<Rightarrow> ''Bool'' | VT_String \<Rightarrow> ''String'' | VT_Integer \<Rightarrow> ''Integer''
      | VT_Float \<Rightarrow> ''Float'' | VT_DictItems \<Rightarrow> ''DictItems'' | VT_CppObject \<Rightarrow> ''C++ Object''
      | VT_List \<Rightarrow> ''List'' | VT_Tuple \<Rightarrow> ''Tuple'' | VT_Dictionary \<Rightarrow> ''Dictionary''
      | VT_PersistableDictionary \<Rightarrow> ''PersistableDictionary'' | _ \<Rightarrow> ''Unknown Value Type'')"

text \<open>
  Integer results go through \<open>create_integer\<close>, which keeps the low 32 bits.  The quotient and
  the remainder of \<open>INT64_MIN\<close> by \<open>-1\<close> trap.
\<close>

definition int_divide :: "(int \<Rightarrow> int \<Rightarrow> int) \<Rightarrow> string \<Rightarrow> i64 \<Rightarrow> i64 \<Rightarrow> (heap, valueptr) prog" where
  "int_divide f msg i1 i2 =
     (if i2 = 0 then throw (RuntimeError msg)
      else if i2 = - 1 \<and> sint i1 = - (2 ^ 63) then throw ArithmeticTrap
      else create_integer (of_int (f (sint i1) (sint i2))))"

definition apply_binary :: "binary_op option \<Rightarrow> obj \<Rightarrow> obj \<Rightarrow> (heap, valueptr) prog" where
  "apply_binary op x y =
     (case op of
        Some Bin_Add \<Rightarrow>
          (case (x, y) of
             (IntVal i1, IntVal i2) \<Rightarrow> create_integer (i1 + i2)
           | (StringVal s1, StringVal s2) \<Rightarrow> create_string (s1 @ s2)
           | _ \<Rightarrow> throw (RuntimeError (''failed to add: incompatible types '' @
                    show_type (obj_type x) @ show_type (obj_type y))))
      | Some Bin_Mult \<Rightarrow>
          (case (x, y) of
             (IntVal i1, IntVal i2) \<Rightarrow> create_integer (i1 * i2)
           | _ \<Rightarrow> throw (RuntimeError ''failed to multiply''))
      | Some Bin_Div \<Rightarrow>
          (case (x, y) of
             (IntVal i1, IntVal i2) \<Rightarrow> int_divide cdiv ''division by zero'' i1 i2
           | (FloatVal f1, FloatVal f2) \<Rightarrow>
               if f64_is_zero f2 then throw (RuntimeError ''division by zero'')
               else create_float (f64_div f1 f2)
           | _ \<Rightarrow> throw (RuntimeError ''failed to multiply''))
      | Some Bin_Mod \<Rightarrow>
          (case (x, y) of
             (IntVal i1, IntVal i2) \<Rightarrow> int_divide cmod ''modulus by zero'' i1 i2
           | _ \<Rightarrow> throw (RuntimeError ''failed apply mod function''))
      | Some Bin_Sub \<Rightarrow>
          (case (x, y) of
             (IntVal i1, IntVal i2) \<Rightarrow> create_integer (i1 - i2)
           | _ \<Rightarrow> throw (RuntimeError ''failed to sub''))
      | _ \<Rightarrow> throw (RuntimeError ''Unknown binary operation''))"

definition known_binary :: "binary_op option \<Rightarrow> bool" where
  "known_binary op \<longleftrightarrow> op \<in> Some ` {Bin_Add, Bin_Mult, Bin_Div, Bin_Mod, Bin_Sub}"

definition node_binary_op :: "recursion \<Rightarrow> nat \<Rightarrow> valueptr exec" where
  "node_binary_op rec sc =
     bnd (on_ip rd_u32) (\<lambda>op.
     bnd (eval rec sc) (\<lambda>left.
     bnd (eval rec sc) (\<lambda>right.
     bnd (throw_if (\<not> known_binary (binary_op_of op)) (RuntimeError ''Unknown binary operation'')) (\<lambda>_.
     bnd (assert_ptr left) (\<lambda>la.
     bnd (assert_ptr right) (\<lambda>ra.
     bnd (obj_at la) (\<lambda>x.
     bnd (obj_at ra) (\<lambda>y. on_heap (apply_binary (binary_op_of op) x y)))))))))"

text \<open>One comparison of a chain; \<open>cp\<close> and \<open>rp\<close> are the current and the right value.\<close>

definition contained :: "heap \<Rightarrow> valueptr \<Rightarrow> valueptr \<Rightarrow> exn + bool" where
  "contained h cp rp =
     (case deref h rp of
        None \<Rightarrow> Inl halted
      | Some (ListVal xs) \<Rightarrow>
          (case deref h cp of None \<Rightarrow> Inl halted | Some x \<Rightarrow> list_contains h xs x)
      | Some _ \<Rightarrow> Inl (RuntimeError ''Can only call in on lists''))"

definition compare_values :: "compare_op option \<Rightarrow> heap \<Rightarrow> valueptr \<Rightarrow> valueptr \<Rightarrow> exn + bool" where
  "compare_values op h cp rp =
     (let both = (\<lambda>null f. case (deref h cp, deref h rp) of
                    (Some x, Some y) \<Rightarrow> Inr (f x y)
                  | _ \<Rightarrow> Inr null)
      in case op of
        Some Cmp_Equals \<Rightarrow> both (cp = rp) value_eq
      | Some Cmp_MoreEqual \<Rightarrow> both (cp = rp) value_ge
      | Some Cmp_More \<Rightarrow> both False value_gt
      | Some Cmp_In \<Rightarrow> contained h cp rp
      | Some Cmp_NotEqual \<Rightarrow> both (cp \<noteq> rp) (\<lambda>x y. \<not> value_eq x y)
      | Some Cmp_NotIn \<Rightarrow> map_sum id Not (contained h cp rp)
      | Some Cmp_LessEqual \<Rightarrow> both (cp = rp) (\<lambda>x y. value_ge y x)
      | Some Cmp_Less \<Rightarrow> both False (\<lambda>x y. value_gt y x)
      | _ \<Rightarrow> Inl (RuntimeError ''Unknown op type''))"

definition node_compare :: "recursion \<Rightarrow> nat \<Rightarrow> valueptr exec" where
  "node_compare rec sc =
     bnd (eval rec sc) (\<lambda>first.
     bnd (on_ip rd_u32) (\<lambda>size.
     exec_times size (\<lambda>current.
       bnd (on_ip rd_u32) (\<lambda>op_type.
       bnd (eval rec sc) (\<lambda>rval.
       bnd (with_heap (\<lambda>h. compare_values (compare_op_of op_type) h current rval)) (\<lambda>res.
       on_heap (create_boolean res))))) first))"

section \<open>Loops\<close>

text \<open>What a loop does with the scope of its body when the body has run.\<close>

definition after_body :: "nat \<Rightarrow> nat \<Rightarrow> valueptr \<Rightarrow> valueptr \<times> loop_state \<Rightarrow> (loop_state \<times> valueptr) exec" where
  "after_body sc body rv r =
     bnd (terminated body) (\<lambda>returned.
       if returned then bnd (do_terminate sc) (\<lambda>_. ret (snd r, fst r)) else ret (snd r, rv))"

definition while_step :: "recursion \<Rightarrow> nat \<Rightarrow> u32 \<Rightarrow> loop_state \<times> valueptr \<Rightarrow>
    (loop_state \<times> valueptr + valueptr) exec" where
  "while_step rec sc start st =
     bnd (terminated sc) (\<lambda>done.
       if done \<or> fst st = LS_Break then ret (Inr (snd st))
       else
         bnd (on_ip charge) (\<lambda>_.
         bnd (on_ip (move_to start)) (\<lambda>_.
         bnd (eval rec sc) (\<lambda>test.
         bnd (truthy test) (\<lambda>cond.
           if \<not> cond then ret (Inr (snd st))
           else
             bnd (local_scope sc (\<lambda>body. bnd (rec body (fst st)) (after_body sc body (snd st)))) (\<lambda>st'.
             ret (Inl st')))))))"

definition node_while :: "nat \<Rightarrow> recursion \<Rightarrow> nat \<Rightarrow> valueptr exec" where
  "node_while fuel rec sc =
     bnd (on_ip data_pos) (\<lambda>start.
     bnd (loop_fuel fuel (while_step rec sc start) (LS_TopLevel, None)) (\<lambda>rv.
     bnd (on_ip skip_next) (\<lambda>_. ret rv)))"

text \<open>\<open>iter->next()\<close>, with \<open>None\<close> for the end of the iteration.\<close>

definition advance :: "addr \<Rightarrow> valueptr option exec" where
  "advance it =
     bnd (catch (on_heap (iter_next it))) (\<lambda>r.
       case r of
         Inr v \<Rightarrow> ret (Some v)
       | Inl e \<Rightarrow> (if e = StopIteration then ret None else throw e))"

definition bind_targets :: "nat \<Rightarrow> string list \<Rightarrow> valueptr \<Rightarrow> unit exec" where
  "bind_targets body names v =
     (case names of
        [n] \<Rightarrow> scope_set body n v
      | [n0, n1] \<Rightarrow>
          bnd (gets (\<lambda>s. deref (heap s) v)) (\<lambda>x.
            case x of
              Some (TupleVal xs) \<Rightarrow>
                bnd (lift_sum (tuple_get xs 0)) (\<lambda>v0.
                bnd (scope_set body n0 v0) (\<lambda>_.
                bnd (lift_sum (tuple_get xs 1)) (\<lambda>v1. scope_set body n1 v1)))
            | _ \<Rightarrow> throw bad_cast)
      | _ \<Rightarrow> throw (RuntimeError ''Cannot handle more than two names''))"

definition for_step :: "recursion \<Rightarrow> nat \<Rightarrow> string list \<Rightarrow> addr \<Rightarrow> loop_state \<times> valueptr \<Rightarrow>
    (loop_state \<times> valueptr + valueptr) exec" where
  "for_step rec sc names it st =
     bnd (terminated sc) (\<lambda>done.
       if done \<or> fst st = LS_Break then ret (Inr (snd st))
       else
         bnd (on_ip charge) (\<lambda>_.
         local_scope sc (\<lambda>body.
           bnd (advance it) (\<lambda>next.
             case next of
               None \<Rightarrow> ret (Inr (snd st))
             | Some v \<Rightarrow>
                 bnd (bind_targets body names v) (\<lambda>_.
                 bnd (rec body (fst st)) (\<lambda>r.
                 bnd (after_body sc body (snd st) r) (\<lambda>st'. ret (Inl st'))))))))"

definition node_for :: "nat \<Rightarrow> recursion \<Rightarrow> nat \<Rightarrow> valueptr exec" where
  "node_for fuel rec sc =
     bnd (on_ip read_names) (\<lambda>names.
     bnd (eval_ptr rec sc) (\<lambda>oa.
     bnd (obj_at oa) (\<lambda>x.
     bnd (if is_generator x then ret oa
          else if can_iterate x then on_heap (iterate oa)
          else throw (RuntimeError ''Can't iterate'')) (\<lambda>it.
     bnd (loop_fuel fuel (for_step rec sc names it) (LS_TopLevel, None)) (\<lambda>rv.
     bnd (on_ip skip_next) (\<lambda>_. ret rv))))))"

definition comp_step :: "recursion \<Rightarrow> nat \<Rightarrow> string \<Rightarrow> addr \<Rightarrow> addr \<Rightarrow> u32 \<Rightarrow> loop_state \<Rightarrow>
    (loop_state + unit) exec" where
  "comp_step rec sc target list it body_pos ls =
     bnd (terminated sc) (\<lambda>done.
       if done \<or> ls = LS_Break then ret (Inr ())
       else
         bnd (on_ip charge) (\<lambda>_.
         bnd (advance it) (\<lambda>next.
           case next of
             None \<Rightarrow> ret (Inr ())
           | Some v \<Rightarrow>
               local_scope sc (\<lambda>body.
                 bnd (scope_set body target v) (\<lambda>_.
                 bnd (on_ip (move_to body_pos)) (\<lambda>_.
                 bnd (rec body ls) (\<lambda>r.
                 bnd (on_heap (list_append list (fst r))) (\<lambda>_. ret (Inl (snd r))))))))))"

text \<open>The source of a list comprehension must be an iterator; a list does not pass the cast.\<close>

definition cast_iterator :: "valueptr \<Rightarrow> addr exec" where
  "cast_iterator p =
     bnd (gets (\<lambda>s. deref (heap s) p)) (\<lambda>x.
       case (p, x) of (Some a, Some y) \<Rightarrow> if is_generator y then ret a else throw bad_cast | _ \<Rightarrow> throw bad_cast)"

definition node_list_comp :: "nat \<Rightarrow> recursion \<Rightarrow> nat \<Rightarrow> loop_state \<Rightarrow> (valueptr \<times> loop_state) exec" where
  "node_list_comp fuel rec sc ls =
     bnd (on_ip data_pos) (\<lambda>body_pos.
     bnd (on_ip skip_next) (\<lambda>_.
     bnd (on_ip rd_u32) (\<lambda>num_loops.
     bnd (throw_if (num_loops \<noteq> 1) (RuntimeError ''Only simple list comprehensions are supported'')) (\<lambda>_.
     bnd (on_ip rd_u32) (\<lambda>type2.
     bnd (throw_if (node_type_of type2 \<noteq> Some NT_Comprehension) (RuntimeError ''invalid type'')) (\<lambda>_.
     bnd (on_ip read_name) (\<lambda>target.
     bnd (on_heap create_list) (\<lambda>list.
     bnd (rec sc ls) (\<lambda>r.
     bnd (cast_iterator (fst r)) (\<lambda>it.
     bnd (on_ip skip_next) (\<lambda>_.
     bnd (on_ip data_pos) (\<lambda>end_pos.
     bnd (loop_fuel fuel (comp_step rec sc target list it body_pos) LS_TopLevel) (\<lambda>_.
     bnd (on_ip (move_to end_pos)) (\<lambda>_. ret (Some list, snd r)))))))))))))))"

section \<open>Calls\<close>

text \<open>
  \<open>Callable::call\<close> reports the step count it leaves through the reference \<open>current_num\<close>, also
  when it throws: the outcome and the count are the result here.
\<close>

type_synonym call_result = "(exn + valueptr) \<times> u32"

definition wrong_number :: exn where
  "wrong_number = RuntimeError ''You did not provide the correct number of arguments to the function''"

text \<open>The defaults are bound first; a parameter without one must get an argument.\<close>

definition bind_arguments :: "nat \<Rightarrow> string list \<Rightarrow> valueptr list \<Rightarrow> valueptr list \<Rightarrow> unit exec" where
  "bind_arguments body params defaults args =
     bnd (throw_if (length params < length args) wrong_number) (\<lambda>_.
     bnd (for_each (filter (\<lambda>pd. snd pd \<noteq> None) (zip params defaults)) (\<lambda>pd. scope_set body (fst pd) (snd pd))) (\<lambda>_.
     bnd (throw_if (length args < length (filter (\<lambda>pd. snd pd = None) (zip params defaults))) wrong_number) (\<lambda>_.
     for_each (zip params args) (\<lambda>pa. scope_set body (fst pa) (snd pa)))))"

text \<open>\<open>CallableVMFunction::call\<close>.\<close>

definition enter_function :: "u8 list \<Rightarrow> nat \<Rightarrow> u32 \<Rightarrow> u32 \<Rightarrow> nat exec" where
  "enter_function code sc current_num current_max =
     bnd (push_child sc) (\<lambda>body.
     bnd (on_scopes (\<lambda>ss. require_global ss body)) (\<lambda>_.
     bnd (new_interpreter code) (\<lambda>_.
     bnd (on_ip (set_execution_step_limit current_max)) (\<lambda>_.
     bnd (on_ip (set_num_execution_steps current_num)) (\<lambda>_. ret body)))))"

definition vm_function_body :: "recursion \<Rightarrow> u8 list \<Rightarrow> string list \<Rightarrow> valueptr list \<Rightarrow> valueptr list \<Rightarrow> nat \<Rightarrow>
    u32 \<Rightarrow> u32 \<Rightarrow> call_result exec" where
  "vm_function_body rec code params defaults args sc current_num current_max =
     bnd (enter_function code sc current_num current_max) (\<lambda>body.
     bnd (bind_arguments body params defaults args) (\<lambda>_.
     bnd (catch (eval rec body)) (\<lambda>r.
     bnd (gets (\<lambda>s. m_num_execution_steps (ip s))) (\<lambda>n. ret (r, n)))))"

definition vm_function_call :: "recursion \<Rightarrow> u8 list \<Rightarrow> string list \<Rightarrow> valueptr list \<Rightarrow> valueptr list \<Rightarrow> nat \<Rightarrow>
    u32 \<Rightarrow> u32 \<Rightarrow> call_result exec" where
  "vm_function_call rec code params defaults args sc current_num current_max =
     bnd (own_interp (vm_function_body rec code params defaults args sc current_num current_max)) (\<lambda>r.
       ret (case r of Inl e \<Rightarrow> (Inl e, current_num) | Inr res \<Rightarrow> res))"

text \<open>\<open>CallableCFunction::call\<close>.\<close>

definition c_function_call :: "string list \<Rightarrow> bc_function \<Rightarrow> addr \<Rightarrow> valueptr list \<Rightarrow> nat \<Rightarrow> valueptr exec" where
  "c_function_call params f this args sc =
     local_scope sc (\<lambda>body.
       bnd (on_scopes (\<lambda>ss. require_global ss body)) (\<lambda>_.
       bnd (throw_if (length args \<noteq> length params) wrong_number) (\<lambda>_.
       bnd (for_each (zip params args) (\<lambda>pa. scope_set body (fst pa) (snd pa))) (\<lambda>_.
       bc_call f this body))))"

definition items_call :: "addr \<Rightarrow> valueptr list \<Rightarrow> valueptr exec" where
  "items_call d args =
     bnd (throw_if (args \<noteq> []) (RuntimeError ''invalid number of arguments'')) (\<lambda>_.
     bnd (on_heap (items_iterate d)) (\<lambda>a. ret (Some a)))"

definition plain_call :: "valueptr exec \<Rightarrow> u32 \<Rightarrow> call_result exec" where
  "plain_call m current_num = bnd (catch m) (\<lambda>r. ret (r, current_num))"

definition callable_call :: "recursion \<Rightarrow> addr \<Rightarrow> valueptr list \<Rightarrow> nat \<Rightarrow> u32 \<Rightarrow> u32 \<Rightarrow> call_result exec" where
  "callable_call rec c args sc current_num current_max =
     bnd (obj_at c) (\<lambda>x.
       case x of
         Builtin b \<Rightarrow> plain_call (builtin_call b args) current_num
       | Function f \<Rightarrow> plain_call (function_call f args) current_num
       | CallableVMFunction code params defaults \<Rightarrow>
           vm_function_call rec code params defaults args sc current_num current_max
       | CallableCFunction params f this \<Rightarrow> plain_call (c_function_call params f this args sc) current_num
       | DictItems d \<Rightarrow> plain_call (items_call d args) current_num
       | _ \<Rightarrow> plain_call (throw bad_cast) current_num)"

text \<open>Only a call that throws sets the caller's step count.\<close>

definition invoke :: "recursion \<Rightarrow> addr \<Rightarrow> valueptr list \<Rightarrow> nat \<Rightarrow> valueptr exec" where
  "invoke rec c args sc =
     bnd (gets (\<lambda>s. (m_num_execution_steps (ip s), m_execution_step_limit (ip s)))) (\<lambda>nm.
     bnd (callable_call rec c args sc (fst nm) (snd nm)) (\<lambda>r.
       case fst r of
         Inl e \<Rightarrow> bnd (on_ip (set_num_execution_steps (snd r))) (\<lambda>_. throw e)
       | Inr v \<Rightarrow> ret v))"

definition node_call :: "recursion \<Rightarrow> nat \<Rightarrow> valueptr exec" where
  "node_call rec sc =
     bnd (eval_ptr rec sc) (\<lambda>c.
     bnd (obj_at c) (\<lambda>x.
     bnd (throw_if (\<not> is_callable x) (RuntimeError ''Cannot call un-callable!'')) (\<lambda>_.
     bnd (on_ip rd_u32) (\<lambda>num_args.
     bnd (exec_times num_args (\<lambda>args. bnd (eval rec sc) (\<lambda>arg. ret (args @ [arg]))) []) (\<lambda>args.
     invoke rec c args sc)))))"

section \<open>Function definitions\<close>

definition bytecode_hacked :: exn where
  "bytecode_hacked = RuntimeError ''Stop hacking the bytecode, you pathetic little worm!''"

definition expect_type :: "node_type \<Rightarrow> exn \<Rightarrow> unit exec" where
  "expect_type t e = bnd (on_ip rd_u32) (\<lambda>n. throw_if (node_type_of n \<noteq> Some t) e)"

text \<open>The defaults are evaluated in the interpreter's global scope.\<close>

definition read_default :: "recursion \<Rightarrow> valueptr list \<times> bool \<Rightarrow> (valueptr list \<times> bool) exec" where
  "read_default rec st =
     bnd (gets (\<lambda>s. m_global_scope (ip s))) (\<lambda>g.
     bnd (eval rec g) (\<lambda>arg.
     let non_standard = snd st \<or> arg \<noteq> None in
     bnd (throw_if (arg = None \<and> non_standard)
            (RuntimeError ''Non-default argument follows default argument'')) (\<lambda>_.
     ret (fst st @ [arg], non_standard))))"

definition rd_bytes :: "u32 \<Rightarrow> u8 list exec" where
  "rd_bytes n s =
     (case bs_Read n (m_data (ip s)) of (bs, d) \<Rightarrow> (Inr bs, s\<lparr>ip := (ip s)\<lparr>m_data := d\<rparr>\<rparr>))"

definition read_function_stub :: "recursion \<Rightarrow> valueptr exec" where
  "read_function_stub rec =
     bnd (on_ip rd_u32) (\<lambda>total_stub_len.
     bnd (expect_type NT_FunctionStart
            (RuntimeError ''Are you kidding me, you stupid script kiddy? [coder is insane]'')) (\<lambda>_.
     bnd (on_ip rd_u32) (\<lambda>num_args.
     bnd (exec_times num_args (\<lambda>args. bnd (on_ip read_name) (\<lambda>arg. ret (args @ [arg]))) []) (\<lambda>args.
     bnd (expect_type NT_FunctionStartDefaults bytecode_hacked) (\<lambda>_.
     bnd (on_ip rd_u32) (\<lambda>num_defaults.
     bnd (throw_if (num_defaults \<noteq> num_args) bytecode_hacked) (\<lambda>_.
     bnd (exec_times num_defaults (read_default rec) ([], False)) (\<lambda>defaults.
     bnd (expect_type NT_FunctionStartStub bytecode_hacked) (\<lambda>_.
     bnd (rd_bytes total_stub_len) (\<lambda>stub.
     bnd (expect_type NT_FunctionEnd
            (RuntimeError ''Are you kidding me, you stupid script kiddy? [wrong type order]'')) (\<lambda>_.
     on_heap (hnew (CallableVMFunction stub args (fst defaults))))))))))))))"

definition node_function_def :: "recursion \<Rightarrow> nat \<Rightarrow> valueptr exec" where
  "node_function_def rec sc =
     bnd (on_ip read_name) (\<lambda>t_name.
     bnd (throw_if (t_name = []) (RuntimeError ''Function name of length zero'')) (\<lambda>_.
     bnd (read_function_stub rec) (\<lambda>jump_point.
     bnd (assert_ptr jump_point) (\<lambda>_.
     bnd (scope_set sc t_name jump_point) (\<lambda>_. ret None)))))"

section \<open>\<open>execute_next\<close>\<close>

definition top_level_ok :: "u32 \<Rightarrow> bool" where
  "top_level_ok t \<longleftrightarrow>
     node_type_of t \<in> Some ` {NT_FunctionDef, NT_StatementList, NT_ImportFrom, NT_Import, NT_Alias, NT_Pass}"

definition wrong_code :: "u32 \<Rightarrow> exn" where
  "wrong_code t =
     RuntimeError (''Wrong code: you have to put all program logic into functions, no '' @
       ''code execution on the top level allowed. ['' @ show_int (sint t) @ '']'')"

text \<open>The cases that leave the loop state as it was.\<close>

definition same_state :: "loop_state \<Rightarrow> valueptr exec \<Rightarrow> (valueptr \<times> loop_state) exec" where
  "same_state ls m = bnd m (\<lambda>v. ret (v, ls))"

definition exec_node :: "nat \<Rightarrow> recursion \<Rightarrow> node_type option \<Rightarrow> nat \<Rightarrow> loop_state \<Rightarrow> (valueptr \<times> loop_state) exec" where
  "exec_node fuel rec t sc ls =
     (case t of
        Some NT_ImportFrom \<Rightarrow> same_state ls (node_import_from rec sc)
      | Some NT_Tuple \<Rightarrow> same_state ls (node_tuple rec sc)
      | Some NT_Import \<Rightarrow> same_state ls (node_import rec sc)
      | Some NT_Alias \<Rightarrow> same_state ls node_alias
      | Some NT_Pass \<Rightarrow> ret (None, ls)
      | Some NT_Attribute \<Rightarrow> same_state ls (node_attribute rec sc)
      | Some NT_Name \<Rightarrow> same_state ls (node_name sc)
      | Some NT_Continue \<Rightarrow> node_continue ls
      | Some NT_Break \<Rightarrow> node_break ls
      | Some NT_Assign \<Rightarrow> same_state ls (node_assign rec sc)
      | Some NT_Global \<Rightarrow> same_state ls (node_global sc)
      | Some NT_StatementList \<Rightarrow> node_statement_list rec sc ls
      | Some NT_UnaryOp \<Rightarrow> same_state ls (node_unary_op rec sc)
      | Some NT_BoolOp \<Rightarrow> same_state ls (node_bool_op rec sc)
      | Some NT_BinaryOp \<Rightarrow> same_state ls (node_binary_op rec sc)
      | Some NT_Return \<Rightarrow> same_state ls (node_return rec sc)
      | Some NT_List \<Rightarrow> same_state ls (node_list rec sc)
      | Some NT_String \<Rightarrow> same_state ls node_string
      | Some NT_Compare \<Rightarrow> same_state ls (node_compare rec sc)
      | Some NT_Index \<Rightarrow> same_state ls (eval rec sc)
      | Some NT_Integer \<Rightarrow> same_state ls node_integer
      | Some NT_Call \<Rightarrow> same_state ls (node_call rec sc)
      | Some NT_If \<Rightarrow> node_if rec sc ls
      | Some NT_IfElse \<Rightarrow> node_if_else rec sc ls
      | Some NT_Dictionary \<Rightarrow> same_state ls (node_dictionary rec sc)
      | Some NT_Subscript \<Rightarrow> same_state ls (node_subscript rec sc)
      | Some NT_WhileLoop \<Rightarrow> same_state ls (node_while fuel rec sc)
      | Some NT_ForLoop \<Rightarrow> same_state ls (node_for fuel rec sc)
      | Some NT_ListComp \<Rightarrow> node_list_comp fuel rec sc ls
      | Some NT_AugmentedAssign \<Rightarrow> same_state ls (node_augmented_assign rec sc)
      | Some NT_FunctionDef \<Rightarrow> same_state ls (node_function_def rec sc)
      | _ \<Rightarrow> throw (RuntimeError ''Unknown node type!''))"

definition exec_step :: "nat \<Rightarrow> recursion \<Rightarrow> recursion" where
  "exec_step fuel rec sc ls =
     bnd (on_ip charge) (\<lambda>_.
     bnd (on_ip data_pos) (\<lambda>start.
     bnd (on_ip rd_u32) (\<lambda>t.
     bnd (gets (\<lambda>s. get_depth (scopes s) sc)) (\<lambda>d.
     bnd (throw_if (ls \<noteq> LS_IgnoreAll \<and> d = 0 \<and> \<not> top_level_ok t) (wrong_code t)) (\<lambda>_.
     bnd (exec_node fuel rec (node_type_of t) sc ls) (\<lambda>r.
       if snd r \<noteq> LS_Normal \<and> snd r \<noteq> LS_None then bnd (on_ip (move_to start)) (\<lambda>_. ret r)
       else ret r))))))"

primrec exec :: "nat \<Rightarrow> recursion" where
  "exec 0 = (\<lambda>sc ls. throw OutOfFuel)"
| "exec (Suc n) = exec_step n (exec n)"

definition execute :: "nat \<Rightarrow> valueptr exec" where
  "execute fuel = bnd (gets (\<lambda>s. m_global_scope (ip s))) (\<lambda>g. eval (exec fuel) g)"

section \<open>\<open>calldata\<close>\<close>

definition read_from :: "'a reader \<Rightarrow> bitstream \<Rightarrow> ('a \<times> bitstream) exec" where
  "read_from r bs = (case r bs of (Inl e, bs') \<Rightarrow> throw e | (Inr v, bs') \<Rightarrow> ret (v, bs'))"

definition read_argument :: "bitstream \<Rightarrow> (valueptr \<times> bitstream) exec" where
  "read_argument bs =
     bnd (read_from get_u32 bs) (\<lambda>(argtype, bs1).
       if argtype = 1 then
         bnd (read_from get_string bs1) (\<lambda>(arg, bs2). bnd (on_heap (hnew (StringVal arg))) (\<lambda>p. ret (p, bs2)))
       else if argtype = 2 then
         bnd (read_from get_i64 bs1) (\<lambda>(arg, bs2). bnd (on_heap (hnew (IntVal arg))) (\<lambda>p. ret (p, bs2)))
       else if argtype = 3 then
         bnd (read_from get_f64 bs1) (\<lambda>(arg, bs2). bnd (on_heap (hnew (FloatVal arg))) (\<lambda>p. ret (p, bs2)))
       else if argtype = 4 then
         bnd (read_from get_bool bs1) (\<lambda>(arg, bs2). bnd (on_heap (hnew (BoolVal arg))) (\<lambda>p. ret (p, bs2)))
       else throw (RuntimeError ''Only string, int, float and bool are allowed as arguments.''))"

definition uncallable :: "string \<Rightarrow> exn" where
  "uncallable f = RuntimeError (''Cannot call un-callable or unknown function: '' @ f)"

text \<open>The call at the end of \<open>calldata\<close> sets the step count on both ways out.\<close>

definition invoke_data :: "recursion \<Rightarrow> addr \<Rightarrow> valueptr list \<Rightarrow> nat \<Rightarrow> valueptr exec" where
  "invoke_data rec c args sc =
     bnd (gets (\<lambda>s. (m_num_execution_steps (ip s), m_execution_step_limit (ip s)))) (\<lambda>nm.
     bnd (callable_call rec c args sc (fst nm) (snd nm)) (\<lambda>r.
     bnd (on_ip (set_num_execution_steps (snd r))) (\<lambda>_. lift_sum (fst r))))"

definition calldata :: "nat \<Rightarrow> u8 list \<Rightarrow> valueptr exec" where
  "calldata fuel data =
     bnd (if data = [] then ret (''default'', bitstream_of data)
          else read_from get_string (bitstream_of data)) (\<lambda>(func, argsbit).
     bnd (gets (\<lambda>s. m_global_scope (ip s))) (\<lambda>g.
     bnd (scope_get g func) (\<lambda>callable.
     bnd (gets (\<lambda>s. deref (heap s) callable)) (\<lambda>x.
       case (callable, x) of
         (Some c, Some y) \<Rightarrow>
           bnd (throw_if (take 1 func = ''_'' \<or> \<not> is_callable y) (uncallable func)) (\<lambda>_.
           let num_args = (case get_u32 argsbit of (Inl e, bs) \<Rightarrow> 0 | (Inr n, bs) \<Rightarrow> n);
               argsbit' = snd (get_u32 argsbit)
           in bnd (exec_times num_args (\<lambda>(args, bs).
                     bnd (read_argument bs) (\<lambda>(p, bs'). ret (args @ [p], bs'))) ([], argsbit')) (\<lambda>(args, bs).
              invoke_data (exec fuel) c args g))
       | _ \<Rightarrow> throw (uncallable func)))))"

end
