(* ===== verification/Skipping.thy ===== *)
theory Skipping
  imports Machine Meter
begin

text \<open>
  \<open>skip_next\<close> is total: the fuel that its definition gives it, one level per unread byte, never
  runs out, and with any more fuel the answer is the same.  The bytes ahead of the get position
  are the meter: every level of the recursion reads at least the four bytes of a node type.
\<close>

definition unread :: "interp \<Rightarrow> nat" where
  "unread i = length (bytecode (m_data i)) - getp (m_data i)"

lemma read_pod_frame:
  "read_pod n f s = (Inr v, s') \<Longrightarrow> bytecode s' = bytecode s \<and> getp s' = getp s + n \<and> getp s' \<le> length (bytecode s)"
  "read_pod n f s = (Inl e, s') \<Longrightarrow> e = eof_error"
  by (auto simp: read_pod_def raw_read_def Let_def split: if_splits)

lemma get_string_frame:
  "get_string s = (Inr v, s') \<Longrightarrow> bytecode s' = bytecode s \<and> getp s \<le> getp s'"
  "get_string s = (Inl e, s') \<Longrightarrow> e = eof_error"
  by (auto simp: get_string_def get_u32_def split: prod.splits sum.splits if_splits
      dest!: read_pod_frame)

interpretation skipping: meter unread "\<lambda>_. True" "\<lambda>_. True" rd_u32
proof unfold_locales
  fix i t i' assume "rd_u32 i = (Inr t, i')"
  then show "True \<and> unread i' < unread i"
    by (auto simp: rd_u32_def on_data_def on_part_def unread_def get_u32_def split: prod.splits
        dest!: read_pod_frame(1))
next
  fix i e i' assume "rd_u32 i = (Inl e, i')"
  then show "e \<noteq> OutOfFuel \<and> True"
    by (auto simp: rd_u32_def on_data_def on_part_def get_u32_def eof_error_def split: prod.splits
        dest!: read_pod_frame(2))
qed simp

lemmas skip_fine =
  skipping.fine_ret skipping.fine_bnd skipping.fine_throw skipping.fine_throw_if skipping.fine_times
  skipping.fine_tick

lemma rd_string_fine: "skipping.fine n rd_string"
  by (rule withinI)
    (auto simp: rd_string_def on_data_def on_part_def unread_def eof_error_def split: prod.splits
      dest!: get_string_frame)

lemma charge_fine: "skipping.fine n charge"
  by (rule withinI) (auto simp: charge_def unread_def Let_def split: if_splits)

lemma read_name_fine: "skipping.fine n read_name"
  unfolding read_name_def by (intro skip_fine) (auto intro: skip_fine rd_string_fine)

lemma read_names_fine: "skipping.fine n read_names"
  unfolding read_names_def
  by (intro skip_fine) (auto intro!: skip_fine rd_string_fine read_name_fine)

lemma skip_step_fine:
  assumes "skipping.fine n rec"
  shows "skipping.fine (Suc n) (skip_step rec)"
  unfolding skip_step_def charged_times_def
  by (intro skipping.fine_after_tick)
    (auto intro!: skip_fine rd_string_fine read_names_fine charge_fine assms
      simp: skip_error_def split: option.split node_type.split)

lemma skip_fuel_fine: "skipping.fine n (skip_fuel n)"
  by (induction n) (auto intro: skip_step_fine within_0)

lemma skip_step_refines: "refines rec rec' \<Longrightarrow> refines (skip_step rec) (skip_step rec')"
  unfolding skip_step_def charged_times_def
  by (intro refines_bnd refines_refl)
    (auto intro!: refines_bnd refines_refl refines_times split: option.split node_type.split)

lemma skip_fuel_refines: "refines (skip_fuel n) (skip_fuel (Suc n))"
proof (induction n)
  case (Suc n)
  from skip_step_refines [OF this] show ?case by (simp only: skip_fuel.simps)
qed (simp add: refines_out_of_fuel)

lemma skip_next_fuel: "skip_next i = skip_fuel (Suc (unread i)) i"
  by (simp only: skip_next_def unread_def)

lemma skip_next_no_fuel: "fst (skip_next i) \<noteq> Inl OutOfFuel"
  using within_Inl [OF skip_fuel_fine [of "Suc (unread i)"], of i]
  by (cases "skip_next i") (auto simp only: skip_next_fuel fst_conv lessI)

lemma skip_next_forward: "skip_next i = (Inr (), i') \<Longrightarrow> unread i' \<le> unread i"
  using within_Inr [OF skip_fuel_fine [of "Suc (unread i)"], of i "()" i']
  by (simp only: skip_next_fuel lessI simp_thms)

text \<open>
  C20: \<open>skip_next\<close> terminates on every byte stream, valid or not: it returns or throws one of
  the code's own exceptions, whatever the bytes and the position, and every fuel above the
  number of unread bytes gives that same answer.
\<close>

theorem skip_next_total:
  "fst (skip_next i) \<noteq> Inl OutOfFuel \<and> (\<forall>n > unread i. skip_fuel n i = skip_next i)"
proof (intro conjI allI impI)
  fix n assume "unread i < n"
  then show "skip_fuel n i = skip_next i"
    using refines_chain [of skip_fuel, OF skip_fuel_refines, of "Suc (unread i)" i n]
      skip_next_no_fuel [of i]
    by (simp only: skip_next_fuel Suc_le_eq simp_thms)
qed (rule skip_next_no_fuel)

theorem skip_next_total_witness:
  "skip_fuel 9 \<lparr>m_data = bitstream_of (be32 (node_code NT_Return) @ be32 (node_code NT_Return)),
     m_num_execution_steps = 0, m_execution_step_limit = 0, m_loaded_modules = Map.empty,
     m_store = 0, m_global_scope = 0\<rparr> =
   skip_next \<lparr>m_data = bitstream_of (be32 (node_code NT_Return) @ be32 (node_code NT_Return)),
     m_num_execution_steps = 0, m_execution_step_limit = 0, m_loaded_modules = Map.empty,
     m_store = 0, m_global_scope = 0\<rparr>"
  (is "skip_fuel 9 ?i = _")
proof -
  have "unread ?i < 9" by (simp add: unread_def bitstream_of_def)
  then show "skip_fuel 9 ?i = skip_next ?i"
    using skip_next_total [THEN conjunct2, rule_format, of ?i 9] by blast
qed

end
