(* ===== verification/Gas.thy ===== *)
theory Gas
  imports Exec Skipping
begin

text \<open>
  The step limit bounds every run.  The meter is the gas left, the limit minus the steps
  charged; \<open>CHARGE_EXECUTION\<close> makes it go down, and every recursive call of \<open>execute_next\<close> and
  every iteration of a loop charges first.  Hence fuel above the gas left is never used up, the
  answer does not depend on the fuel, and the counter never passes the limit.
\<close>

section \<open>Heap operations do not use fuel\<close>

lemma fuelless_heap [fuelless_intros]:
  "fuelless (halloc x)" "fuelless (hget a)" "fuelless (hset a x)" "fuelless (hnew x)"
  by (auto simp: halloc_def hget_def hset_def hnew_def fuelless_def intro!: fuelless_intros)
    (auto simp: bnd_def ret_def halloc_def gets_def modify_def)

lemma fuelless_create [fuelless_intros]:
  "fuelless (create_integer i)" "fuelless (create_boolean b)" "fuelless (create_string s)"
  "fuelless (create_float f)" "fuelless create_list" "fuelless create_tuple" "fuelless create_dictionary"
  unfolding create_integer_def create_boolean_def create_string_def create_float_def
    create_list_def create_tuple_def create_dictionary_def
  by (rule fuelless_intros)+

lemma not_out_of_fuel [simp]:
  "bad_cast \<noteq> OutOfFuel" "halted \<noteq> OutOfFuel" "index_error \<noteq> OutOfFuel" "not_numeric \<noteq> OutOfFuel"
  "unknown_binary_op \<noteq> OutOfFuel" "eof_error \<noteq> OutOfFuel" "skip_error \<noteq> OutOfFuel"
  "no_such_value n \<noteq> OutOfFuel" "unknown_module n \<noteq> OutOfFuel" "arg_missing n \<noteq> OutOfFuel"
  "pointer_clash \<noteq> OutOfFuel" "invalid_address \<noteq> OutOfFuel" "wrong_number \<noteq> OutOfFuel"
  "bytecode_hacked \<noteq> OutOfFuel" "wrong_code t \<noteq> OutOfFuel" "uncallable n \<noteq> OutOfFuel"
  "undefined_container n \<noteq> OutOfFuel" "not_a_container n \<noteq> OutOfFuel" "bad_dict_index \<noteq> OutOfFuel"
  "bad_array_index \<noteq> OutOfFuel" "not_a_loop \<noteq> OutOfFuel" "unknown_unary \<noteq> OutOfFuel"
  "send_nothing \<noteq> OutOfFuel"
  by (simp_all add: bad_cast_def halted_def index_error_def not_numeric_def unknown_binary_op_def
      eof_error_def skip_error_def no_such_value_def unknown_module_def arg_missing_def
      pointer_clash_def invalid_address_def wrong_number_def bytecode_hacked_def wrong_code_def
      uncallable_def undefined_container_def not_a_container_def bad_dict_index_def
      bad_array_index_def not_a_loop_def unknown_unary_def send_nothing_def)

lemma fuelless_containers [fuelless_intros]:
  "fuelless (list_append a v)" "fuelless (tuple_append a v)" "fuelless (dict_insert a k v)"
  "fuelless (apply_int op t i)" "fuelless (iterate a)" "fuelless (items_iterate a)"
  by (auto simp: list_append_def tuple_append_def dict_insert_def apply_int_def iterate_def
      items_iterate_def intro!: fuelless_intros split: obj.split option.split binary_op.split)

lemma fuelless_list_apply [fuelless_intros]: "fuelless (list_apply xs i v op)"
  by (auto simp: list_apply_def intro!: fuelless_intros split: option.split)

lemma fuelless_dict_apply [fuelless_intros]: "fuelless (dict_apply d k v op)"
  unfolding dict_apply_def Let_def
  by (intro fuelless_bnd fuelless_intros)
    (auto intro!: fuelless_intros split: option.split binary_op.split)

lemma no_fuel_sums [simp]:
  "list_get xs i \<noteq> Inl OutOfFuel" "list_set xs i w \<noteq> Inl OutOfFuel"
  "tuple_get ys p \<noteq> Inl OutOfFuel" "ps_insert k x q \<noteq> Inl OutOfFuel"
  "ps_apply k v op q \<noteq> Inl OutOfFuel" "child_scope n sc \<noteq> Inl OutOfFuel"
  "obj_size x \<noteq> Inl OutOfFuel" "unpack_integer h r \<noteq> Inl OutOfFuel" "check_is_integer h r \<noteq> Inl OutOfFuel"
  by (auto simp: list_get_def list_set_def tuple_get_def ps_insert_def ps_apply_def child_scope_def
      unpack_integer_def check_is_integer_def Let_def split: obj.splits option.splits binary_op.splits)
    (cases x; simp)

lemma find_value_no_fuel [simp]: "find_value ss i name \<noteq> Inl OutOfFuel"
  by (simp add: find_value_chain split: option.split)

lemma list_contains_no_fuel [simp]: "list_contains h xs x \<noteq> Inl OutOfFuel"
  by (induction h xs x rule: list_contains.induct) simp_all

lemma join_strs_no_fuel:
  "(\<And>x. f x \<noteq> Inl OutOfFuel) \<Longrightarrow> join_strs f h first ps \<noteq> Inl OutOfFuel"
  by (induction f h first ps rule: join_strs.induct) (auto split: option.split sum.split)

lemma str_fuel_no_fuel: "str_fuel n h x \<noteq> Inl OutOfFuel"
proof (induction n arbitrary: x)
  case (Suc n)
  then have "join_strs (str_fuel n h) h b ps \<noteq> Inl OutOfFuel" for b ps by (rule join_strs_no_fuel)
  then show ?case by (auto split: obj.split sum.split)
qed simp

lemma obj_str_no_fuel [simp]: "obj_str h x \<noteq> Inl OutOfFuel"
  by (simp add: obj_str_def str_fuel_no_fuel del: str_fuel.simps)

lemma fuelless_get_value [fuelless_intros]: "fuelless (get_value ss i name)"
  by (auto simp: get_value_def intro!: fuelless_intros split: option.split)

lemma fuelless_ps_get [fuelless_intros]: "fuelless (ps_get q k)"
  by (auto simp: ps_get_def intro!: fuelless_intros split: option.split)

lemma fuelless_iter_next [fuelless_intros]: "fuelless (iter_next a)"
  unfolding iter_next_def range_next_def list_next_def dict_item_next_def dict_key_next_def
  by (auto intro!: fuelless_intros split: obj.split option.split)

lemma fuelless_operators [fuelless_intros]:
  "fuelless (apply_unary u a x)" "fuelless (int_divide f msg i1 i2)"
  by (auto simp: apply_unary_def int_divide_def intro!: fuelless_intros
      split: obj.split option.split unary_op.split)

lemma fuelless_binary [fuelless_intros]: "fuelless (apply_binary op x y)"
  by (auto simp: apply_binary_def intro!: fuelless_intros split: obj.split option.split binary_op.split)

lemma compare_no_fuel [simp]: "compare_values op h p q \<noteq> Inl OutOfFuel"
proof -
  have "contained h p q \<noteq> Inl OutOfFuel"
    by (auto simp: contained_def split: option.split obj.split)
  then show ?thesis
    by (auto simp: compare_values_def Let_def map_sum_def split: option.split compare_op.split sum.split)
qed

section \<open>The gas meter of an interpreter\<close>

definition gas_left :: "interp \<Rightarrow> nat" where
  "gas_left i = unat (m_execution_step_limit i) - unat (m_num_execution_steps i)"

definition gas_ok :: "u32 \<Rightarrow> interp \<Rightarrow> bool" where
  "gas_ok lim i \<longleftrightarrow> m_execution_step_limit i = lim \<and> m_num_execution_steps i < lim"

definition gas_end :: "u32 \<Rightarrow> interp \<Rightarrow> bool" where
  "gas_end lim i \<longleftrightarrow> m_execution_step_limit i = lim \<and> m_num_execution_steps i \<le> lim"

interpretation fuel: meter gas_left "gas_ok lim" "gas_end lim" charge for lim
proof unfold_locales
  fix i assume "gas_ok lim i"
  then show "gas_end lim i" by (auto simp: gas_ok_def gas_end_def)
next
  fix i t i' assume i: "gas_ok lim i" and run: "charge i = (Inr t, i')"
  note step = unat_Suc_below [of "m_num_execution_steps i" lim]
  show "gas_ok lim i' \<and> gas_left i' < gas_left i"
    using i run step
    by (auto simp: charge_def gas_ok_def gas_left_def Let_def word_less_nat_alt word_le_nat_alt
        split: if_splits)
next
  fix i e i' assume i: "gas_ok lim i" and run: "charge i = (Inl e, i')"
  then show "e \<noteq> OutOfFuel \<and> gas_end lim i'"
    using unat_Suc_below(2) [of "m_num_execution_steps i" lim]
    by (auto simp: charge_def gas_ok_def gas_end_def Let_def word_le_nat_alt split: if_splits)
qed

lemmas fuel_rules [within_intros] =
  fuel.fine_ret fuel.fine_bnd fuel.fine_throw fuel.fine_throw_if fuel.fine_times fuel.fine_for_each
  fuel.fine_tick fuel.fine_gets fuel.fine_lift_sum

lemma fuellessD: "fuelless m \<Longrightarrow> m s = (Inl e, t) \<Longrightarrow> e \<noteq> OutOfFuel"
  by (metis fst_conv fuelless_def)

lemma fuel_on_data [within_intros]: "fuelless m \<Longrightarrow> fuel.fine lim n (on_data m)"
  by (rule withinI)
    (auto simp: on_data_def on_part_def gas_ok_def gas_end_def gas_left_def
      split: prod.splits dest: fuellessD)

lemma fuelless_readers [fuelless_intros]:
  "fuelless get_u32" "fuelless get_i32" "fuelless get_string" "fuelless peek_u32"
  by (auto simp: fuelless_def get_u32_def get_i32_def get_string_def peek_u32_def
      split: prod.split sum.split dest!: read_pod_frame(2) get_string_frame(2))
    (auto simp: eof_error_def read_pod_def split: prod.splits if_splits)

lemma fuel_moves [within_intros]:
  "fuel.fine lim n (move_to pos)" "fuel.fine lim n data_pos"
  "fuel.fine lim n rd_u32" "fuel.fine lim n rd_string"
  unfolding data_pos_def rd_u32_def rd_string_def
  by (auto intro!: within_intros fuelless_intros)
    (auto simp: within_def move_to_def modify_def gas_ok_def gas_left_def)

lemma fuel_names [within_intros]: "fuel.fine lim n read_name" "fuel.fine lim n read_names"
proof -
  show "fuel.fine lim n read_name"
    unfolding read_name_def by (intro within_intros) (auto intro!: within_intros)
  then show "fuel.fine lim n read_names"
    unfolding read_names_def by (intro within_intros) (auto intro!: within_intros)
qed

text \<open>
  The recursion of \<open>skip_next\<close> with another exception where its fuel ends; it never gets there.
\<close>

primrec skip_total :: "nat \<Rightarrow> (interp, unit) prog" where
  "skip_total 0 = throw skip_error"
| "skip_total (Suc n) = skip_step (skip_total n)"

lemma skip_fuel_total: "refines (skip_fuel n) (skip_total n)"
  by (induction n) (simp_all add: refines_out_of_fuel skip_step_refines)

lemma skip_next_total_eq: "skip_next i = skip_total (Suc (unread i)) i"
  using refines_result [OF skip_fuel_total] skip_next_no_fuel [of i]
  unfolding skip_next_fuel [of i] by metis

lemma fuel_skip_step:
  assumes "fuel.fine lim n rec"
  shows "fuel.fine lim n (skip_step rec)"
  unfolding skip_step_def charged_times_def
  by (intro within_intros)
    (auto intro!: within_intros assms split: option.split node_type.split)

lemma fuel_skip_next [within_intros]: "fuel.fine lim n skip_next"
proof -
  have "fuel.fine lim n (skip_total k)" for k
    by (induction k) (auto intro: within_intros fuel_skip_step)
  then have "\<forall>k s. gas_ok lim s \<longrightarrow> gas_left s < n \<longrightarrow> (case skip_total k s of
      (Inr x, s') \<Rightarrow> gas_ok lim s' \<and> gas_left s' \<le> gas_left s | (Inl e, s') \<Rightarrow> e \<noteq> OutOfFuel \<and> gas_end lim s')"
    by (simp only: within_def) blast
  then show ?thesis unfolding within_def skip_next_total_eq by (simp del: skip_total.simps)
qed

lemma fuel_settings [within_intros]:
  "fuel.fine lim n (set_module name a)"
  by (auto simp: within_def set_module_def modify_def gas_ok_def gas_left_def)

section \<open>The gas meter of a run\<close>

definition same_ip :: "'a exec \<Rightarrow> bool" where
  "same_ip m \<longleftrightarrow> (\<forall>s. ip (snd (m s)) = ip s \<and> chain_state (snd (m s)) = chain_state s)"

definition run_left :: "vm \<Rightarrow> nat" where
  "run_left s = gas_left (ip s)"

lemma on_ip_Inr: "on_ip m s = (Inr x, s') \<longleftrightarrow> (\<exists>i. m (ip s) = (Inr x, i) \<and> s' = s\<lparr>ip := i\<rparr>)"
  by (auto simp: on_ip_def on_part_def split: prod.splits)

lemma on_ip_Inl: "on_ip m s = (Inl e, s') \<longleftrightarrow> (\<exists>i. m (ip s) = (Inl e, i) \<and> s' = s\<lparr>ip := i\<rparr>)"
  by (auto simp: on_ip_def on_part_def split: prod.splits)

text \<open>
  The interface between the interpreter and the chain: a predicate \<open>I\<close> of the chain parameters
  that a transfer keeps, and a weaker one \<open>E\<close> that also holds where a transfer throws.  The
  locale proves for every run that it keeps the meter's predicates together with \<open>I\<close> and \<open>E\<close>;
  nothing else of the interpreter touches the chain parameters.
\<close>

definition chain_step_ok :: "(chain_env \<Rightarrow> bool) \<Rightarrow> (chain_env \<Rightarrow> bool) \<Rightarrow> (chain_env, unit) prog \<Rightarrow> bool" where
  "chain_step_ok I E m \<longleftrightarrow>
     (\<forall>c. I c \<longrightarrow> (case m c of (Inr x, c') \<Rightarrow> I c' | (Inl e, c') \<Rightarrow> e \<noteq> OutOfFuel \<and> E c'))"

locale chain_invariant =
  fixes I E :: "chain_env \<Rightarrow> bool"
  assumes I_E: "I c \<Longrightarrow> E c"
    and send_keeps: "chain_step_ok I E (send_value a v)"
    and suicide_keeps: "chain_step_ok I E (suicide_to a)"
begin

definition run_ok :: "u32 \<Rightarrow> vm \<Rightarrow> bool" where
  "run_ok lim s \<longleftrightarrow> gas_ok lim (ip s) \<and> I (chain_state s)"

definition run_end :: "u32 \<Rightarrow> vm \<Rightarrow> bool" where
  "run_end lim s \<longleftrightarrow> gas_end lim (ip s) \<and> E (chain_state s)"

sublocale run: meter run_left "run_ok lim" "run_end lim" "on_ip charge" for lim
proof unfold_locales
  fix s assume "run_ok lim s"
  then show "run_end lim s" using fuel.ok_err I_E by (simp add: run_ok_def run_end_def)
next
  fix s t s' assume "run_ok lim s" and "on_ip charge s = (Inr t, s')"
  then show "run_ok lim s' \<and> run_left s' < run_left s"
    using fuel.tick_Inr by (auto simp: on_ip_Inr run_ok_def run_left_def)
next
  fix s e s' assume "run_ok lim s" and "on_ip charge s = (Inl e, s')"
  then show "e \<noteq> OutOfFuel \<and> run_end lim s'"
    using fuel.tick_Inl I_E by (auto simp: on_ip_Inl run_ok_def run_end_def)
qed

lemmas run_rules [within_intros] =
  run.fine_ret run.fine_bnd run.fine_throw run.fine_throw_if run.fine_times run.fine_for_each
  run.fine_tick run.fine_gets run.fine_lift_sum

lemma run_on_ip [within_intros]: "fuel.fine lim n m \<Longrightarrow> run.fine lim n (on_ip m)"
  by (rule withinI)
    (auto simp: on_ip_Inr on_ip_Inl run_ok_def run_end_def run_left_def I_E dest: within_Inr within_Inl)

text \<open>A program that leaves the interpreter and the chain alone is fine if it uses no fuel.\<close>

lemma run_same_ip:
  assumes "same_ip m" and "fuelless m"
  shows "run.fine lim n m"
proof (rule withinI)
  fix s x s' assume "run_ok lim s" "m s = (Inr x, s')"
  moreover from this(2) have "ip s' = ip s \<and> chain_state s' = chain_state s"
    using assms(1) by (metis same_ip_def snd_conv)
  ultimately show "run_ok lim s' \<and> run_left s' \<le> run_left s" by (simp add: run_ok_def run_left_def)
next
  fix s e s' assume "run_ok lim s" "m s = (Inl e, s')"
  moreover from this(2) have "ip s' = ip s \<and> chain_state s' = chain_state s"
    using assms(1) by (metis same_ip_def snd_conv)
  ultimately show "e \<noteq> OutOfFuel \<and> run_end lim s'"
    using fuellessD [OF assms(2)] fuel.ok_err I_E by (auto simp: run_ok_def run_end_def)
qed

lemma run_on_heap [within_intros]: "fuelless m \<Longrightarrow> run.fine lim n (on_heap m)"
  by (rule run_same_ip)
    (auto simp: same_ip_def fuelless_def on_heap_def on_part_def split: prod.split; metis fst_conv)+

lemma run_on_chain:
  assumes "chain_step_ok I E m"
  shows "run.fine lim n (on_chain m)"
  using assms fuel.ok_err
  by (auto simp: within_def on_chain_def on_part_def chain_step_ok_def run_ok_def run_end_def run_left_def
      split: prod.split sum.split)

lemmas run_transfers [within_intros] = run_on_chain [OF send_keeps] run_on_chain [OF suicide_keeps]

lemma run_on_scopes [within_intros]: "run.fine lim n (on_scopes f)" "run.fine lim n (scope_set i x v)"
  unfolding scope_set_def on_scopes_def
  by (rule run_same_ip; simp add: same_ip_def fuelless_def modify_def)+

lemma run_with_heap [within_intros]: "(\<And>h. f h \<noteq> Inl OutOfFuel) \<Longrightarrow> run.fine lim n (with_heap f)"
  by (rule run_same_ip) (simp_all add: same_ip_def fuelless_def with_heap_def)

lemma run_obj_at [within_intros]: "run.fine lim n (obj_at a)" "run.fine lim n (truthy p)" "run.fine lim n (terminated sc)"
  unfolding obj_at_def truthy_def terminated_def by (rule within_intros)+

lemma run_push [within_intros]: "run.fine lim n (push_scope sc)" "run.fine lim n (push_child p)"
proof -
  show "run.fine lim n (push_scope sc)" for sc
    by (rule run_same_ip) (simp_all add: same_ip_def fuelless_def push_scope_def)
  then show "run.fine lim n (push_child p)"
    unfolding push_child_def by (intro within_intros) simp_all
qed

lemma run_local_scope [within_intros]:
  assumes "\<And>b. run.fine lim n (f b)"
  shows "run.fine lim n (local_scope p f)"
proof -
  have "run.fine lim n (bnd (push_child p) f)" using assms by (intro within_intros)
  then show ?thesis
    by (auto simp: within_def local_scope_def run_ok_def run_end_def run_left_def
        split: prod.split sum.split)
qed

lemma run_assert_ptr [within_intros]: "run.fine lim n (assert_ptr p)"
  by (auto simp: assert_ptr_def split: option.split intro!: within_intros)

lemma run_scope_get [within_intros]: "run.fine lim n (scope_get i name)"
  unfolding scope_get_def by (intro within_intros fuelless_intros)

section \<open>Builtins and module functions\<close>

lemma run_members [within_intros]:
  "run.fine lim n (get_module name)" "run.fine lim n (get_member a name)"
proof -
  show "run.fine lim n (get_module name)"
    unfolding get_module_def
    by (intro within_intros) (auto intro!: within_intros fuelless_intros split: option.split)
  show "run.fine lim n (get_member a name)"
    unfolding get_member_defs
    by (intro within_intros)
      (auto intro!: within_intros fuelless_intros split: obj.split module_obj.split option.split)
qed

lemma run_load [within_intros]:
  "run.fine lim n (load_from_module i m name alias)" "run.fine lim n (load_module i m alias)"
  unfolding load_from_module_def load_module_def
  by (intro within_intros; auto intro!: within_intros split: option.split)+

lemma run_with_int [within_intros]: "(\<And>i. run.fine lim n (f i)) \<Longrightarrow> run.fine lim n (with_int p f)"
  unfolding with_int_def by (intro within_intros) simp_all

lemma run_check_args [within_intros]:
  "run.fine lim n (check_num_args args k)" "run.fine lim n (check_num_minargs args k)"
  unfolding check_num_args_def check_num_minargs_def by (intro within_intros; simp)+

lemma run_print [within_intros]: "run.fine lim n (print_program_output str)"
  unfolding print_program_output_def
  by (rule run_same_ip) (simp_all add: same_ip_def fuelless_def modify_def)

lemma run_print_arg [within_intros]: "run.fine lim n (print_arg prefix p)"
  unfolding print_arg_def
  by (intro within_intros) (auto intro!: within_intros fuelless_intros split: option.split obj.split)

lemma run_print_args [within_intros]: "run.fine lim n (print_args prefix ps)"
  by (induction prefix ps rule: print_args.induct) (auto intro!: within_intros)

lemma run_builtin_range [within_intros]: "run.fine lim n (builtin_range args)"
  unfolding builtin_range_def by (auto intro!: within_intros fuelless_intros split: list.split)

lemma run_builtins [within_intros]:
  "run.fine lim n (builtin_str args)" "run.fine lim n (builtin_minmax b args)"
  "run.fine lim n (builtin_int args)" "run.fine lim n (builtin_len args)" "run.fine lim n (builtin_print args)"
  unfolding builtin_str_def builtin_minmax_def builtin_int_def builtin_len_def builtin_print_def Let_def
  by (intro within_intros fuelless_intros;
      auto intro!: within_intros fuelless_intros split: option.split obj.split)+

lemma run_builtin_call [within_intros]: "run.fine lim n (builtin_call b args)"
  unfolding builtin_call_def by (intro within_intros) (auto intro!: within_intros split: builtin_type.split)

lemma run_cast_int [within_intros]: "run.fine lim n (cast_int p)"
  unfolding cast_int_def by (intro within_intros) (simp split: option.split)

lemma run_next_rand [within_intros]: "run.fine lim n next_rand"
  by (rule run_same_ip) (simp_all add: same_ip_def fuelless_def next_rand_def)

lemma run_function_call [within_intros]: "run.fine lim n (function_call f args)"
  unfolding function_call_def randint_def
  by (auto intro!: within_intros fuelless_intros split: closure.split)

lemma run_address_arg [within_intros]: "run.fine lim n (address_arg sc)"
  unfolding address_arg_def
  by (intro within_intros) (auto intro!: within_intros split: option.split)

lemma run_check_address [within_intros]: "run.fine lim n (check_address a)"
  unfolding check_address_def by (intro within_intros) simp_all

lemma fuelless_times [fuelless_intros]: "(\<And>a. fuelless (f a)) \<Longrightarrow> fuelless (times k f a)"
  by (induction k arbitrary: a) (auto intro: fuelless_intros)

lemma fuelless_rc4 [fuelless_intros]:
  "fuelless (prng_seed_bytes key)" "fuelless prng_get_octet" "fuelless (draw_random env)"
proof -
  show seed: "fuelless (prng_seed_bytes key)" and octet: "fuelless prng_get_octet" for key
    by (simp_all add: fuelless_def prng_seed_bytes_def prng_get_octet_def Let_def)
  show "fuelless (draw_random env)"
    unfolding draw_random_def seed_prng_def prng_get_uint_def
    by (intro fuelless_intros) (auto intro!: fuelless_intros seed octet)
qed

lemma run_on_module [within_intros]: "fuelless m \<Longrightarrow> run.fine lim n (on_module a m)"
  unfolding on_module_def
  by (intro within_intros)
    (auto intro!: within_intros fuelless_intros dest: fuellessD split: obj.split module_obj.split prod.split)

lemma run_bc_call [within_intros]: "run.fine lim n (bc_call f this sc)"
  unfolding bc_call_def bc_string_def bc_int_def bc_random_def bc_assert_address_def bc_send_def bc_suicide_def
  by (auto intro!: within_intros fuelless_intros split: bc_function.split)

end

end
