(* ===== verification/Gas_Nodes.thy ===== *)
theory Gas_Nodes
  imports Gas
begin

text \<open>
  The gas meter on every node of \<open>execute_next\<close>, on calls and on function definitions, up to
  the interpreter as a whole: lemma \<open>exec_fine\<close>.
\<close>

section \<open>Entering a function leaves the chain alone\<close>

definition same_chain :: "'a exec \<Rightarrow> bool" where
  "same_chain m \<longleftrightarrow> (\<forall>s. chain_state (snd (m s)) = chain_state s)"

lemma same_chain_bnd: "same_chain m \<Longrightarrow> (\<And>x. same_chain (f x)) \<Longrightarrow> same_chain (bnd m f)"
  by (auto simp: same_chain_def bnd_def split: prod.split sum.split) (metis snd_conv)+

lemma same_chain_parts:
  "same_chain (ret x)" "same_chain (gets g)" "same_chain (lift_sum r)" "same_chain (push_scope sc)"
  "same_chain (on_scopes f)" "same_chain (on_ip i)" "same_chain (on_heap h)"
  "same_chain (scope_set k y v)" "same_chain (modify (\<lambda>s. s\<lparr>ip := j\<rparr>))"
  by (simp_all add: same_chain_def ret_def gets_def lift_sum_def push_scope_def on_scopes_def on_ip_def
      on_heap_def on_part_def scope_set_def modify_def split: prod.split)

lemma enter_function_chain:
  "enter_function code sc k lim s = (r, s') \<Longrightarrow> chain_state s' = chain_state s"
proof -
  assume run: "enter_function code sc k lim s = (r, s')"
  have "same_chain (enter_function code sc k lim)"
    unfolding enter_function_def push_child_def new_interpreter_def
    by (intro same_chain_bnd same_chain_parts)
  with run show ?thesis unfolding same_chain_def by (metis snd_conv)
qed

section \<open>The nodes\<close>

context chain_invariant
begin

definition rec_fine :: "u32 \<Rightarrow> nat \<Rightarrow> recursion \<Rightarrow> bool" where
  "rec_fine lim n rec \<longleftrightarrow> (\<forall>sc ls. run.fine lim n (rec sc ls))"

lemma rec_fine_rec: "rec_fine lim n rec \<Longrightarrow> run.fine lim n (rec sc ls)"
  by (simp add: rec_fine_def)

lemma run_eval [within_intros]:
  "rec_fine lim n rec \<Longrightarrow> run.fine lim n (eval rec sc)"
  "rec_fine lim n rec \<Longrightarrow> run.fine lim n (eval_ptr rec sc)"
  unfolding eval_ptr_def eval_def by (intro within_intros; erule rec_fine_rec)+

lemma run_exec_times [within_intros]:
  "(\<And>a. run.fine lim n (f a)) \<Longrightarrow> run.fine lim n (exec_times k f a)"
  unfolding exec_times_def by (intro within_intros)

lemma run_imports [within_intros]:
  assumes "rec_fine lim n rec"
  shows "run.fine lim n (node_import_from rec sc)" "run.fine lim n (node_import rec sc)"
    "run.fine lim n node_alias"
proof -
  have al: "run.fine lim n (load_alias sc m p)" for m p
    unfolding load_alias_def
    by (intro within_intros) (auto intro!: within_intros split: option.split obj.split)
  show "run.fine lim n (node_import_from rec sc)" "run.fine lim n (node_import rec sc)"
    "run.fine lim n node_alias"
    unfolding node_import_from_def node_import_def node_alias_def
    by (intro within_intros fuelless_intros rec_fine_rec [OF assms];
        auto intro!: within_intros al split: obj.split)+
qed

lemma run_atoms [within_intros]:
  "run.fine lim n (node_name sc)" "run.fine lim n node_string" "run.fine lim n node_integer"
  unfolding node_name_def node_string_def node_integer_def
  by (intro within_intros; auto intro!: within_intros fuelless_intros)+

lemma run_containers [within_intros]:
  assumes "rec_fine lim n rec"
  shows "run.fine lim n (node_tuple rec sc)" "run.fine lim n (node_list rec sc)"
    "run.fine lim n (node_dictionary rec sc)" "run.fine lim n (node_attribute rec sc)"
  unfolding node_tuple_def node_list_def node_dictionary_def node_attribute_def
  by (intro within_intros fuelless_intros assms)+

lemma run_subscript [within_intros]:
  "rec_fine lim n rec \<Longrightarrow> run.fine lim n (node_subscript rec sc)"
  unfolding node_subscript_def
  by (intro within_intros) (auto intro!: within_intros fuelless_intros split: obj.split)

lemma run_stores [within_intros]:
  "run.fine lim n (store_at oa k v)" "run.fine lim n (set_at oa i v)" "run.fine lim n (apply_at oa k p op)"
  unfolding store_at_def set_at_def apply_at_def
  by (intro within_intros; auto intro!: within_intros fuelless_intros split: obj.split)+

lemma run_assign_subscript [within_intros]:
  "rec_fine lim n rec \<Longrightarrow> run.fine lim n (assign_subscript rec sc v)"
  unfolding assign_subscript_def
  by (intro within_intros) (auto intro!: within_intros split: option.split obj.split)

lemma run_assign_names [within_intros]: "run.fine lim n (assign_names sc v)"
  unfolding assign_names_def
  by (intro within_intros) (auto intro!: within_intros split: list.split obj.split)

lemma run_assign [within_intros]: "rec_fine lim n rec \<Longrightarrow> run.fine lim n (node_assign rec sc)"
  unfolding node_assign_def
  by (intro within_intros fuelless_intros) (auto intro!: within_intros)

lemma run_augment_subscript [within_intros]:
  "rec_fine lim n rec \<Longrightarrow> run.fine lim n (augment_subscript rec sc op)"
  unfolding augment_subscript_def
  by (intro within_intros) (auto intro!: within_intros fuelless_intros split: option.split obj.split)

lemma run_augment_name [within_intros]:
  "rec_fine lim n rec \<Longrightarrow> run.fine lim n (augment_name rec sc op)"
  unfolding augment_name_def
  by (intro within_intros) (auto intro!: within_intros fuelless_intros split: option.split)

lemma run_augmented [within_intros]:
  "rec_fine lim n rec \<Longrightarrow> run.fine lim n (node_augmented_assign rec sc)"
  unfolding node_augmented_assign_def
  by (intro within_intros fuelless_intros) (auto intro!: within_intros)

lemma run_global [within_intros]: "run.fine lim n (node_global sc)"
  unfolding node_global_def by (intro within_intros)

lemma run_statements [within_intros]:
  assumes "rec_fine lim n rec"
  shows "run.fine lim n (node_statement_list rec sc ls)"
  unfolding node_statement_list_def
  by (intro within_intros) (auto intro!: within_intros rec_fine_rec [OF assms])

lemma run_jumps [within_intros]: "run.fine lim n (node_continue ls)" "run.fine lim n (node_break ls)"
  unfolding node_continue_def node_break_def by (auto intro!: within_intros)

lemma run_branches [within_intros]:
  assumes "rec_fine lim n rec"
  shows "run.fine lim n (node_if rec sc ls)" "run.fine lim n (node_if_else rec sc ls)"
  unfolding node_if_def node_if_else_def
  by (intro within_intros rec_fine_rec [OF assms];
      auto intro!: within_intros rec_fine_rec [OF assms] split: option.split bool.split)+

lemma run_terminate [within_intros]: "run.fine lim n (do_terminate sc)"
  unfolding do_terminate_def by (intro within_intros)

lemma run_operators [within_intros]:
  assumes "rec_fine lim n rec"
  shows "run.fine lim n (node_return rec sc)" "run.fine lim n (node_unary_op rec sc)"
    "run.fine lim n (node_binary_op rec sc)" "run.fine lim n (node_compare rec sc)"
  unfolding node_return_def node_unary_op_def node_binary_op_def node_compare_def
  by (intro within_intros fuelless_intros assms; simp)+

lemma run_bool_operand [within_intros]:
  "rec_fine lim n rec \<Longrightarrow> run.fine lim n (bool_operand rec sc b r)"
  unfolding bool_operand_def
  by (auto intro!: within_intros split: option.split)

lemma run_bool_op [within_intros]: "rec_fine lim n rec \<Longrightarrow> run.fine lim n (node_bool_op rec sc)"
  unfolding node_bool_op_def
  by (intro within_intros fuelless_intros) (auto intro!: within_intros split: option.split bool_op.split)

section \<open>The loops\<close>

lemma run_after_body [within_intros]: "run.fine lim n (after_body sc b rv r)"
  unfolding after_body_def by (intro within_intros) (auto intro!: within_intros)

lemma ticking_if: "(b \<Longrightarrow> run.ticking lim n m) \<Longrightarrow> (\<not> b \<Longrightarrow> run.ticking lim n m') \<Longrightarrow>
    run.ticking lim n (if b then m else m')"
  by simp

lemma run_while [within_intros]:
  assumes "rec_fine lim n rec"
  shows "run.fine lim n (node_while n rec sc)"
proof -
  have "run.ticking lim n (while_step rec sc start st)" for start st
    unfolding while_step_def terminated_def
    by (intro run.ticking_gets ticking_if run.ticking_stop run.ticking_tick within_intros assms)
      (auto intro!: within_intros rec_fine_rec [OF assms])
  then show ?thesis unfolding node_while_def by (intro within_intros run.fine_loop)
qed

lemma run_advance [within_intros]: "run.fine lim n (advance it)"
proof -
  have "same_ip (advance it)"
    by (auto simp: same_ip_def advance_def catch_def bnd_def on_heap_def on_part_def ret_def throw_def
        split: prod.split sum.split)
  moreover have "fuelless (advance it)"
  proof -
    have "fst (iter_next it h) \<noteq> Inl OutOfFuel" for h
      using fuelless_iter_next by (simp add: fuelless_def)
    then show ?thesis
      by (auto simp: fuelless_def advance_def catch_def bnd_def on_heap_def on_part_def ret_def throw_def
          split: prod.splits sum.splits) (metis fst_conv)+
  qed
  ultimately show ?thesis by (rule run_same_ip)
qed

lemma run_bind_targets [within_intros]: "run.fine lim n (bind_targets b names v)"
  unfolding bind_targets_def by (auto intro!: within_intros split: list.split option.split obj.split)

lemma run_for [within_intros]:
  assumes "rec_fine lim n rec"
  shows "run.fine lim n (node_for n rec sc)"
proof -
  have "run.ticking lim n (for_step rec sc names it st)" for names it st
    unfolding for_step_def terminated_def
    by (intro run.ticking_gets ticking_if run.ticking_stop run.ticking_tick within_intros)
      (auto intro!: within_intros rec_fine_rec [OF assms] split: option.split)
  then show ?thesis
    unfolding node_for_def
    by (intro within_intros run.fine_loop assms) (auto intro!: within_intros fuelless_intros)
qed

lemma run_cast_iterator [within_intros]: "run.fine lim n (cast_iterator p)"
  unfolding cast_iterator_def by (intro within_intros) (auto intro!: within_intros split: option.split)

lemma run_list_comp [within_intros]:
  assumes "rec_fine lim n rec"
  shows "run.fine lim n (node_list_comp n rec sc ls)"
proof -
  have "run.ticking lim n (comp_step rec sc target list it pos st)" for target list it pos st
    unfolding comp_step_def terminated_def
    by (intro run.ticking_gets ticking_if run.ticking_stop run.ticking_tick within_intros)
      (auto intro!: within_intros fuelless_intros rec_fine_rec [OF assms] split: option.split)
  then show ?thesis
    unfolding node_list_comp_def
    by (intro within_intros fuelless_intros run.fine_loop rec_fine_rec [OF assms]) simp_all
qed

section \<open>Calls\<close>

text \<open>
  The outcome of \<open>Callable::call\<close> when the caller passes its own step count and limit: the
  interpreter is as before, the count reported is within the limit, and after a normal return
  it is below the limit and not below the caller's.
\<close>

definition call_fine :: "u32 \<Rightarrow> vm \<Rightarrow> (exn + call_result) \<times> vm \<Rightarrow> bool" where
  "call_fine lim s out \<longleftrightarrow>
     (case out of
        (Inr (r, k), s') \<Rightarrow>
          (case r of
             Inr v \<Rightarrow> run_ok lim s' \<and> run_left s' \<le> run_left s \<and> k < lim \<and> unat lim - unat k \<le> run_left s
           | Inl e \<Rightarrow> e \<noteq> OutOfFuel \<and> run_end lim s' \<and> k \<le> lim)
      | (Inl e, s') \<Rightarrow> False)"

lemma plain_call_fine:
  assumes "run.fine lim n m" and "run_ok lim s" and "run_left s < n" and k: "k = m_num_execution_steps (ip s)"
  shows "call_fine lim s (plain_call m k s)"
proof (cases "m s")
  case (Pair r s')
  have "k < lim \<and> unat lim - unat k \<le> run_left s"
    using assms(2) by (auto simp: k run_ok_def gas_ok_def run_left_def gas_left_def)
  with Pair show ?thesis
    using within_Inr [OF assms(1-3)] within_Inl [OF assms(1-3)]
    by (cases r) (auto simp: call_fine_def plain_call_def catch_def bnd_def ret_def)
qed

lemma enter_function_Inr:
  "enter_function code sc k lim s = (Inr b, s') \<Longrightarrow>
     m_num_execution_steps (ip s') = k \<and> m_execution_step_limit (ip s') = lim"
  by (auto simp: enter_function_def bnd_eq_Inr on_ip_Inr set_execution_step_limit_def
      set_num_execution_steps_def modify_def ret_def)

lemma fuelless_on_ip [fuelless_intros]: "fuelless m \<Longrightarrow> fuelless (on_ip m)"
  by (auto simp: fuelless_def on_ip_def on_part_def split: prod.split) (metis fst_conv)

lemma fuelless_on_heap [fuelless_intros]: "fuelless m \<Longrightarrow> fuelless (on_heap m)"
  by (auto simp: fuelless_def on_heap_def on_part_def split: prod.split) (metis fst_conv)

lemma fuelless_scopes [fuelless_intros]:
  "fuelless (push_scope sc)" "fuelless (push_child p)" "fuelless (on_scopes f)" "fuelless (scope_set i x v)"
proof -
  show push: "fuelless (push_scope sc)" for sc by (simp add: fuelless_def push_scope_def)
  show "fuelless (push_child p)" unfolding push_child_def by (intro fuelless_intros push) simp_all
  show "fuelless (on_scopes f)" "fuelless (scope_set i x v)"
    unfolding scope_set_def on_scopes_def by (rule fuelless_intros)+
qed

lemma fuelless_enter: "fuelless (enter_function code sc k lim)"
  unfolding enter_function_def new_interpreter_def set_execution_step_limit_def set_num_execution_steps_def
  by (intro fuelless_intros) simp_all

lemma run_bind_arguments [within_intros]: "run.fine lim n (bind_arguments b params defaults args)"
  unfolding bind_arguments_def by (intro within_intros) simp_all

lemma vm_function_body_fine:
  assumes rec: "rec_fine lim n rec" and left: "unat lim - unat k < n" and k: "k < lim"
    and chain: "I (chain_state s)"
    and run: "vm_function_body rec code params defaults args sc k lim s = (r, s')"
  shows "case r of
      Inr (Inr v, k') \<Rightarrow> I (chain_state s') \<and> k' < lim \<and> unat lim - unat k' \<le> unat lim - unat k
    | Inr (Inl e, k') \<Rightarrow> E (chain_state s') \<and> e \<noteq> OutOfFuel \<and> k' \<le> lim
    | Inl e \<Rightarrow> E (chain_state s') \<and> e \<noteq> OutOfFuel"
proof (cases "enter_function code sc k lim s")
  case (Pair r1 s1)
  have chain1: "I (chain_state s1)" using enter_function_chain [OF Pair] chain by simp
  show ?thesis
  proof (cases r1)
    case (Inl e)
    then have "r = Inl e" "s' = s1" using run Pair by (simp_all add: vm_function_body_def bnd_def)
    then show ?thesis using fuellessD [OF fuelless_enter] Pair Inl chain1 I_E by auto
  next
    case (Inr b)
    then have s1: "run_ok lim s1" "run_left s1 < n" and left1: "run_left s1 = unat lim - unat k"
      using enter_function_Inr Pair left k chain1
      by (auto simp: run_ok_def gas_ok_def run_left_def gas_left_def)
    obtain r2 s2 where b: "bind_arguments b params defaults args s1 = (r2, s2)" by fastforce
    note fine = within_Inr [OF run_bind_arguments s1] within_Inl [OF run_bind_arguments s1]
    show ?thesis
    proof (cases r2)
      case (Inl e)
      then have "r = Inl e" "s' = s2" using run Pair Inr b by (simp_all add: vm_function_body_def bnd_def)
      then show ?thesis using fine(2) b Inl by (auto simp: run_end_def)
    next
      case r2: (Inr u)
      then have s2: "run_ok lim s2" "run_left s2 < n" and left2: "run_left s2 \<le> run_left s1"
        using fine(1) b s1(2) by fastforce+
      obtain r3 s3 where e: "eval rec b s2 = (r3, s3)" by fastforce
      have "r = Inr (r3, m_num_execution_steps (ip s3))" "s' = s3"
        using run Pair Inr b r2 e by (auto simp: vm_function_body_def bnd_def catch_def gets_def ret_def)
      then show ?thesis
        using within_Inr [OF run_eval(1) [OF rec] s2] within_Inl [OF run_eval(1) [OF rec] s2] e left1 left2
        by (cases r3) (fastforce simp: run_ok_def gas_ok_def run_end_def gas_end_def run_left_def gas_left_def)+
    qed
  qed
qed

lemma vm_function_call_fine:
  assumes "rec_fine lim n rec" and s: "run_ok lim s" "run_left s < n"
    and k: "k = m_num_execution_steps (ip s)" and lim: "l = lim"
  shows "call_fine lim s (vm_function_call rec code params defaults args sc k l s)"
proof -
  have k': "k < lim" "unat lim - unat k < n" and left: "run_left s = unat lim - unat k"
    and chain: "I (chain_state s)"
    using s by (auto simp: k run_ok_def gas_ok_def run_left_def gas_left_def)
  obtain r s' where run: "vm_function_body rec code params defaults args sc k lim s = (r, s')" by fastforce
  have "run_end lim s" using s(1) by (rule run.ok_err)
  then show ?thesis
    using vm_function_body_fine [OF assms(1) k'(2,1) chain run] run k'(1) s left
    by (cases r) (auto simp: vm_function_call_def own_interp_def bnd_def ret_def lim call_fine_def
        run_ok_def run_end_def run_left_def split: sum.splits)
qed

lemma run_c_function [within_intros]: "run.fine lim n (c_function_call params f this args sc)"
  unfolding c_function_call_def by (intro within_intros) simp_all

lemma run_items_call [within_intros]: "run.fine lim n (items_call d args)"
  unfolding items_call_def by (intro within_intros fuelless_intros) simp_all

lemma callable_call_fine:
  assumes "rec_fine lim n rec" and "run_ok lim s" and "run_left s < n"
  shows "call_fine lim s (callable_call rec c args sc (m_num_execution_steps (ip s)) (m_execution_step_limit (ip s)) s)"
proof -
  have l: "m_execution_step_limit (ip s) = lim"
    using assms(2) by (simp add: run_ok_def gas_ok_def)
  note plain = plain_call_fine [OF _ assms(2,3) refl]
  show ?thesis
    unfolding callable_call_def obj_at_def bnd_def gets_def
    by (auto split: obj.split intro!: plain within_intros vm_function_call_fine [OF assms refl refl] simp: l)
qed

lemma call_argument_fine [within_intros]:
  "rec_fine lim n rec \<Longrightarrow> run.fine lim n (bnd (eval rec sc) (\<lambda>arg. ret (args @ [arg])))"
  by (intro within_intros)

lemma run_invoke:
  assumes "rec_fine lim n rec"
  shows "run.fine lim n (invoke rec c args sc)" (is "run.fine lim n ?m")
proof -
  have "case ?m s of (Inr x, s') \<Rightarrow> run_ok lim s' \<and> run_left s' \<le> run_left s
      | (Inl e, s') \<Rightarrow> e \<noteq> OutOfFuel \<and> run_end lim s'"
    if s: "run_ok lim s" "run_left s < n" for s
  proof -
    obtain r k s' where out: "callable_call rec c args sc (m_num_execution_steps (ip s))
        (m_execution_step_limit (ip s)) s = (Inr (r, k), s')"
      and fine: "call_fine lim s (Inr (r, k), s')"
      using callable_call_fine [OF assms s, of c args sc]
      by (auto simp: call_fine_def split: prod.splits sum.splits)
    then show ?thesis
      by (cases r) (auto simp: invoke_def bnd_def gets_def throw_def ret_def call_fine_def on_ip_def on_part_def
          set_num_execution_steps_def modify_def run_end_def gas_end_def)
  qed
  then show ?thesis by (simp add: within_def)
qed

lemma run_call [within_intros]:
  assumes "rec_fine lim n rec"
  shows "run.fine lim n (node_call rec sc)"
  unfolding node_call_def
  by (intro run.fine_bnd run_invoke run_eval run_obj_at run_on_ip fuel_moves run_exec_times
      run.fine_throw_if run.fine_ret assms) simp

section \<open>Function definitions and the whole interpreter\<close>

lemma run_expect [within_intros]: "e \<noteq> OutOfFuel \<Longrightarrow> run.fine lim n (expect_type t e)"
  unfolding expect_type_def by (intro within_intros)

lemma run_rd_bytes [within_intros]: "run.fine lim n (rd_bytes k)"
  by (auto simp: within_def rd_bytes_def run_ok_def run_left_def gas_ok_def gas_left_def split: prod.split)

lemma run_read_default [within_intros]:
  assumes "rec_fine lim n rec"
  shows "run.fine lim n (read_default rec st)"
  unfolding read_default_def Let_def by (intro within_intros assms) simp

lemma run_stub [within_intros]:
  assumes "rec_fine lim n rec"
  shows "run.fine lim n (read_function_stub rec)"
  unfolding read_function_stub_def by (intro within_intros fuelless_intros assms) simp_all

lemma run_function_def [within_intros]:
  assumes "rec_fine lim n rec"
  shows "run.fine lim n (node_function_def rec sc)"
  unfolding node_function_def_def by (intro within_intros assms) simp

lemma run_same_state [within_intros]: "run.fine lim n m \<Longrightarrow> run.fine lim n (same_state ls m)"
  unfolding same_state_def by (intro within_intros)

lemma run_exec_node:
  assumes "rec_fine lim n rec"
  shows "run.fine lim n (exec_node n rec t sc ls)"
  unfolding exec_node_def
  by (auto intro!: within_intros assms split: option.split node_type.split)

lemma run_exec_step:
  assumes "rec_fine lim n rec"
  shows "run.fine lim (Suc n) (exec_step n rec sc ls)"
  unfolding exec_step_def
  by (intro run.fine_after_tick run.fine_bnd run_on_ip fuel_moves run.fine_gets run.fine_throw_if
      run_exec_node assms) (auto intro!: within_intros)

lemma exec_fine: "rec_fine lim n (exec n)"
  by (induction n) (auto simp: rec_fine_def intro: within_0 run_exec_step)

end

end
