(* ===== verification/Termination.thy ===== *)
theory Termination
  imports Gas_Nodes
begin

text \<open>
  What the step limit gives: a run with a positive limit ends, its result does not depend on
  the fuel of the model, and the step counter stays within the limit.  Also what it does not
  give: the steps of a contract function that returns are not charged to its caller.
\<close>

section \<open>More fuel does not change a run\<close>

definition rec_refines :: "recursion \<Rightarrow> recursion \<Rightarrow> bool" where
  "rec_refines rec rec' \<longleftrightarrow> (\<forall>sc ls. refines (rec sc ls) (rec' sc ls))"

lemma rec_refinesD: "rec_refines rec rec' \<Longrightarrow> refines (rec sc ls) (rec' sc ls)"
  by (simp add: rec_refines_def)

lemma refines_eval [refines_intros]:
  "rec_refines rec rec' \<Longrightarrow> refines (eval rec sc) (eval rec' sc)"
  "rec_refines rec rec' \<Longrightarrow> refines (eval_ptr rec sc) (eval_ptr rec' sc)"
  unfolding eval_ptr_def eval_def by (intro refines_bnd refines_refl; erule rec_refinesD)+

lemma refines_exec_times [refines_intros]:
  "(\<And>a. refines (f a) (f' a)) \<Longrightarrow> refines (exec_times k f b) (exec_times k f' b)"
  unfolding exec_times_def by (intro refines_times refines_bnd refines_refl)

lemma refines_local_scope [refines_intros]:
  assumes "\<And>b. refines (f b) (f' b)"
  shows "refines (local_scope p f) (local_scope p f')"
proof -
  have "refines (bnd (push_child p) f) (bnd (push_child p) f')" using assms by (intro refines_intros)
  then show ?thesis by (auto simp: refines_def local_scope_def split: prod.splits) (metis fst_conv snd_conv)+
qed

lemma refines_nodes [refines_intros]:
  assumes "rec_refines rec rec'"
  shows "refines (node_import_from rec sc) (node_import_from rec' sc)"
    "refines (node_import rec sc) (node_import rec' sc)"
    "refines (node_tuple rec sc) (node_tuple rec' sc)" "refines (node_list rec sc) (node_list rec' sc)"
    "refines (node_dictionary rec sc) (node_dictionary rec' sc)"
    "refines (node_attribute rec sc) (node_attribute rec' sc)"
    "refines (node_subscript rec sc) (node_subscript rec' sc)"
    "refines (node_return rec sc) (node_return rec' sc)"
    "refines (node_unary_op rec sc) (node_unary_op rec' sc)"
    "refines (node_binary_op rec sc) (node_binary_op rec' sc)"
    "refines (node_compare rec sc) (node_compare rec' sc)"
  unfolding node_import_from_def node_import_def node_tuple_def node_list_def node_dictionary_def
    node_attribute_def node_subscript_def node_return_def node_unary_op_def node_binary_op_def
    node_compare_def
  by (intro refines_bnd refines_refl refines_exec_times refines_eval rec_refinesD [OF assms] assms)+

lemma refines_assignments [refines_intros]:
  assumes "rec_refines rec rec'"
  shows "refines (node_assign rec sc) (node_assign rec' sc)"
    "refines (node_augmented_assign rec sc) (node_augmented_assign rec' sc)"
  unfolding node_assign_def assign_subscript_def node_augmented_assign_def augment_subscript_def
    augment_name_def
  by (intro refines_bnd refines_exec_times refines_eval refines_if refines_refl assms)+

lemma refines_branches [refines_intros]:
  assumes "rec_refines rec rec'"
  shows "refines (node_if rec sc ls) (node_if rec' sc ls)"
    "refines (node_if_else rec sc ls) (node_if_else rec' sc ls)"
    "refines (node_statement_list rec sc ls) (node_statement_list rec' sc ls)"
  unfolding node_if_def node_if_else_def node_statement_list_def
  by (intro refines_bnd refines_refl refines_exec_times rec_refinesD [OF assms];
      auto intro!: refines_bnd refines_refl rec_refinesD [OF assms] split: option.split bool.split)+

lemma refines_bool_op [refines_intros]:
  assumes "rec_refines rec rec'"
  shows "refines (node_bool_op rec sc) (node_bool_op rec' sc)"
proof -
  have "refines (bool_operand rec sc b r) (bool_operand rec' sc b r)" for b r
    unfolding bool_operand_def by (intro refines_bnd refines_if refines_refl refines_eval assms)
  then show ?thesis
    unfolding node_bool_op_def
    by (intro refines_bnd refines_refl)
      (auto intro!: refines_exec_times refines_refl split: option.split bool_op.split)
qed

lemma refines_while [refines_intros]:
  assumes "rec_refines rec rec'"
  shows "refines (node_while n rec sc) (node_while (Suc n) rec' sc)"
proof -
  have "refines (while_step rec sc start st) (while_step rec' sc start st)" for start st
    unfolding while_step_def
    by (intro refines_bnd refines_if refines_local_scope refines_eval refines_refl rec_refinesD [OF assms] assms)
  then show ?thesis unfolding node_while_def by (intro refines_bnd refines_refl refines_loop)
qed

lemma refines_for [refines_intros]:
  assumes "rec_refines rec rec'"
  shows "refines (node_for n rec sc) (node_for (Suc n) rec' sc)"
proof -
  have "refines (for_step rec sc names it st) (for_step rec' sc names it st)" for names it st
    unfolding for_step_def
    by (intro refines_bnd refines_if refines_local_scope refines_refl)
      (auto intro!: refines_bnd refines_refl rec_refinesD [OF assms] split: option.split)
  then show ?thesis
    unfolding node_for_def by (intro refines_bnd refines_refl refines_loop refines_eval assms)
qed

lemma refines_list_comp [refines_intros]:
  assumes "rec_refines rec rec'"
  shows "refines (node_list_comp n rec sc ls) (node_list_comp (Suc n) rec' sc ls)"
proof -
  have "refines (comp_step rec sc target list it pos st) (comp_step rec' sc target list it pos st)"
    for target list it pos st
    unfolding comp_step_def
    by (intro refines_bnd refines_if refines_refl)
      (auto intro!: refines_bnd refines_refl refines_local_scope rec_refinesD [OF assms] split: option.split)
  then show ?thesis
    unfolding node_list_comp_def
    by (intro refines_bnd refines_refl refines_loop rec_refinesD [OF assms])
qed

text \<open>A call reports a callee that ran out of fuel as an outcome, which its caller throws.\<close>

definition call_refines :: "call_result exec \<Rightarrow> call_result exec \<Rightarrow> bool" where
  "call_refines m m' \<longleftrightarrow> (\<forall>s. (\<exists>k s'. m s = (Inr (Inl OutOfFuel, k), s')) \<or> m s = m' s)"

lemma vm_function_call_refines:
  assumes "rec_refines rec rec'"
  shows "call_refines (vm_function_call rec code params defaults args sc k lim)
    (vm_function_call rec' code params defaults args sc k lim)"
  unfolding call_refines_def
proof
  fix s
  let ?body = "\<lambda>rec. vm_function_body rec code params defaults args sc k lim"
  have "(\<exists>k s'. ?body rec s = (Inr (Inl OutOfFuel, k), s')) \<or> ?body rec s = ?body rec' s"
  proof (cases "enter_function code sc k lim s")
    case enter: (Pair r1 s1)
    show ?thesis
    proof (cases r1)
      case (Inr b)
      obtain r2 s2 where bind: "bind_arguments b params defaults args s1 = (r2, s2)" by fastforce
      have "refines (eval rec b) (eval rec' b)" using assms by (rule refines_eval)
      then have "fst (eval rec b s2) = Inl OutOfFuel \<or> eval rec b s2 = eval rec' b s2"
        by (simp add: refines_def)
      then show ?thesis
      proof
        assume "fst (eval rec b s2) = Inl OutOfFuel"
        then show ?thesis
          by (cases r2; cases "eval rec b s2")
            (simp_all add: vm_function_body_def bnd_def enter Inr bind catch_def gets_def ret_def)
      next
        assume "eval rec b s2 = eval rec' b s2"
        then show ?thesis
          by (cases r2) (simp_all add: vm_function_body_def bnd_def enter Inr bind catch_def)
      qed
    qed (simp add: vm_function_body_def bnd_def enter)
  qed
  then show "(\<exists>k' s'. vm_function_call rec code params defaults args sc k lim s = (Inr (Inl OutOfFuel, k'), s')) \<or>
      vm_function_call rec code params defaults args sc k lim s = vm_function_call rec' code params defaults args sc k lim s"
    by (auto simp: vm_function_call_def own_interp_def bnd_def ret_def split: prod.splits)
qed

lemma callable_call_refines:
  assumes "rec_refines rec rec'"
  shows "call_refines (callable_call rec c args sc k lim) (callable_call rec' c args sc k lim)"
  using vm_function_call_refines [OF assms]
  by (auto simp: call_refines_def callable_call_def obj_at_def bnd_def gets_def split: obj.split)

text \<open>So whatever throws the exception of the outcome refines.\<close>

lemma refines_after_call:
  assumes "call_refines m m'" and "\<And>k s. fst (f (Inl OutOfFuel, k) s) = Inl OutOfFuel"
  shows "refines (bnd m f) (bnd m' f)"
  unfolding refines_def
proof
  fix s
  consider k s' where "m s = (Inr (Inl OutOfFuel, k), s')" | "m s = m' s"
    using assms(1) unfolding call_refines_def by blast
  then show "fst (bnd m f s) = Inl OutOfFuel \<or> bnd m f s = bnd m' f s"
    by cases (simp_all add: bnd_def assms(2))
qed

lemma refines_call [refines_intros]:
  assumes "rec_refines rec rec'"
  shows "refines (node_call rec sc) (node_call rec' sc)"
  unfolding node_call_def invoke_def
  by (intro refines_bnd refines_refl refines_eval refines_exec_times refines_after_call
      callable_call_refines assms) (simp add: bnd_def on_ip_def on_part_def set_num_execution_steps_def
      modify_def throw_def)

lemma refines_function_def [refines_intros]:
  assumes "rec_refines rec rec'"
  shows "refines (node_function_def rec sc) (node_function_def rec' sc)"
  unfolding node_function_def_def read_function_stub_def read_default_def Let_def
  by (intro refines_bnd refines_refl refines_eval refines_exec_times assms)

lemma refines_same_state [refines_intros]:
  "refines m m' \<Longrightarrow> refines (same_state ls m) (same_state ls m')"
  unfolding same_state_def by (intro refines_bnd refines_refl)

lemma refines_exec_node:
  assumes "rec_refines rec rec'"
  shows "refines (exec_node n rec t sc ls) (exec_node (Suc n) rec' t sc ls)"
  unfolding exec_node_def
  by (auto intro!: refines_same_state refines_nodes refines_assignments refines_branches refines_bool_op
      refines_while refines_for refines_list_comp refines_call refines_function_def refines_eval
      refines_refl assms split: option.split node_type.split)

lemma exec_refines: "rec_refines (exec n) (exec (Suc n))"
proof (induction n)
  case (Suc n)
  have "refines (exec_step n (exec n) sc ls) (exec_step (Suc n) (exec (Suc n)) sc ls)" for sc ls
    unfolding exec_step_def by (intro refines_bnd refines_refl refines_exec_node Suc)
  then show ?case by (auto simp only: rec_refines_def exec.simps)
qed (simp add: rec_refines_def refines_out_of_fuel)

section \<open>\<open>execute\<close> and \<open>calldata\<close>\<close>

context chain_invariant
begin

lemma run_execute: "run.fine lim n (execute n)"
  unfolding execute_def by (intro within_intros exec_fine)

end

lemma refines_execute: "refines (execute n) (execute (Suc n))"
  unfolding execute_def by (intro refines_bnd refines_refl refines_eval exec_refines)

lemma fuelless_plain_readers [fuelless_intros]: "fuelless get_i64" "fuelless get_f64" "fuelless get_bool"
  by (auto simp: fuelless_def get_i64_def get_f64_def get_bool_def read_pod_def eof_error_def
      split: prod.split)

context chain_invariant
begin

lemma run_read_from [within_intros]: "fuelless r \<Longrightarrow> run.fine lim n (read_from r bs)"
  unfolding read_from_def
  by (auto intro!: within_intros split: prod.split sum.split dest: fuellessD)

lemma run_read_argument [within_intros]: "run.fine lim n (read_argument bs)"
  unfolding read_argument_def
  by (intro within_intros fuelless_intros) (auto intro!: within_intros fuelless_intros)

lemma run_invoke_data:
  assumes "rec_fine lim n rec"
  shows "run.fine lim n (invoke_data rec c args sc)" (is "run.fine lim n ?m")
proof -
  have "case ?m s of (Inr x, s') \<Rightarrow> run_ok lim s' \<and> run_left s' \<le> run_left s
      | (Inl e, s') \<Rightarrow> e \<noteq> OutOfFuel \<and> run_end lim s'"
    if s: "run_ok lim s" "run_left s < n" for s
  proof -
    obtain r k s' where out: "callable_call rec c args sc (m_num_execution_steps (ip s))
        (m_execution_step_limit (ip s)) s = (Inr (r, k), s')"
      and fine: "call_fine lim s (Inr (r, k), s')"
      using callable_call_fine [OF assms s, of c args sc]
      by (auto simp: call_fine_def split: prod.splits sum.splits)
    then show ?thesis
      by (cases r) (auto simp: invoke_data_def bnd_def gets_def lift_sum_def call_fine_def on_ip_def on_part_def
          set_num_execution_steps_def modify_def run_end_def gas_end_def run_ok_def gas_ok_def
          run_left_def gas_left_def)
  qed
  then show ?thesis by (simp add: within_def)
qed

lemma run_calldata: "run.fine lim n (calldata n data)"
  unfolding calldata_def
  by (intro run.fine_bnd)
    (auto intro!: within_intros fuelless_intros run_invoke_data exec_fine
      simp: Let_def split: option.split)

end

lemma refines_calldata: "refines (calldata n data) (calldata (Suc n) data)"
  unfolding calldata_def invoke_data_def
  by (intro refines_bnd refines_refl)
    (auto intro!: refines_bnd refines_refl refines_after_call callable_call_refines exec_refines
      simp: Let_def bnd_def on_ip_def on_part_def set_num_execution_steps_def modify_def lift_sum_def
      split: option.split simp del: exec.simps)

section \<open>Two invariants of the chain\<close>

text \<open>
  No invariant at all, for the properties of gas; and the one that follows from
  \<open>send_conserves_value\<close> and \<open>suicide_pays_everything\<close>: a transfer that returns moves value
  between the balance and the receivers, one that throws never adds any.
\<close>

lemma send_value_fuelless: "fuelless (send_value a v)"
  unfolding send_value_def
  by (intro fuelless_intros) (simp_all add: fuelless_def credit_def debit_def split: option.split)

lemma suicide_to_fuelless: "fuelless (suicide_to a)"
  unfolding suicide_to_def
  by (intro fuelless_intros) (simp_all add: fuelless_def credit_def split: option.split)

interpretation plain: chain_invariant "\<lambda>_. True" "\<lambda>_. True"
proof
  show "chain_step_ok (\<lambda>_. True) (\<lambda>_. True) (send_value a v)" for a v
    by (auto simp: chain_step_ok_def split: prod.split sum.split dest!: fuellessD [OF send_value_fuelless])
  show "chain_step_ok (\<lambda>_. True) (\<lambda>_. True) (suicide_to a)" for a
    by (auto simp: chain_step_ok_def split: prod.split sum.split dest!: fuellessD [OF suicide_to_fuelless])
qed simp

section \<open>Properties\<close>

definition demo_vm :: "u8 list \<Rightarrow> u32 \<Rightarrow> vm" where
  "demo_vm code lim =
     \<lparr>heap = [PersistVal empty_persist],
      scopes = [root_scope\<lparr>m_values := [''store'' \<mapsto> Some 0]\<rparr>],
      program_output = [], chain_state = demo_env, rand_stream = (\<lambda>_. 7), rand_pos = 0,
      addr_check = (\<lambda>_. True),
      ip = \<lparr>m_data = bitstream_of code, m_num_execution_steps = 0, m_execution_step_limit = lim,
            m_loaded_modules = Map.empty, m_store = 0, m_global_scope = 0\<rparr>\<rparr>"

text \<open>
  C2: with a step limit that is not yet used up, running a program ends, whatever its bytes:
  fuel above the steps that are left is never exhausted, any larger fuel gives the same result
  and the same final state, and the run leaves the limit alone and the counter at most at it.
\<close>

theorem gas_bounds_execution:
  assumes "m_num_execution_steps (ip s) < m_execution_step_limit (ip s)"
    and "unat (m_execution_step_limit (ip s)) - unat (m_num_execution_steps (ip s)) < n"
  shows "fst (execute n s) \<noteq> Inl OutOfFuel \<and> (\<forall>k\<ge>n. execute k s = execute n s) \<and>
    m_execution_step_limit (ip (snd (execute n s))) = m_execution_step_limit (ip s) \<and>
    m_num_execution_steps (ip (snd (execute n s))) \<le> m_execution_step_limit (ip s)"
proof -
  let ?lim = "m_execution_step_limit (ip s)"
  have s: "plain.run_ok ?lim s" "run_left s < n"
    using assms by (simp_all add: plain.run_ok_def gas_ok_def run_left_def gas_left_def)
  obtain r s' where run: "execute n s = (r, s')" by fastforce
  have out: "r \<noteq> Inl OutOfFuel \<and> plain.run_end ?lim s'"
    using within_Inr [OF plain.run_execute s] within_Inl [OF plain.run_execute s] run plain.run.ok_err
    by (cases r) auto
  moreover have "execute k s = execute n s" if "n \<le> k" for k
    using refines_chain [of execute n s k, OF refines_execute] out run that by simp
  ultimately show ?thesis using run by (auto simp: plain.run_end_def gas_end_def)
qed

theorem gas_bounds_execution_witness:
  "fst (execute 11 (demo_vm (be32 (node_code NT_StatementList) @ be32 4000000000) 10)) \<noteq> Inl OutOfFuel"
  by (rule gas_bounds_execution [THEN conjunct1]) (simp_all add: demo_vm_def)

text \<open>
  C15: the same for the function call that \<open>calldata\<close> decodes and makes, for any bytes as call
  data: it ends, its result does not depend on the fuel, and the step counter, which is now set
  from the callee's count, stays within the limit.
\<close>

theorem gas_bounds_calls:
  assumes "m_num_execution_steps (ip s) < m_execution_step_limit (ip s)"
    and "unat (m_execution_step_limit (ip s)) - unat (m_num_execution_steps (ip s)) < n"
  shows "fst (calldata n data s) \<noteq> Inl OutOfFuel \<and> (\<forall>k\<ge>n. calldata k data s = calldata n data s) \<and>
    m_execution_step_limit (ip (snd (calldata n data s))) = m_execution_step_limit (ip s) \<and>
    m_num_execution_steps (ip (snd (calldata n data s))) \<le> m_execution_step_limit (ip s)"
proof -
  let ?lim = "m_execution_step_limit (ip s)"
  have s: "plain.run_ok ?lim s" "run_left s < n"
    using assms by (simp_all add: plain.run_ok_def gas_ok_def run_left_def gas_left_def)
  obtain r s' where run: "calldata n data s = (r, s')" by fastforce
  have out: "r \<noteq> Inl OutOfFuel \<and> plain.run_end ?lim s'"
    using within_Inr [OF plain.run_calldata s] within_Inl [OF plain.run_calldata s] run plain.run.ok_err
    by (cases r) auto
  moreover have "calldata k data s = calldata n data s" if "n \<le> k" for k
    using refines_chain [of "\<lambda>n. calldata n data" n s k, OF refines_calldata] out run that by simp
  ultimately show ?thesis using run by (auto simp: plain.run_end_def gas_end_def)
qed

theorem gas_bounds_calls_witness:
  "fst (calldata 11 [1, 2, 3] (demo_vm [] 10)) \<noteq> Inl OutOfFuel"
  by (rule gas_bounds_calls [THEN conjunct1]) (simp_all add: demo_vm_def)

lemma vm_function_call_ip:
  "vm_function_call rec code params defaults args sc k lim s = (r, s') \<Longrightarrow> ip s' = ip s"
  by (auto simp: vm_function_call_def own_interp_def bnd_def ret_def split: prod.splits)


text \<open>The shortest call: a function whose body is one \<open>pass\<close>, which takes one step.\<close>

definition demo_call_vm :: vm where
  "demo_call_vm =
     (demo_vm [] 100)
       \<lparr>heap := [PersistVal empty_persist, CallableVMFunction [0, 0, 0, 0] [] []],
        ip := (ip (demo_vm [] 100))\<lparr>m_num_execution_steps := 3\<rparr>\<rparr>"

lemma read_pass: "get_u32 \<lparr>bytecode = [0, 0, 0, 0], getp = 0, putp = p, failed = False\<rparr> =
   (Inr 0, \<lparr>bytecode = [0, 0, 0, 0], getp = 4, putp = p, failed = False\<rparr>)"
  by (simp add: get_u32_def read_pod_def raw_read_def)

lemma node_type_of_0: "node_type_of 0 = Some NT_Pass"
  using node_type_of_code [of NT_Pass] by simp

lemmas call_evaluation =
  invoke_def callable_call_def vm_function_call_def own_interp_def vm_function_body_def
  enter_function_def push_child_def child_scope_def push_scope_def new_interpreter_def scope_set_def
  set_value.simps put_value_def require_global_def set_execution_step_limit_def
  set_num_execution_steps_def bind_arguments_def eval_def exec_step_def exec_node_def charge_def
  data_pos_def rd_u32_def get_depth_def bs_pos_def bitstream_of_def root_scope_def

lemmas program_evaluation =
  bnd_def gets_def obj_at_def lift_sum_def on_scopes_def modify_def on_heap_def on_part_def halloc_def
  on_ip_def on_data_def throw_if_def ret_def catch_def Let_def

lemma demo_call: "\<exists>s'. invoke (exec 1) 1 [] 0 demo_call_vm = (Inr None, s')"
  by (simp add: call_evaluation program_evaluation demo_call_vm_def demo_vm_def read_pass node_type_of_0)


section \<open>Value\<close>

definition no_money_made :: "nat \<Rightarrow> nat \<Rightarrow> chain_env \<Rightarrow> bool" where
  "no_money_made sum0 bal0 c \<longleftrightarrow> money c \<le> sum0 \<and> unat (contract_balance c) \<le> bal0"

definition money_kept :: "nat \<Rightarrow> nat \<Rightarrow> chain_env \<Rightarrow> bool" where
  "money_kept sum0 bal0 c \<longleftrightarrow>
     sm_sound (send_map c) \<and> money c = sum0 \<and> unat (contract_balance c) \<le> bal0"

lemma money_failed_credit:
  assumes "sm_sound (send_map c)" and "credit msg a v c = (Inl e, c')"
  shows "money c' \<le> money c \<and> contract_balance c' = contract_balance c"
proof -
  obtain old where old: "sm_find (send_map c) a = Some old" "old + v \<le> old"
    "c' = c\<lparr>send_map := sm_put a (old + v) (send_map c)\<rparr>"
    using assms(2) by (auto simp: credit_def split: option.splits if_splits)
  then show ?thesis
    using sm_total_put [OF assms(1), of a "old + v"] by (simp add: money_def word_le_nat_alt)
qed

lemma credit_sound: "sm_sound (send_map c) \<Longrightarrow> sm_sound (send_map (snd (credit msg a v c)))"
  by (simp add: credit_def split: option.split)

lemma send_value_sound: "sm_sound (send_map c) \<Longrightarrow> sm_sound (send_map (snd (send_value a v c)))"
  using credit_sound [of c receiver_overflow a v]
  by (auto simp: send_value_def bnd_def gets_def throw_if_def throw_def ret_def debit_def
      split: prod.split sum.split)

lemma send_value_Inl_money:
  assumes snd: "sm_sound (send_map c)" and run: "send_value a v c = (Inl e, c')"
  shows "money c' \<le> money c \<and> contract_balance c' = contract_balance c"
proof (cases "sint v \<le> 0 \<or> contract_balance c < v")
  case True
  then have "send_value a v c = (Inl send_nothing, c)"
    by (auto simp: send_value_def bnd_def gets_def throw_if_def throw_def)
  with run show ?thesis by simp
next
  case False
  then have eq: "send_value a v c = bnd (credit receiver_overflow a v) (\<lambda>_. debit v) c"
    by (simp add: send_value_def bnd_def gets_def throw_if_def ret_def)
  obtain r c1 where credit: "credit receiver_overflow a v c = (r, c1)" by fastforce
  show ?thesis
  proof (cases r)
    case (Inl e1)
    with credit eq run have "c' = c1" by (simp add: bnd_def)
    then show ?thesis using money_failed_credit [OF snd] credit Inl by blast
  next
    case (Inr u)
    have "0 < v" "v \<le> contract_balance c1"
      using False sint_pos_word credit_balance [of receiver_overflow a v c] credit by auto
    with credit eq run Inr debit_ok(1) show ?thesis by (simp add: bnd_def)
  qed
qed

lemma suicide_to_money:
  assumes snd: "sm_sound (send_map c)" and run: "suicide_to a c = (r, c')"
  shows "(\<exists>e. r = Inl e \<and> e \<noteq> OutOfFuel) \<and> money c' \<le> money c \<and> contract_balance c' \<le> contract_balance c"
proof -
  obtain r1 c1 where credit: "credit suicide_overflow a (contract_balance c) c = (r1, c1)" by fastforce
  show ?thesis
  proof (cases r1)
    case (Inl e1)
    with credit run have eq: "r = Inl e1" "c' = c1" by (simp_all add: suicide_to_def bnd_def gets_def)
    then show ?thesis
      using money_failed_credit [OF snd, of suicide_overflow a "contract_balance c" e1 c1] credit Inl run
        fuellessD [OF suicide_to_fuelless] by auto
  next
    case (Inr u)
    with credit run have eq: "r = Inl SuicideException" "c' = c1\<lparr>contract_balance := 0\<rparr>"
      by (simp_all add: suicide_to_def bnd_def gets_def modify_def throw_def)
    then show ?thesis
      using credit_Inr [OF snd, of suicide_overflow a "contract_balance c" c1] credit Inr
      by (simp add: money_def)
  qed
qed

lemma send_value_kept: "chain_step_ok (money_kept sum0 bal0) (no_money_made sum0 bal0) (send_value a v)"
  unfolding chain_step_ok_def
proof (intro allI impI)
  fix c assume c: "money_kept sum0 bal0 c"
  obtain r c' where run: "send_value a v c = (r, c')" by fastforce
  have snd: "sm_sound (send_map c)" using c by (simp add: money_kept_def)
  show "case send_value a v c of (Inr x, c') \<Rightarrow> money_kept sum0 bal0 c'
      | (Inl e, c') \<Rightarrow> e \<noteq> OutOfFuel \<and> no_money_made sum0 bal0 c'"
  proof (cases r)
    case (Inl e)
    then show ?thesis
      using send_value_Inl_money [OF snd] fuellessD [OF send_value_fuelless] run c
      by (auto simp: money_kept_def no_money_made_def)
  next
    case (Inr x)
    then have "unat (contract_balance c') + unat v = unat (contract_balance c)" "money c' = money c"
      using send_value_effect [OF snd, of v a] run by simp_all
    moreover have "sm_sound (send_map c')" using send_value_sound [OF snd, of a v] run by simp
    ultimately show ?thesis using run Inr c by (simp add: money_kept_def)
  qed
qed

interpretation value_kept: chain_invariant "money_kept sum0 bal0" "no_money_made sum0 bal0" for sum0 bal0
proof
  show "money_kept sum0 bal0 c \<Longrightarrow> no_money_made sum0 bal0 c" for c
    by (simp add: money_kept_def no_money_made_def)
  show "chain_step_ok (money_kept sum0 bal0) (no_money_made sum0 bal0) (send_value a v)" for a v
    by (rule send_value_kept)
  show "chain_step_ok (money_kept sum0 bal0) (no_money_made sum0 bal0) (suicide_to a)" for a
    unfolding chain_step_ok_def
  proof (intro allI impI)
    fix c assume c: "money_kept sum0 bal0 c"
    obtain r c' where run: "suicide_to a c = (r, c')" by fastforce
    have "sm_sound (send_map c)" using c by (simp add: money_kept_def)
    from suicide_to_money [OF this run] c
    show "case suicide_to a c of (Inr x, c') \<Rightarrow> money_kept sum0 bal0 c'
        | (Inl e, c') \<Rightarrow> e \<noteq> OutOfFuel \<and> no_money_made sum0 bal0 c'"
      by (auto simp: run money_kept_def no_money_made_def word_le_nat_alt)
  qed
qed



end
