(* ===== verification/Contract.thy ===== *)
theory Contract
  imports Termination
begin

text \<open>
  \<open>execute_program\<close> (\<^verbatim>\<open>src/shell/library.cpp\<close>), the entry point of the library: one run of a
  contract with its chain parameters, gas, stored state and call data.

  Three things it calls are not part of the repository's own code and are arguments:
  \<open>uncompress\<close> (snappy), and \<open>load\<close> and \<open>save\<close> (the boost archives of the four maps of the
  storage).  The address check of the bitcoin library depends on the network chosen.
\<close>

section \<open>Model\<close>

datatype net_type = MAIN | TEST | REGTEST

text \<open>What the call leaves behind: the exit code and the output parameters.\<close>

record receipt =
  exit_code :: nat
  used_g :: u64
  new_storage :: "u8 list"
  error_text :: string

text \<open>\<open>what()\<close>; the first three exception classes carry their own text.\<close>

definition what :: "exn \<Rightarrow> string" where
  "what e =
     (case e of
        RuntimeError msg \<Rightarrow> msg
      | ValueException msg \<Rightarrow> msg
      | LanguageException msg \<Rightarrow> msg
      | OutOfGasException \<Rightarrow> ''Contract execution has been aborted because the VM ran out of gas!''
      | RevertException \<Rightarrow> ''Contract execution has been reverted!''
      | SuicideException \<Rightarrow> ''Contract has suicided and will go into hibernation mode now.''
      | _ \<Rightarrow> ''std::exception'')"

text \<open>The exceptions a handler catches: a trap or an exhausted stack ends the process.\<close>

definition crash :: "exn \<Rightarrow> bool" where
  "crash e \<longleftrightarrow> e \<in> {StackOverflow, ArithmeticTrap, OutOfFuel}"

definition exit_code_of :: "exn \<Rightarrow> nat" where
  "exit_code_of e =
     (case e of OutOfGasException \<Rightarrow> 0x70 | SuicideException \<Rightarrow> 0x69 | RevertException \<Rightarrow> 0x71 | _ \<Rightarrow> 0x80)"

text \<open>The gas is the product of two 32-bit numbers, computed in 32 bits and then widened.\<close>

definition gas_used :: "u32 \<Rightarrow> u32 \<Rightarrow> u64" where
  "gas_used steps gasprice = ucast (steps * gasprice)"

definition storage_at :: "vm \<Rightarrow> addr \<Rightarrow> persist" where
  "storage_at s a = (case heap s ! a of PersistVal p \<Rightarrow> p | _ \<Rightarrow> empty_persist)"

definition receipt_of :: "(persist \<Rightarrow> u8 list) \<Rightarrow> u32 \<Rightarrow> addr \<Rightarrow> nat \<Rightarrow> string \<Rightarrow> vm \<Rightarrow> receipt" where
  "receipt_of save gasprice st code err s =
     \<lparr>exit_code = code, used_g = gas_used (m_num_execution_steps (ip s)) gasprice,
      new_storage = save (storage_at s st), error_text = err\<rparr>"

text \<open>The state before the interpreter is constructed: nothing on the heap, no scopes.\<close>

definition initial_vm :: "(net_type \<Rightarrow> string \<Rightarrow> bool) \<Rightarrow> (nat \<Rightarrow> u32) \<Rightarrow> net_type \<Rightarrow> chain_env \<Rightarrow> vm" where
  "initial_vm check rands network blkchn =
     \<lparr>heap = [], scopes = [], program_output = [],
      chain_state = blkchn\<lparr>send_map := []\<rparr>, rand_stream = rands, rand_pos = 0,
      addr_check = check network,
      ip = \<lparr>m_data = bitstream_of [], m_num_execution_steps = 0, m_execution_step_limit = 0,
            m_loaded_modules = Map.empty, m_store = 0, m_global_scope = 0\<rparr>\<rparr>"

definition load_old_storage :: "(u8 list \<Rightarrow> exn + persist) \<Rightarrow> addr \<Rightarrow> u8 list \<Rightarrow> unit exec" where
  "load_old_storage load st old =
     (if old = [] then ret ()
      else bnd (lift_sum (load old)) (\<lambda>p. on_heap (hset st (PersistVal p))))"

text \<open>\<open>limit /= gasprice\<close> in 64 bits, and the cast to \<open>uint32_t\<close>.\<close>

definition step_limit :: "u64 \<Rightarrow> u32 \<Rightarrow> exn + u32" where
  "step_limit gas gasprice =
     (if gasprice = 0 then Inl ArithmeticTrap else Inr (ucast (gas div ucast gasprice)))"

definition prepare :: "(u8 list \<Rightarrow> exn + persist) \<Rightarrow> u8 list \<Rightarrow> u64 \<Rightarrow> u32 \<Rightarrow> u8 list \<Rightarrow> addr exec" where
  "prepare load code gas gasprice old =
     bnd (new_interpreter code) (\<lambda>_.
     bnd (gets (\<lambda>s. m_store (ip s))) (\<lambda>st.
     bnd (load_old_storage load st old) (\<lambda>_.
     bnd (lift_sum (step_limit gas gasprice)) (\<lambda>limit.
     bnd (on_ip (set_execution_step_limit limit)) (\<lambda>_.
     bnd register_blockchain_module (\<lambda>_. ret st))))))"

text \<open>The \<open>try\<close> block.\<close>

definition run_contract :: "nat \<Rightarrow> u8 list \<Rightarrow> valueptr exec" where
  "run_contract fuel data = bnd (execute fuel) (\<lambda>_. calldata fuel data)"

definition guarded_run :: "(persist \<Rightarrow> u8 list) \<Rightarrow> nat \<Rightarrow> u32 \<Rightarrow> addr \<Rightarrow> u8 list \<Rightarrow> receipt exec" where
  "guarded_run save fuel gasprice st data =
     bnd (catch (run_contract fuel data)) (\<lambda>r.
     bnd (gets (\<lambda>s. s)) (\<lambda>s.
       case r of
         Inr v \<Rightarrow> ret (receipt_of save gasprice st 0 [] s)
       | Inl e \<Rightarrow>
           (if crash e then throw e
            else ret (receipt_of save gasprice st (exit_code_of e)
                        (''ContractError: '' @ what e @ [char_of (10 :: nat)]) s))))"

definition execute_program ::
    "(u8 list \<Rightarrow> u8 list) \<Rightarrow> (u8 list \<Rightarrow> exn + persist) \<Rightarrow> (persist \<Rightarrow> u8 list) \<Rightarrow> nat \<Rightarrow>
     u8 list \<Rightarrow> u64 \<Rightarrow> u32 \<Rightarrow> u8 list \<Rightarrow> u8 list \<Rightarrow> receipt exec" where
  "execute_program uncompress load save fuel raw gas gasprice old_storage data =
     bnd (prepare load (uncompress raw) gas gasprice old_storage) (\<lambda>st.
       guarded_run save fuel gasprice st data)"

section \<open>Preparing a run\<close>

lemma fuelless_new_interpreter [fuelless_intros]: "fuelless (new_interpreter code)"
  unfolding new_interpreter_def by (intro fuelless_intros)

lemma fuelless_settings [fuelless_intros]:
  "fuelless (set_execution_step_limit lim)" "fuelless (set_module name a)" "fuelless (obj_at a)"
  unfolding set_execution_step_limit_def set_module_def obj_at_def
  by (intro fuelless_intros; simp)+

lemma fuelless_register [fuelless_intros]: "fuelless register_blockchain_module"
  unfolding register_blockchain_module_def add_function_def
  by (intro fuelless_intros) (auto intro!: fuelless_intros split: obj.split module_obj.split prod.split)

lemma fuelless_prepare:
  "load old \<noteq> Inl OutOfFuel \<Longrightarrow> fuelless (prepare load code gas price old)"
  unfolding prepare_def load_old_storage_def step_limit_def
  by (intro fuelless_intros) (auto intro!: fuelless_intros)

lemma run_register: "plain.run.fine lim n register_blockchain_module"
  unfolding register_blockchain_module_def add_function_def
  by (intro plain.run_rules plain.run_on_ip plain.run_on_heap fuelless_intros fuel_settings)
    (auto intro!: plain.run_rules plain.run_on_heap plain.run_obj_at fuelless_intros
      split: obj.split module_obj.split prod.split)

lemma prepare_Inr:
  assumes "prepare load code gas price old s = (Inr st, s')"
  shows "\<exists>lim. step_limit gas price = Inr lim \<and> 0 < lim \<and> plain.run_ok lim s' \<and> run_left s' \<le> unat lim"
proof -
  have "\<exists>u. register_blockchain_module u = (Inr (), s') \<and> m_num_execution_steps (ip u) = 0 \<and>
      step_limit gas price = Inr (m_execution_step_limit (ip u)) \<and> m_execution_step_limit (ip u) \<noteq> 0"
    using assms
    by (auto simp: prepare_def bnd_eq_Inr lift_sum_def gets_def ret_def load_old_storage_def
        new_interpreter_def modify_def scope_set_def on_scopes_def on_heap_def on_part_def
        set_execution_step_limit_def throw_if_def throw_def on_ip_def split: if_splits prod.splits)
  then obtain u where reg: "register_blockchain_module u = (Inr (), s')"
    and u: "m_num_execution_steps (ip u) = 0" "m_execution_step_limit (ip u) \<noteq> 0"
    and lim: "step_limit gas price = Inr (m_execution_step_limit (ip u))" by blast
  let ?lim = "m_execution_step_limit (ip u)"
  have pos: "0 < ?lim" using u(2) by (simp add: word_gt_0)
  have ok: "plain.run_ok ?lim u" and left: "run_left u = unat ?lim"
    using pos u by (simp_all add: plain.run_ok_def gas_ok_def run_left_def gas_left_def)
  have "plain.run_ok ?lim s' \<and> run_left s' \<le> unat ?lim"
    using within_Inr [OF run_register ok _ reg, of "Suc (unat ?lim)"] left by simp
  with lim pos show ?thesis by blast
qed

section \<open>Runs\<close>

lemma run_contract_fine: "plain.run.fine lim n (run_contract n data)"
  unfolding run_contract_def
  by (intro plain.run.fine_bnd plain.run_execute plain.run_calldata)

lemma run_contract_refines: "refines (run_contract n data) (run_contract (Suc n) data)"
  unfolding run_contract_def by (intro refines_bnd refines_execute refines_calldata)

lemma guarded_run_cases:
  assumes "run_contract n data s = (r, s')"
  shows "guarded_run save n price st data s =
    (case r of
       Inr v \<Rightarrow> (Inr (receipt_of save price st 0 [] s'), s')
     | Inl e \<Rightarrow>
         if crash e then (Inl e, s')
         else (Inr (receipt_of save price st (exit_code_of e)
                (''ContractError: '' @ what e @ [char_of (10 :: nat)]) s'), s'))"
  using assms by (auto simp: guarded_run_def bnd_def catch_def gets_def ret_def throw_def split: sum.split)

lemma run_contract_gas:
  assumes "plain.run_ok lim s" and "run_left s < n" and "run_contract n data s = (r, s')"
  shows "r \<noteq> Inl OutOfFuel \<and> m_num_execution_steps (ip s') \<le> lim"
  using within_Inr [OF run_contract_fine assms(1,2)] within_Inl [OF run_contract_fine assms(1,2)] assms(3)
  by (cases r) (auto simp: plain.run_end_def plain.run_ok_def gas_end_def gas_ok_def intro: less_imp_le)

lemma unat_widen [simp]: "unat (ucast (w :: u32) :: u64) = unat w"
  using unat_less_32 [of w] by (simp add: unsigned_ucast_eq take_bit_nat_eq_self_iff)

lemma step_limit_gas:
  assumes "step_limit gas price = Inr lim" and "gas < 2 ^ 32"
  shows "unat lim * unat price \<le> unat gas"
proof -
  have price: "price \<noteq> 0" and lim: "lim = ucast (gas div ucast price)"
    using assms(1) by (auto simp: step_limit_def split: if_splits)
  have "unat lim \<le> unat (gas div ucast price)"
    unfolding lim by (simp add: unsigned_ucast_eq take_bit_nat_less_eq_self)
  also have "\<dots> = unat gas div unat price" by (simp add: unat_div)
  finally have "unat lim * unat price \<le> unat gas div unat price * unat price" by (rule mult_le_mono1)
  then show ?thesis using div_times_less_eq_dividend order_trans by blast
qed

lemma gas_used_exact:
  "unat steps * unat price < 2 ^ 32 \<Longrightarrow> unat (gas_used steps price) = unat steps * unat price"
  by (simp add: gas_used_def unat_word_ariths)

text \<open>
  C1: a run of a contract ends.  With fuel above the step limit that the gas pays for, the
  library call does not run out of fuel and any larger fuel gives the same receipt and state;
  and as long as the gas is a 32-bit number, a receipt never shows more gas used than supplied.
\<close>

theorem contract_ends_within_gas:
  assumes "load old \<noteq> Inl OutOfFuel" and "\<And>lim. step_limit gas price = Inr lim \<Longrightarrow> unat lim < n"
  shows "case execute_program unc load save n raw gas price old data s of (r, s') \<Rightarrow>
    r \<noteq> Inl OutOfFuel \<and>
    (\<forall>k\<ge>n. execute_program unc load save k raw gas price old data s = (r, s')) \<and>
    (gas < 2 ^ 32 \<longrightarrow> (\<forall>rc. r = Inr rc \<longrightarrow> unat (used_g rc) \<le> unat gas))"
proof (cases "prepare load (unc raw) gas price old s")
  case prep: (Pair r1 s1)
  show ?thesis
  proof (cases r1)
    case (Inl e)
    then have "execute_program unc load save k raw gas price old data s = (Inl e, s1)" for k
      using prep by (simp add: execute_program_def bnd_def)
    then show ?thesis using fuellessD [OF fuelless_prepare [of load old, OF assms(1)]] prep Inl by auto
  next
    case (Inr st)
    then obtain lim where lim: "step_limit gas price = Inr lim" and ok: "plain.run_ok lim s1"
      and left: "run_left s1 < n"
      using prepare_Inr [of load "unc raw" gas price old s st s1] prep assms(2) le_less_trans by blast
    obtain r s' where run: "run_contract n data s1 = (r, s')" by fastforce
    note gas = run_contract_gas [OF ok left run]
    have same: "run_contract k data s1 = (r, s')" if "n \<le> k" for k
      using refines_chain [of "\<lambda>n. run_contract n data" n s1 k, OF run_contract_refines] gas run that
      by simp
    have prog: "execute_program unc load save k raw gas price old data s = guarded_run save k price st data s1" for k
      using prep Inr by (simp add: execute_program_def bnd_def)
    have k: "execute_program unc load save k raw gas price old data s =
        execute_program unc load save n raw gas price old data s" if "n \<le> k" for k
      unfolding prog guarded_run_cases [OF same [OF that]] guarded_run_cases [OF run] ..
    have used: "unat (used_g (receipt_of save price st c m s')) \<le> unat gas" if "gas < 2 ^ 32" for c m
    proof -
      let ?k = "m_num_execution_steps (ip s')"
      have "unat ?k * unat price \<le> unat lim * unat price"
        using gas by (simp add: word_le_nat_alt)
      also have "\<dots> \<le> unat gas" using step_limit_gas [OF lim that] .
      finally have "unat ?k * unat price \<le> unat gas" .
      moreover have "unat gas < 2 ^ 32" using that by (simp add: word_less_nat_alt)
      ultimately show ?thesis using gas_used_exact [of ?k price] by (simp add: receipt_of_def)
    qed
    show ?thesis
      unfolding prog guarded_run_cases [OF run]
      using gas used k unfolding prog guarded_run_cases [OF run]
      by (auto split: sum.split)
  qed
qed

theorem contract_ends_within_gas_witness:
  "case execute_program id (\<lambda>_. Inr empty_persist) (\<lambda>_. []) 11 [] 100 10 [] [] (initial_vm (\<lambda>_ _. True) (\<lambda>_. 7) MAIN demo_env)
   of (r, s') \<Rightarrow> r \<noteq> Inl OutOfFuel \<and> (\<forall>rc. r = Inr rc \<longrightarrow> unat (used_g rc) \<le> 100)"
proof -
  have "step_limit 100 10 = Inr lim \<Longrightarrow> unat lim < 11" for lim
    by (auto simp: step_limit_def)
  from contract_ends_within_gas [of "\<lambda>_. Inr empty_persist" "[]" 100 10 11 id "\<lambda>_. []" "[]" "[]"
      "initial_vm (\<lambda>_ _. True) (\<lambda>_. 7) MAIN demo_env", OF _ this]
  show ?thesis by (auto split: prod.splits)
qed



text \<open>A program that is empty: the run ends with the stream's exception.\<close>

lemma demo_receipt:
  "\<exists>rc. guarded_run (\<lambda>_. [42]) 1 1 0 [] (demo_vm [] 10) = (Inr rc, (demo_vm [] 10)
     \<lparr>ip := (ip (demo_vm [] 10))\<lparr>m_num_execution_steps := 1, m_data := (bitstream_of [])\<lparr>failed := True\<rparr>\<rparr>\<rparr>)"
  by (simp add: guarded_run_def run_contract_def execute_def demo_vm_def call_evaluation
      program_evaluation get_u32_def read_pod_def raw_read_def eof_error_def crash_def
      word_le_nat_alt)


section \<open>Storage from run to run\<close>

lemma add_functions:
  assumes "this < length (heap s)" and "heap s ! this = ModuleVal (BlockchainModule r fs)"
  shows "\<exists>h. for_each es (add_function this) s = (Inr (), s\<lparr>heap := h\<rparr>) \<and>
    (\<forall>a < length (heap s). a \<noteq> this \<longrightarrow> h ! a = heap s ! a) \<and> length (heap s) \<le> length h"
  using assms
proof (induction es arbitrary: s fs)
  case Nil
  then show ?case by (intro exI [of _ "heap s"]) (simp add: ret_def)
next
  case (Cons e es)
  obtain name params f where e: "e = (name, params, f)" by (cases e)
  let ?c = "length (heap s)"
  let ?h = "(heap s @ [CallableCFunction params f this])
    [this := ModuleVal (BlockchainModule r (sm_put name ?c fs))]"
  have step: "add_function this e s = (Inr (), s\<lparr>heap := ?h\<rparr>)"
    using Cons.prems by (simp add: e add_function_def program_evaluation hset_def)
  have "this < length ?h" "?h ! this = ModuleVal (BlockchainModule r (sm_put name ?c fs))"
    using Cons.prems by simp_all
  then obtain h where h: "for_each es (add_function this) (s\<lparr>heap := ?h\<rparr>) = (Inr (), s\<lparr>heap := h\<rparr>)"
    and same: "\<forall>a < length ?h. a \<noteq> this \<longrightarrow> h ! a = ?h ! a" "length ?h \<le> length h"
    using Cons.IH [of "s\<lparr>heap := ?h\<rparr>" "sm_put name ?c fs"] by auto
  have "(\<forall>a < length (heap s). a \<noteq> this \<longrightarrow> h ! a = heap s ! a) \<and> length (heap s) \<le> length h"
    using same by (simp add: less_Suc_eq)
  with h step show ?case by (intro exI [of _ h]) (simp add: bnd_def)
qed

lemma register_grows:
  "\<exists>h m. register_blockchain_module s = (Inr (), s\<lparr>heap := h, ip := (ip s)\<lparr>m_loaded_modules := m\<rparr>\<rparr>) \<and>
     (\<forall>a < length (heap s). h ! a = heap s ! a) \<and> length (heap s) \<le> length h"
proof -
  let ?me = "length (heap s)" and ?h = "heap s @ [ModuleVal (BlockchainModule prng_init [])]"
  obtain h where "for_each bc_functions (add_function ?me) (s\<lparr>heap := ?h\<rparr>) = (Inr (), s\<lparr>heap := h\<rparr>)"
    and same: "\<forall>a < length ?h. a \<noteq> ?me \<longrightarrow> h ! a = ?h ! a" "length ?h \<le> length h"
    using add_functions [of ?me "s\<lparr>heap := ?h\<rparr>" prng_init "[]" bc_functions] by auto
  then have "register_blockchain_module s = (Inr (), s\<lparr>heap := h,
      ip := (ip s)\<lparr>m_loaded_modules := (m_loaded_modules (ip s))(''blockchain'' \<mapsto> ?me)\<rparr>\<rparr>)"
    by (simp add: register_blockchain_module_def program_evaluation set_module_def)
  moreover have "(\<forall>a < length (heap s). h ! a = heap s ! a) \<and> length (heap s) \<le> length h"
    using same by (simp add: less_Suc_eq)
  ultimately show ?thesis by blast
qed

text \<open>\<open>prepare\<close> as a whole, for a stored state that loads and a positive limit.\<close>

lemma prepare_run:
  assumes "old \<noteq> []" and "load old = Inr p" and "step_limit gas price = Inr lim" and "lim \<noteq> 0"
  shows "\<exists>s'. prepare load code gas price old s = (Inr (length (heap s)), s') \<and>
    heap s' ! length (heap s) = PersistVal p \<and>
    find_value (scopes s') (m_global_scope (ip s')) ''store'' = Inr (Some (length (heap s)))"
proof -
  let ?st = "length (heap s)" and ?g = "length (scopes s)"
  let ?u = "s\<lparr>scopes := set_value (scopes s @ [root_scope]) ?g ''store'' (Some ?st),
    heap := heap s @ [PersistVal p],
    ip := \<lparr>m_data = bitstream_of code, m_num_execution_steps = 0, m_execution_step_limit = lim,
           m_loaded_modules = Map.empty, m_store = ?st, m_global_scope = ?g\<rparr>\<rparr>"
  obtain h m where reg: "register_blockchain_module ?u =
      (Inr (), ?u\<lparr>heap := h, ip := (ip ?u)\<lparr>m_loaded_modules := m\<rparr>\<rparr>)"
    and same: "\<forall>a < length (heap ?u). h ! a = heap ?u ! a"
    using register_grows [of ?u] by blast
  have "prepare load code gas price old s =
      (Inr ?st, ?u\<lparr>heap := h, ip := (ip ?u)\<lparr>m_loaded_modules := m\<rparr>\<rparr>)"
    using assms reg
    by (simp add: prepare_def new_interpreter_def push_scope_def program_evaluation scope_set_def
        load_old_storage_def hset_def set_execution_step_limit_def)
  moreover have "h ! ?st = PersistVal p" using same by simp
  moreover have "find_value (set_value (scopes s @ [root_scope]) ?g ''store'' (Some ?st)) ?g ''store'' = Inr (Some ?st)"
    by (subst find_value.simps) (simp add: set_value.simps root_scope_def put_value_def)
  ultimately show ?thesis by simp
qed

text \<open>
  C13: what a run leaves in its storage is what the next run finds there, however the first one
  ended: if the archive format can be read back, then preparing a run on the storage of a
  receipt succeeds whenever the gas pays for at least one step, its storage object holds
  exactly the maps of the earlier run, and the name \<open>store\<close> is bound to that object.
\<close>

theorem storage_survives_runs:
  assumes "guarded_run save fuel price st data s = (Inr rc, s')"
    and "load (save (storage_at s' st)) = Inr (storage_at s' st)" and "save (storage_at s' st) \<noteq> []"
    and "step_limit gas2 price2 = Inr lim" and "lim \<noteq> 0"
  shows "\<exists>st2 t'. prepare load code gas2 price2 (new_storage rc) t = (Inr st2, t') \<and>
    heap t' ! st2 = PersistVal (storage_at s' st) \<and>
    find_value (scopes t') (m_global_scope (ip t')) ''store'' = Inr (Some st2)"
proof -
  obtain r u where run: "run_contract fuel data s = (r, u)" by fastforce
  have "new_storage rc = save (storage_at s' st)"
    using assms(1) guarded_run_cases [OF run, of save price st]
    by (auto simp: receipt_of_def split: sum.splits if_splits)
  then have "load (new_storage rc) = Inr (storage_at s' st)" "new_storage rc \<noteq> []"
    using assms(2,3) by simp_all
  from prepare_run [where load = load, OF this(2,1) assms(4,5)] show ?thesis by blast
qed

theorem storage_survives_runs_witness:
  "\<exists>rc s' st2 t'. guarded_run (\<lambda>_. [42]) 1 1 0 [] (demo_vm [] 10) = (Inr rc, s') \<and>
     prepare (\<lambda>_. Inr empty_persist) [] 100 10 (new_storage rc) (demo_vm [] 0) = (Inr st2, t') \<and>
     heap t' ! st2 = PersistVal empty_persist"
proof -
  obtain rc s' where run: "guarded_run (\<lambda>_. [42]) 1 1 0 [] (demo_vm [] 10) = (Inr rc, s')"
    and st: "storage_at s' 0 = empty_persist"
    using demo_receipt by (auto simp: storage_at_def demo_vm_def)
  have lim: "step_limit 100 10 = Inr 10" by (simp add: step_limit_def)
  show ?thesis
    using storage_survives_runs [OF run, of "\<lambda>_. Inr empty_persist" 100 10 10 "[]" "demo_vm [] 0"]
      st lim run by auto
qed

end
