(* ===== verification/Memory.thy ===== *)
theory Memory
  imports Std_Map
begin

text \<open>
  \<open>DefaultMemoryManager\<close> (\<^verbatim>\<open>include/cowlang/Object.h\<close>, \<^verbatim>\<open>src/interpreter/MemoryManager.cpp\<close>),
  the size-limited heap of the interpreter: pages of one megabyte, a first-fit search of the
  gaps between live blocks, and a bump pointer at the end.  Addresses are natural numbers; the
  address of a page the host allocator returns is an argument of \<open>mm_malloc\<close>.

  The invariant \<open>mm_ok\<close> says that live blocks lie inside their page and do not overlap; the
  lemmas show that allocation and release keep it, what a successful allocation returns, and
  when an allocation fails.
\<close>

section \<open>State\<close>

definition page_size :: nat where
  "page_size = 1024 * 1024"

record alloc_info =
  page :: nat
  asize :: nat

record mem_manager =
  m_buffers :: "nat list"
  m_buffer_pos :: nat
  m_allocs :: "(nat, alloc_info) smap"

definition mm_init :: "nat \<Rightarrow> mem_manager" where
  "mm_init base = \<lparr>m_buffers = [base], m_buffer_pos = 0, m_allocs = []\<rparr>"

section \<open>Operations\<close>

text \<open>The \<open>size_t\<close> difference of two positions, which wraps around at \<open>2 ^ 64\<close>.\<close>

definition size_diff :: "nat \<Rightarrow> nat \<Rightarrow> nat" where
  "size_diff a b = nat ((int a - int b) mod 2 ^ 64)"

text \<open>The inner loop of \<open>malloc\<close>: the first gap of one page that is large enough.\<close>

fun scan_page :: "nat \<Rightarrow> nat \<Rightarrow> nat \<Rightarrow> nat \<Rightarrow> (nat, alloc_info) smap \<Rightarrow> nat option" where
  "scan_page buf_pos base sz last_pos [] = None"
| "scan_page buf_pos base sz last_pos ((ptr, a) # allocs) =
     (if buf_pos \<noteq> page a then scan_page buf_pos base sz last_pos allocs
      else let start = size_diff ptr base
           in if sz \<le> size_diff start last_pos then Some last_pos
              else scan_page buf_pos base sz (start + asize a) allocs)"

text \<open>The outer loop: the pages in order, the number of the first being \<open>buf_pos\<close>.\<close>

fun scan_pages :: "nat \<Rightarrow> nat list \<Rightarrow> nat \<Rightarrow> (nat, alloc_info) smap \<Rightarrow> (nat \<times> nat) option" where
  "scan_pages buf_pos [] sz allocs = None"
| "scan_pages buf_pos (base # bases) sz allocs =
     (case scan_page buf_pos base sz 0 allocs of
        Some pos \<Rightarrow> Some (buf_pos, pos)
      | None \<Rightarrow> scan_pages (Suc buf_pos) bases sz allocs)"

text \<open>\<open>emplace\<close> leaves an existing entry alone.\<close>

definition assign_alloc :: "nat \<Rightarrow> nat \<Rightarrow> nat \<Rightarrow> (mem_manager, nat) prog" where
  "assign_alloc page_no poffset sz m =
     (if page_size < poffset + sz then (Inl (RuntimeError ''Invalid offset''), m)
      else let ptr = m_buffers m ! page_no + poffset
           in (Inr ptr,
               if sm_find (m_allocs m) ptr = None
               then m\<lparr>m_allocs := sm_put ptr \<lparr>page = page_no, asize = sz\<rparr> (m_allocs m)\<rparr>
               else m))"

definition out_of_memory :: exn where
  "out_of_memory =
     RuntimeError ''out of memory: program tries to allocate too much heap memory!''"

definition mm_malloc :: "nat \<Rightarrow> nat \<Rightarrow> nat \<Rightarrow> (mem_manager, nat) prog" where
  "mm_malloc max_pages new_base sz m =
     (if page_size \<le> sz then (Inl (RuntimeError ''cannot allocate more than page size''), m)
      else case scan_pages 0 (m_buffers m) sz (m_allocs m) of
        Some (buf_pos, pos) \<Rightarrow> assign_alloc buf_pos pos sz m
      | None \<Rightarrow>
          (let buffer_size = length (m_buffers m) * page_size;
               full = (buffer_size \<le> m_buffer_pos m + sz)
           in if full \<and> length (m_buffers m) = max_pages then (Inl out_of_memory, m)
              else
                let m1 = (if full then m\<lparr>m_buffers := m_buffers m @ [new_base], m_buffer_pos := buffer_size\<rparr>
                          else m);
                    new_pos = m_buffer_pos m1;
                    m2 = m1\<lparr>m_buffer_pos := m_buffer_pos m1 + sz\<rparr>;
                    buffer = length (m_buffers m2) - 1
                in assign_alloc buffer (new_pos - buffer * page_size) sz m2))"

definition mm_free :: "nat \<Rightarrow> (mem_manager, unit) prog" where
  "mm_free ptr m =
     (if sm_find (m_allocs m) ptr = None then (Inl (RuntimeError ''Memory error!''), m)
      else (Inr (), m\<lparr>m_allocs := sm_erase ptr (m_allocs m)\<rparr>))"

definition mm_get_max_mem :: "nat \<Rightarrow> nat" where
  "mm_get_max_mem max_pages = max_pages * page_size mod 2 ^ 32"

definition mm_get_mem :: "mem_manager \<Rightarrow> nat" where
  "mm_get_mem m = m_buffer_pos m mod 2 ^ 32"

section \<open>Invariant\<close>

text \<open>Two intervals \<open>[a, a + n)\<close> and \<open>[b, b + k)\<close> do not overlap.\<close>

definition apart :: "nat \<Rightarrow> nat \<Rightarrow> nat \<Rightarrow> nat \<Rightarrow> bool" where
  "apart a n b k \<longleftrightarrow> a + n \<le> b \<or> b + k \<le> a"

definition block_ok :: "mem_manager \<Rightarrow> nat \<Rightarrow> alloc_info \<Rightarrow> bool" where
  "block_ok m ptr a \<longleftrightarrow>
     page a < length (m_buffers m) \<and> 0 < asize a \<and>
     m_buffers m ! page a \<le> ptr \<and> ptr + asize a \<le> m_buffers m ! page a + page_size \<and>
     (page a = length (m_buffers m) - 1 \<longrightarrow>
        ptr + asize a + page a * page_size \<le> m_buffers m ! page a + m_buffer_pos m)"

definition mm_ok :: "mem_manager \<Rightarrow> bool" where
  "mm_ok m \<longleftrightarrow>
     m_buffers m \<noteq> [] \<and> sm_sound (m_allocs m) \<and>
     (length (m_buffers m) - 1) * page_size \<le> m_buffer_pos m \<and>
     m_buffer_pos m \<le> length (m_buffers m) * page_size \<and>
     (\<forall>b \<in> set (m_buffers m). b + page_size < 2 ^ 63) \<and>
     (\<forall>i < length (m_buffers m). \<forall>j < i. apart (m_buffers m ! i) page_size (m_buffers m ! j) page_size) \<and>
     (\<forall>(ptr, a) \<in> set (m_allocs m). block_ok m ptr a) \<and>
     (\<forall>(p, a) \<in> set (m_allocs m). \<forall>(q, b) \<in> set (m_allocs m). p = q \<or> apart p (asize a) q (asize b))"

text \<open>What the code relies on when the host hands out another page.\<close>

definition page_fresh :: "mem_manager \<Rightarrow> nat \<Rightarrow> bool" where
  "page_fresh m base \<longleftrightarrow>
     base + page_size < 2 ^ 63 \<and> (\<forall>b \<in> set (m_buffers m). apart base page_size b page_size)"

lemma mm_ok_init: "base + page_size < 2 ^ 63 \<Longrightarrow> mm_ok (mm_init base)"
  by (simp add: mm_ok_def mm_init_def)

lemma size_diff_eq: "b \<le> a \<Longrightarrow> a < 2 ^ 64 \<Longrightarrow> size_diff a b = a - b"
  by (simp add: size_diff_def of_nat_diff [symmetric] nat_mod_as_int [symmetric] flip: of_nat_diff)

text \<open>In address order the blocks of one page follow each other.\<close>

definition in_order :: "nat \<Rightarrow> (nat, alloc_info) smap \<Rightarrow> bool" where
  "in_order bp as \<longleftrightarrow>
     sorted_wrt (\<lambda>(p, a) (q, b). page a = bp \<longrightarrow> page b = bp \<longrightarrow> p + asize a \<le> q) as"

definition in_page :: "nat \<Rightarrow> nat \<Rightarrow> (nat, alloc_info) smap \<Rightarrow> bool" where
  "in_page bp base as \<longleftrightarrow>
     (\<forall>(p, a) \<in> set as. page a = bp \<longrightarrow> base \<le> p \<and> p + asize a \<le> base + page_size)"

lemma scan_page_Some:
  assumes "scan_page bp base sz lp as = Some pos"
    and "in_order bp as" and "in_page bp base as"
    and "\<forall>(p, a) \<in> set as. page a = bp \<longrightarrow> base + lp \<le> p"
    and "base + page_size < 2 ^ 63"
  shows "(\<forall>(p, a) \<in> set as. page a = bp \<longrightarrow> p + asize a \<le> base + pos \<or> base + pos + sz \<le> p) \<and>
    lp \<le> pos \<and> (\<exists>(p, a) \<in> set as. page a = bp \<and> base + pos + sz \<le> p)"
  using assms(1-4)
proof (induction as arbitrary: lp)
  case (Cons e as)
  obtain p a where e: "e = (p, a)" by (cases e)
  have ord: "in_order bp as" and pg: "in_page bp base as"
    using Cons.prems(2,3) by (simp_all add: in_order_def in_page_def)
  show ?case
  proof (cases "page a = bp")
    case False
    with Cons.prems(1,4) Cons.IH [OF _ ord pg, of lp] show ?thesis by (auto simp: e)
  next
    case True
    have b: "base + lp \<le> p" "base \<le> p" "p + asize a \<le> base + page_size"
      using Cons.prems(3,4) True by (auto simp: e in_page_def)
    have later: "\<forall>(q, c) \<in> set as. page c = bp \<longrightarrow> p + asize a \<le> q"
      using Cons.prems(2) True by (auto simp: in_order_def e)
    have start: "size_diff p base = p - base"
      using b assms(5) by (intro size_diff_eq) simp_all
    have gap: "size_diff (p - base) lp = p - base - lp"
      using b assms(5) by (intro size_diff_eq) simp_all
    show ?thesis
    proof (cases "sz \<le> p - base - lp")
      case fits: True
      then have "pos = lp" "base + lp + sz \<le> p"
        using Cons.prems(1) True b by (auto simp: e start gap)
      with later True show ?thesis by (fastforce simp: e)
    next
      case False
      then have "scan_page bp base sz (p - base + asize a) as = Some pos"
        using Cons.prems(1) True by (simp add: e start gap)
      moreover have "\<forall>(q, c) \<in> set as. page c = bp \<longrightarrow> base + (p - base + asize a) \<le> q"
        using later b by auto
      ultimately have "(\<forall>(q, c) \<in> set as. page c = bp \<longrightarrow> q + asize c \<le> base + pos \<or> base + pos + sz \<le> q) \<and>
        p - base + asize a \<le> pos \<and> (\<exists>(q, c) \<in> set as. page c = bp \<and> base + pos + sz \<le> q)"
        using Cons.IH ord pg by blast
      with b show ?thesis by (auto simp: e)
    qed
  qed
qed simp

lemma mm_in_order:
  assumes "mm_ok m"
  shows "in_order bp (m_allocs m)"
proof -
  let ?as = "m_allocs m"
  let ?R = "\<lambda>(p, a) (q, b). page a = bp \<longrightarrow> page b = bp \<longrightarrow> p + asize a \<le> q"
  have srt: "sorted_wrt (\<lambda>x y. fst x < fst y) ?as"
    using assms by (simp add: mm_ok_def sm_sound_def sorted_wrt_map)
  have "?R x y" if x: "x \<in> set ?as" and y: "y \<in> set ?as" and lt: "fst x < fst y" for x y
  proof -
    obtain p a q b where xy: "x = (p, a)" "y = (q, b)" by (cases x, cases y)
    have "apart p (asize a) q (asize b)" using assms x y lt xy by (fastforce simp: mm_ok_def)
    with lt xy show ?thesis by (auto simp: apart_def)
  qed
  then have "sorted_wrt ?R ?as" by (rule sorted_wrt_mono_rel [OF _ srt])
  then show ?thesis by (simp add: in_order_def)
qed

lemma mm_in_page:
  "mm_ok m \<Longrightarrow> in_page bp (m_buffers m ! bp) (m_allocs m)"
  by (fastforce simp: mm_ok_def in_page_def block_ok_def)

lemma scan_pages_Some:
  assumes "scan_pages n bases sz as = Some (bp, pos)"
  shows "n \<le> bp \<and> bp < n + length bases \<and> scan_page bp (bases ! (bp - n)) sz 0 as = Some pos"
  using assms
proof (induction bases arbitrary: n)
  case (Cons b bases)
  show ?case
  proof (cases "scan_page n b sz 0 as")
    case None
    with Cons.prems have "scan_pages (Suc n) bases sz as = Some (bp, pos)" by simp
    from Cons.IH [OF this] show ?thesis by (simp add: nth_Cons' Suc_diff_Suc)
  qed (use Cons.prems in simp)
qed simp

section \<open>Allocation and release\<close>

text \<open>The live blocks, and a free interval of one page.\<close>

definition live :: "mem_manager \<Rightarrow> (nat \<times> alloc_info) set" where
  "live m = set (m_allocs m)"

definition free_at :: "mem_manager \<Rightarrow> nat \<Rightarrow> nat \<Rightarrow> nat \<Rightarrow> bool" where
  "free_at m bp pos sz \<longleftrightarrow>
     bp < length (m_buffers m) \<and> pos + sz \<le> page_size \<and>
     (bp = length (m_buffers m) - 1 \<longrightarrow> pos + sz + bp * page_size \<le> m_buffer_pos m) \<and>
     (\<forall>(p, a) \<in> live m. page a = bp \<longrightarrow> apart p (asize a) (m_buffers m ! bp + pos) sz)"

lemma sm_find_Some: "sm_sound m \<Longrightarrow> sm_find m k = Some v \<longleftrightarrow> (k, v) \<in> set m"
  by (induction m k rule: sm_find.induct) (auto simp: sm_keys_set)

lemma set_sm_put:
  "sm_sound m \<Longrightarrow> sm_find m k = None \<Longrightarrow> set (sm_put k v m) = insert (k, v) (set m)"
  by (induction k v m rule: sm_put.induct) (auto simp: sm_find_keys split: if_splits)

lemma set_sm_erase: "set (sm_erase k m) \<subseteq> set m"
  by (induction k m rule: sm_erase.induct) auto

lemma pages_apart:
  assumes "mm_ok m" and "i < length (m_buffers m)" and "j < length (m_buffers m)" and "i \<noteq> j"
  shows "apart (m_buffers m ! i) page_size (m_buffers m ! j) page_size"
proof (cases "i < j")
  case True
  then show ?thesis using assms by (fastforce simp: mm_ok_def apart_def)
next
  case False
  then have "j < i" using assms(4) by simp
  then show ?thesis using assms by (simp add: mm_ok_def)
qed

lemma free_at_apart:
  assumes "mm_ok m" and "free_at m bp pos sz" and "(p, a) \<in> live m"
  shows "apart p (asize a) (m_buffers m ! bp + pos) sz"
proof (cases "page a = bp")
  case False
  have b: "block_ok m p a" using assms by (auto simp: mm_ok_def live_def)
  then have "apart (m_buffers m ! page a) page_size (m_buffers m ! bp) page_size"
    using assms False by (intro pages_apart) (auto simp: block_ok_def free_at_def)
  with b assms(2) show ?thesis by (auto simp: apart_def block_ok_def free_at_def)
qed (use assms in \<open>auto simp: free_at_def\<close>)

lemma assign_alloc_free:
  assumes ok: "mm_ok m" and fr: "free_at m bp pos sz" and sz: "0 < sz"
  shows "\<exists>m'. assign_alloc bp pos sz m = (Inr (m_buffers m ! bp + pos), m') \<and> mm_ok m' \<and>
    sm_find (m_allocs m) (m_buffers m ! bp + pos) = None \<and>
    m' = m\<lparr>m_allocs := sm_put (m_buffers m ! bp + pos) \<lparr>page = bp, asize = sz\<rparr> (m_allocs m)\<rparr>"
proof -
  let ?ptr = "m_buffers m ! bp + pos" and ?a = "\<lparr>page = bp, asize = sz\<rparr>"
  let ?m' = "m\<lparr>m_allocs := sm_put ?ptr ?a (m_allocs m)\<rparr>"
  have snd: "sm_sound (m_allocs m)" using ok by (simp add: mm_ok_def)
  have ap: "apart p (asize a) ?ptr sz" if "(p, a) \<in> set (m_allocs m)" for p a
    using free_at_apart [OF ok fr] that by (simp add: live_def)
  have pos: "0 < asize a" if "(p, a) \<in> set (m_allocs m)" for p a
    using ok that by (auto simp: mm_ok_def block_ok_def)
  have new: "sm_find (m_allocs m) ?ptr = None"
  proof (rule ccontr)
    assume "sm_find (m_allocs m) ?ptr \<noteq> None"
    then obtain a where "(?ptr, a) \<in> set (m_allocs m)" using sm_find_Some [OF snd] by auto
    with ap pos sz show False by (fastforce simp: apart_def)
  qed
  have set': "set (sm_put ?ptr ?a (m_allocs m)) = insert (?ptr, ?a) (set (m_allocs m))"
    using snd new by (rule set_sm_put)
  have block: "block_ok ?m' ?ptr ?a" using fr sz by (auto simp: block_ok_def free_at_def)
  have blocks: "\<forall>(p, a) \<in> set (m_allocs ?m'). block_ok ?m' p a"
    using ok block by (auto simp: set' mm_ok_def block_ok_def)
  have sym: "apart ?ptr sz p n \<longleftrightarrow> apart p n ?ptr sz" for p n by (auto simp: apart_def)
  have dis: "\<forall>(p, a) \<in> set (m_allocs ?m'). \<forall>(q, b) \<in> set (m_allocs ?m').
      p = q \<or> apart p (asize a) q (asize b)"
    using ok ap by (auto simp: set' mm_ok_def sym)
  have "mm_ok ?m'" using ok blocks dis by (simp add: mm_ok_def)
  moreover have "assign_alloc bp pos sz m = (Inr ?ptr, ?m')"
    using fr new by (simp add: assign_alloc_def free_at_def Let_def)
  ultimately show ?thesis using new by simp
qed

text \<open>A gap the search finds is free; so is the room at the bump pointer.\<close>

lemma free_at_gap:
  assumes ok: "mm_ok m" and sc: "scan_pages 0 (m_buffers m) sz (m_allocs m) = Some (bp, pos)"
  shows "free_at m bp pos sz"
proof -
  let ?b = "m_buffers m ! bp"
  have bp: "bp < length (m_buffers m)" and s1: "scan_page bp ?b sz 0 (m_allocs m) = Some pos"
    using scan_pages_Some [OF sc] by simp_all
  have base: "?b + page_size < 2 ^ 63" using ok bp by (simp add: mm_ok_def)
  have pg: "in_page bp ?b (m_allocs m)" by (rule mm_in_page [OF ok])
  have lo: "\<forall>(p, a) \<in> set (m_allocs m). page a = bp \<longrightarrow> ?b + 0 \<le> p"
    using pg by (fastforce simp: in_page_def)
  note res = scan_page_Some [OF s1 mm_in_order [OF ok] pg lo base]
  then obtain p a where pa: "(p, a) \<in> set (m_allocs m)" "page a = bp" "?b + pos + sz \<le> p" by blast
  then have blk: "block_ok m p a" using ok by (auto simp: mm_ok_def)
  have "\<forall>(p, a) \<in> live m. page a = bp \<longrightarrow> apart p (asize a) (?b + pos) sz"
    using res by (auto simp: live_def apart_def)
  with bp blk pa show ?thesis by (auto simp: free_at_def block_ok_def)
qed

lemma mm_ok_bump: "mm_ok m \<Longrightarrow> m_buffer_pos m \<le> n \<Longrightarrow> n \<le> length (m_buffers m) * page_size \<Longrightarrow>
    mm_ok (m\<lparr>m_buffer_pos := n\<rparr>)"
  by (fastforce simp: mm_ok_def block_ok_def)

lemma free_at_bump:
  assumes ok: "mm_ok m" and room: "m_buffer_pos m + sz \<le> length (m_buffers m) * page_size"
  shows "free_at (m\<lparr>m_buffer_pos := m_buffer_pos m + sz\<rparr>) (length (m_buffers m) - 1)
    (m_buffer_pos m - (length (m_buffers m) - 1) * page_size) sz"
proof -
  obtain k where k: "length (m_buffers m) = Suc k"
    using ok by (cases "m_buffers m") (auto simp: mm_ok_def)
  have le: "k * page_size \<le> m_buffer_pos m" using ok k by (simp add: mm_ok_def)
  have "apart p (asize a) (m_buffers m ! k + (m_buffer_pos m - k * page_size)) sz"
    if "(p, a) \<in> set (m_allocs m)" "page a = k" for p a
  proof -
    have "block_ok m p a" using ok that by (auto simp: mm_ok_def)
    then show ?thesis using that k le by (simp add: block_ok_def apart_def) linarith
  qed
  then show ?thesis using room le by (auto simp: free_at_def live_def k)
qed

lemma mm_ok_page:
  assumes ok: "mm_ok m" and fresh: "page_fresh m nb"
  shows "mm_ok (m\<lparr>m_buffers := m_buffers m @ [nb], m_buffer_pos := length (m_buffers m) * page_size\<rparr>)"
    (is "mm_ok ?m")
proof -
  have blk: "block_ok ?m p a" if "(p, a) \<in> set (m_allocs m)" for p a
    using ok that by (fastforce simp: mm_ok_def block_ok_def)
  have "\<forall>i < length (m_buffers ?m). \<forall>j < i. apart (m_buffers ?m ! i) page_size (m_buffers ?m ! j) page_size"
    using ok fresh by (auto simp: mm_ok_def page_fresh_def nth_append less_Suc_eq)
  then show ?thesis using ok fresh blk by (auto simp: mm_ok_def page_fresh_def)
qed

text \<open>The outcome of a successful allocation.\<close>

definition allocated :: "mem_manager \<Rightarrow> nat \<Rightarrow> nat \<Rightarrow> mem_manager \<Rightarrow> bool" where
  "allocated m sz ptr m' \<longleftrightarrow>
     mm_ok m' \<and> (\<exists>bp. live m' = insert (ptr, \<lparr>page = bp, asize = sz\<rparr>) (live m)) \<and>
     (\<forall>(p, a) \<in> live m. apart p (asize a) ptr sz) \<and> m_buffer_pos m \<le> m_buffer_pos m'"

lemma allocated_assign:
  assumes "mm_ok m1" and "free_at m1 bp pos sz" and "0 < sz" and "m_allocs m1 = m_allocs m"
    and "m_buffer_pos m \<le> m_buffer_pos m1"
  shows "\<exists>ptr m'. assign_alloc bp pos sz m1 = (Inr ptr, m') \<and> allocated m sz ptr m'"
proof -
  have snd: "sm_sound (m_allocs m)" using assms by (simp add: mm_ok_def)
  show ?thesis
    using assign_alloc_free [OF assms(1-3)] free_at_apart [OF assms(1,2)] assms(4,5)
      set_sm_put [OF snd] unfolding allocated_def live_def by fastforce
qed

lemma mm_malloc_allocated:
  assumes ok: "mm_ok m" and sz: "0 < sz" and fresh: "page_fresh m nb"
  shows "(\<exists>ptr m'. mm_malloc mp nb sz m = (Inr ptr, m') \<and> allocated m sz ptr m') \<or>
    sz \<ge> page_size \<and> mm_malloc mp nb sz m = (Inl (RuntimeError ''cannot allocate more than page size''), m) \<or>
    length (m_buffers m) = mp \<and> mm_malloc mp nb sz m = (Inl out_of_memory, m)"
proof (cases "page_size \<le> sz")
  case small: False
  show ?thesis
  proof (cases "scan_pages 0 (m_buffers m) sz (m_allocs m)")
    case (Some r)
    obtain bp pos where r: "r = (bp, pos)" by (cases r)
    have "free_at m bp pos sz" using free_at_gap [OF ok] Some r by simp
    from allocated_assign [OF ok this sz refl order_refl] show ?thesis
      using small Some r by (simp add: mm_malloc_def)
  next
    case None
    let ?bs = "length (m_buffers m) * page_size"
    show ?thesis
    proof (cases "?bs \<le> m_buffer_pos m + sz")
      case room: False
      let ?m2 = "m\<lparr>m_buffer_pos := m_buffer_pos m + sz\<rparr>"
      have "mm_ok ?m2" using ok room by (intro mm_ok_bump) simp_all
      from allocated_assign [OF this free_at_bump [OF ok] sz] show ?thesis
        using small None room by (simp add: mm_malloc_def Let_def)
    next
      case full: True
      show ?thesis
      proof (cases "length (m_buffers m) = mp")
        case False
        let ?m1 = "m\<lparr>m_buffers := m_buffers m @ [nb], m_buffer_pos := ?bs\<rparr>"
        let ?m2 = "?m1\<lparr>m_buffer_pos := m_buffer_pos ?m1 + sz\<rparr>"
        have ok1: "mm_ok ?m1" by (rule mm_ok_page [OF ok fresh])
        have fits: "m_buffer_pos ?m1 + sz \<le> length (m_buffers ?m1) * page_size"
          using small by simp
        have ok2: "mm_ok ?m2" using fits by (intro mm_ok_bump [OF ok1]) simp_all
        have "m_buffer_pos m \<le> m_buffer_pos ?m2" using ok by (simp add: mm_ok_def)
        from allocated_assign [OF ok2 free_at_bump [OF ok1 fits] sz _ this] show ?thesis
          using small None full False by (simp add: mm_malloc_def Let_def)
      qed (use small None full in \<open>simp add: mm_malloc_def Let_def\<close>)
    qed
  qed
qed (simp add: mm_malloc_def)

lemma mm_free_ok:
  assumes "mm_ok m"
  shows "mm_ok (snd (mm_free ptr m))"
proof (cases "sm_find (m_allocs m) ptr")
  case (Some a)
  let ?m = "m\<lparr>m_allocs := sm_erase ptr (m_allocs m)\<rparr>"
  have sub: "x \<in> set (m_allocs m)" if "x \<in> set (sm_erase ptr (m_allocs m))" for x
    using that set_sm_erase by blast
  have blk: "block_ok ?m p b = block_ok m p b" for p b by (simp add: block_ok_def)
  have "mm_ok ?m" using assms unfolding mm_ok_def blk by (auto 0 3 dest!: sub)
  with Some show ?thesis by (simp add: mm_free_def)
qed (use assms in \<open>simp add: mm_free_def\<close>)

section \<open>Properties\<close>

text \<open>
  C17: for a positive size and a host page apart from the others, \<open>malloc\<close> does one of three
  things: it returns a block that overlaps no live block, records exactly that block and keeps
  the invariant; it rejects a size of a page or more; or it reports that memory is exhausted,
  and then the page limit is reached.  A failed call changes nothing, and \<open>Invalid offset\<close> is
  never thrown.
\<close>

theorem malloc_safe:
  assumes "mm_ok m" and "0 < sz" and "page_fresh m nb"
  shows "case mm_malloc mp nb sz m of
      (Inr ptr, m') \<Rightarrow>
        mm_ok m' \<and> sz < page_size \<and>
        (\<exists>bp. set (m_allocs m') = insert (ptr, \<lparr>page = bp, asize = sz\<rparr>) (set (m_allocs m))) \<and>
        (\<forall>(p, a) \<in> set (m_allocs m). apart p (asize a) ptr sz)
    | (Inl e, m') \<Rightarrow>
        m' = m \<and>
        (page_size \<le> sz \<and> e = RuntimeError ''cannot allocate more than page size'' \<or>
         length (m_buffers m) = mp \<and> e = out_of_memory)"
proof -
  have "sz < page_size" if "mm_malloc mp nb sz m = (Inr ptr, m')" for ptr m'
    using that by (simp add: mm_malloc_def split: if_splits)
  with mm_malloc_allocated [OF assms, of mp] show ?thesis
    unfolding allocated_def live_def by fastforce
qed

definition demo_manager :: mem_manager where
  "demo_manager =
     \<lparr>m_buffers = [4096], m_buffer_pos = 48,
      m_allocs = [(4096, \<lparr>page = 0, asize = 16\<rparr>), (4128, \<lparr>page = 0, asize = 16\<rparr>)]\<rparr>"

lemma demo_manager_ok: "mm_ok demo_manager"
  by (simp add: demo_manager_def mm_ok_def block_ok_def apart_def page_size_def)

theorem malloc_safe_witness:
  "fst (mm_malloc 3 4194304 16 demo_manager) = Inr 4112 \<and> apart 4096 16 4112 16 \<and> apart 4128 16 4112 16"
proof -
  have run: "mm_malloc 3 4194304 16 demo_manager =
      (Inr 4112, demo_manager\<lparr>m_allocs := sm_put 4112 \<lparr>page = 0, asize = 16\<rparr> (m_allocs demo_manager)\<rparr>)"
    by (simp add: mm_malloc_def demo_manager_def size_diff_def assign_alloc_def page_size_def Let_def)
  have "page_fresh demo_manager 4194304"
    by (simp add: page_fresh_def demo_manager_def apart_def page_size_def)
  from malloc_safe [OF demo_manager_ok _ this, of 16 3] run show ?thesis
    by (simp add: demo_manager_def)
qed

text \<open>The bump pointer never moves back, and with no live block it moves on every allocation.\<close>

fun churn :: "nat \<Rightarrow> nat \<Rightarrow> mem_manager \<Rightarrow> mem_manager" where
  "churn 0 sz m = m"
| "churn (Suc n) sz m =
     (case mm_malloc 1 0 sz m of
        (Inr ptr, m') \<Rightarrow> churn n sz (snd (mm_free ptr m'))
      | (Inl e, m') \<Rightarrow> churn n sz m')"

lemma sm_erase_single: "sm_erase p [(p, a)] = []"
  by simp

lemma churn_step:
  assumes "m_allocs m = []" and "m_buffers m = [b]" and "sz < page_size" and "0 < sz"
    and "m_buffer_pos m + sz < page_size"
  shows "churn (Suc n) sz m = churn n sz (m\<lparr>m_buffer_pos := m_buffer_pos m + sz\<rparr>)"
  using assms by (cases m) (simp add: mm_malloc_def mm_free_def assign_alloc_def Let_def)

lemma churn_pos:
  assumes "m_allocs m = []" and "m_buffers m = [b]" and "sz < page_size" and "0 < sz"
    and "m_buffer_pos m + n * sz < page_size"
  shows "churn n sz m = m\<lparr>m_buffer_pos := m_buffer_pos m + n * sz\<rparr>"
  using assms
proof (induction n arbitrary: m)
  case (Suc n)
  then show ?case by (subst churn_step) (simp_all add: algebra_simps)
qed simp

text \<open>
  Freed memory at the end of a page is not reused: a manager limited to one page (starting
  at any address \<open>b\<close>) whose client allocates and at once frees a block of \<open>sz\<close> bytes as often
  as the page has room for is left with no live block, and still refuses the next block of
  that size for lack of memory.
\<close>

theorem bump_pointer_leaks:
  assumes "0 < sz" and "sz < page_size" and "n * sz < page_size" and "page_size \<le> n * sz + sz"
  shows "m_allocs (churn n sz (mm_init b)) = [] \<and>
    mm_malloc 1 0 sz (churn n sz (mm_init b)) = (Inl out_of_memory, churn n sz (mm_init b))"
  using assms churn_pos [of "mm_init b" b sz n]
  by (simp add: mm_init_def mm_malloc_def)

theorem bump_pointer_leaks_witness:
  "fst (mm_malloc 1 0 300000 (churn 3 300000 (mm_init 4096))) = Inl out_of_memory"
  using bump_pointer_leaks [of 300000 3 4096] by (simp add: page_size_def)

end
