(* ===== verification/Container_Laws.thy ===== *)
theory Container_Laws
  imports Containers
begin

text \<open>
  What the containers do: which list indices are accepted, what the iterators enumerate, and
  what a dictionary holds after its operations.  An iterator is followed to its end by
  \<open>drain\<close>, the \<open>for\<close> loop of the interpreter without the body.
\<close>

section \<open>Indices\<close>

lemma list_size_nat: "length xs < 2 ^ 32 \<Longrightarrow> uint (list_size xs) = int (length xs)"
  by (simp add: list_size_def unsigned_of_nat take_bit_nat_eq_self_iff uint_nat)

lemma list_size_sint: "length xs < 2 ^ 31 \<Longrightarrow> sint (list_size xs) = int (length xs)"
  by (simp add: list_size_def signed_of_nat signed_take_bit_int_eq_self_iff)

lemma list_size_unat: "length xs < 2 ^ 32 \<Longrightarrow> unat (list_size xs) = length xs"
  by (simp add: list_size_def unsigned_of_nat take_bit_nat_eq_self_iff)

text \<open>
  C32: reading an element takes Python's indices, from the end when negative, except the most
  negative one: index \<open>- len\<close>, the first element in Python, is rejected.
\<close>

theorem list_get_indices:
  assumes "length xs < 2 ^ 31"
  shows "list_get xs i =
    (if - int (length xs) < sint i \<and> sint i < int (length xs)
     then Inr (xs ! nat (sint i mod int (length xs)))
     else Inl index_error)"
proof -
  have n: "uint (list_size xs) = int (length xs)" "sint (list_size xs) = int (length xs)"
    using assms list_size_nat [of xs] list_size_sint [of xs] by simp_all
  have "(sint i + int (length xs)) mod int (length xs) = int (length xs) + sint i"
    if "sint i < 0" "- int (length xs) < sint i"
    using that by (intro mod_pos_pos_trivial [THEN trans]) simp_all
  then show ?thesis
    by (auto simp: list_get_def get_in_range_def adjust_index_def n add.commute)
qed

theorem list_get_indices_witness:
  "list_get [10, 20, 30 :: nat] (- 1) = Inr 30 \<and> list_get [10, 20, 30 :: nat] (- 3) = Inl index_error"
  using list_get_indices [of "[10, 20, 30 :: nat]" "- 1"] list_get_indices [of "[10, 20, 30 :: nat]" "- 3"]
  by simp

lemma set_in_range_False:
  assumes "length xs \<le> 2 ^ 31"
  shows "\<not> set_in_range (list_size xs) i"
proof -
  have n: "uint (list_size xs) = int (length xs)" using assms by (simp add: list_size_nat)
  have "uint (- list_size xs) = - uint (list_size xs) mod 2 ^ 32" by (simp add: uint_word_ariths)
  also have "\<dots> = (if xs = [] then 0 else 2 ^ 32 - int (length xs))"
    using assms unfolding n by (auto simp: zmod_zminus1_eq_if)
  finally have "uint (- list_size xs) = (if xs = [] then 0 else 2 ^ 32 - int (length xs))" .
  then show ?thesis using assms n by (auto simp: set_in_range_def)
qed

text \<open>
  C33: writing to a list never works: for a list of at most \<open>2 ^ 31\<close> elements every index, valid
  or not, is reported as out of range, by plain and by augmented assignment, because the
  unsigned size is negated.
\<close>

theorem list_assignment_always_fails:
  assumes "length xs \<le> 2 ^ 31"
  shows "list_set xs i v = Inl index_error \<and> list_apply xs i p op h = (Inl index_error, h)"
  using set_in_range_False [OF assms, of i] by (simp add: list_set_def list_apply_def throw_def)

theorem list_assignment_always_fails_witness:
  "list_set [Some (7 :: nat), Some 9] 0 None = Inl index_error"
  using list_assignment_always_fails [of "[Some (7 :: nat), Some 9]" 0 None None None "[]"] by simp

section \<open>Copies\<close>

text \<open>A copied list or dictionary is one new object with the same element pointers.\<close>

lemma append_each:
  assumes "d < length h" and "h ! d = ListVal xs"
  shows "for_each ys (list_append d) h = (Inr (), h[d := ListVal (xs @ ys)])"
  using assms
proof (induction ys arbitrary: h xs)
  case Nil
  show ?case using list_update_id [of h d] unfolding Nil.prems(2) by (simp add: ret_def)
next
  case (Cons y ys)
  then show ?case
    using Cons.IH [of "h[d := ListVal (xs @ [y])]" "xs @ [y]"]
    by (simp add: list_append_def hget_def gets_def bnd_def hset_def modify_def)
qed

lemma list_duplicate_new: "list_duplicate xs h = hnew (ListVal xs) h"
  using append_each [of "length h" "h @ [ListVal []]" "[]" xs]
  by (simp add: list_duplicate_def halloc_def hnew_def bnd_def ret_def)

lemma sm_put_last: "\<forall>j \<in> sm_keys m. j < k \<Longrightarrow> sm_put k v m = m @ [(k, v)]"
  by (induction k v m rule: sm_put.induct) (auto dest: less_asym)

lemma insert_each:
  assumes "d < length h" and "h ! d = DictVal m" and "sm_sound (m @ n)"
  shows "for_each n (\<lambda>(k, v). dict_insert d k v) h = (Inr (), h[d := DictVal (m @ n)])"
  using assms
proof (induction n arbitrary: h m)
  case Nil
  show ?case using list_update_id [of h d] unfolding Nil.prems(2) by (simp add: ret_def)
next
  case (Cons e n)
  obtain k v where e: "e = (k, v)" by (cases e)
  have "sm_put k v m = m @ [e]"
    using Cons.prems(3) by (simp add: e sm_put_last sm_keys_set sm_sound_def sorted_wrt_append)
  then show ?case
    using Cons.prems Cons.IH [of "h[d := DictVal (m @ [e])]" "m @ [e]"]
    by (simp add: e dict_insert_def hget_def gets_def bnd_def hset_def modify_def)
qed

lemma dict_duplicate_new: "sm_sound m \<Longrightarrow> dict_duplicate m h = hnew (DictVal m) h"
  using insert_each [of "length h" "h @ [DictVal []]" "[]" m]
  by (simp add: dict_duplicate_def halloc_def hnew_def bnd_def ret_def)

section \<open>Following an iterator\<close>

text \<open>The objects that \<open>next()\<close> returns until it throws \<open>stop_iteration_exception\<close>.\<close>

primrec drain :: "nat \<Rightarrow> addr \<Rightarrow> heap \<Rightarrow> obj option list" where
  "drain 0 it h = []"
| "drain (Suc n) it h =
     (case iter_next it h of
        (Inr v, h') \<Rightarrow> deref h' v # drain n it h'
      | (Inl e, h') \<Rightarrow> [])"

text \<open>The range \<open>a, a + s, a + 2 s, ...\<close> below \<open>b\<close>; at most \<open>n\<close> of them.\<close>

primrec steps_up :: "nat \<Rightarrow> int \<Rightarrow> int \<Rightarrow> int \<Rightarrow> int list" where
  "steps_up 0 a b s = []"
| "steps_up (Suc n) a b s = (if a < b then a # steps_up n (a + s) b s else [])"

lemma sint_scast_up: "sint (scast (w :: u32) :: i64) = sint w"
  by (simp add: signed_scast_eq signed_take_bit_int_eq_self_iff)
    (use sint_range_size [of w] in \<open>simp add: word_size\<close>)

lemma range_step_sint:
  assumes "0 \<le> sint (k :: u32)" and "sint p + sint k < 2 ^ 31"
  shows "sint (p + k) = sint p + sint k"
proof -
  have "- (2 ^ 31) \<le> sint p" using sint_range_size [of p] by (simp add: word_size)
  then show ?thesis
    using assms by (simp add: sint_word_ariths signed_take_bit_int_eq_self_iff)
qed

lemma drain_range_from:
  assumes "it < length h" and "h ! it = RangeIterator p s e k" and "0 < sint k" and "sint e + sint k < 2 ^ 31"
  shows "drain n it h = map (\<lambda>i. Some (IntVal (of_int i))) (steps_up n (sint p) (sint e) (sint k))"
  using assms(1,2)
proof (induction n arbitrary: h p)
  case (Suc n)
  show ?case
  proof (cases "sint p < sint e")
    case True
    let ?h = "(h @ [IntVal (scast p)])[it := RangeIterator (p + k) s e k]"
    have nx: "iter_next it h = (Inr (Some (length h)), ?h)"
      using Suc.prems True
      by (simp add: iter_next_def range_next_def bnd_def hget_def gets_def hnew_def halloc_def hset_def
          modify_def ret_def)
    have p: "sint (p + k) = sint p + sint k"
      using True assms(3,4) by (intro range_step_sint) simp_all
    have "(scast p :: i64) = of_int (sint p)"
      by (rule signed_word_eqI) (simp add: sint_scast_up)
    then show ?thesis
      using Suc.prems True Suc.IH [of ?h "p + k"] by (simp add: nx deref_def p nth_append)
  next
    case False
    then show ?thesis
      using Suc.prems by (simp add: iter_next_def range_next_def bnd_def hget_def gets_def throw_def)
  qed
qed simp

lemma steps_up_upt: "steps_up (nat (b - a)) a b 1 = [a..b - 1]"
proof (induction "nat (b - a)" arbitrary: a)
  case 0
  then show ?case by simp
next
  case (Suc n)
  then have "nat (b - a) = Suc (nat (b - (a + 1)))" by linarith
  then show ?case using Suc(1) [of "a + 1"] Suc(2) by (simp add: upto_rec1 [of a "b - 1"])
qed



lemma sint_widen: "sint (ucast (p :: u32) :: i64) = int (unat p)"
proof -
  have "unat (ucast p :: i64) = unat p"
    using unat_less_32 [of p] by (simp only: unsigned_ucast_eq) (simp add: take_bit_nat_eq_self_iff)
  then have "uint (ucast p :: i64) = int (unat p)" by (metis uint_nat)
  moreover have "signed_take_bit 63 (int (unat p)) = int (unat p)"
  proof -
    have "- 9223372036854775808 \<le> uint p" using uint_nonnegative [of p] by linarith
    with uint_bounded [of p] show ?thesis by (simp add: signed_take_bit_int_eq_self_iff)
  qed
  ultimately show ?thesis by (simp only: sint_uint) simp
qed

lemma drain_list_from:
  assumes "it < length h" and "l \<noteq> it" and "h ! l = ListVal xs" and "length xs < 2 ^ 31"
    and "h ! it = ListIterator l p" and "unat p \<le> length xs" and "length xs - unat p < n"
    and fresh: "Some it \<notin> set xs"
  shows "drain n it h = map (deref h) (drop (unat p) xs)"
  using assms(1,3,5-7)
proof (induction n arbitrary: h p)
  case (Suc n)
  have size: "list_size xs \<le> p \<longleftrightarrow> length xs \<le> unat p"
    using assms(4) list_size_unat [of xs] by (simp add: word_le_nat_alt)
  show ?case
  proof (cases "length xs \<le> unat p")
    case True
    then show ?thesis
      using Suc.prems size
      by (simp add: iter_next_def list_next_def bnd_def hget_def gets_def throw_def)
  next
    case False
    let ?h = "h[it := ListIterator l (p + 1)]"
    have "p < list_size xs" using False size by (simp add: not_le)
    then have p: "unat (p + 1) = Suc (unat p)" by (rule unat_Suc_below(1))
    note sp = sint_widen [of p]
    have up: "uint p < int (length xs)" using False by (metis uint_nat not_le of_nat_less_iff)
    then have lo: "- int (length xs) < uint p" using uint_nonnegative [of p] by linarith
    have get: "list_get xs (ucast p) = Inr (xs ! unat p)"
      using up lo assms(4) list_size_nat [of xs] list_size_sint [of xs]
      by (simp add: list_get_def get_in_range_def adjust_index_def sp)
    have "iter_next it h = (Inr (xs ! unat p), ?h)"
      using Suc.prems False size get
      by (simp add: iter_next_def list_next_def bnd_def hget_def gets_def hset_def modify_def ret_def lift_sum_def)
    moreover have "drain n it ?h = map (deref ?h) (drop (unat (p + 1)) xs)"
      using Suc.prems False assms(2) by (intro Suc.IH) (simp_all add: p)
    moreover have same: "deref ?h q = deref h q" if "q \<in> set xs" for q
    proof -
      have "q \<noteq> Some it" using that fresh by blast
      then show ?thesis by (cases q) (simp_all add: deref_def)
    qed
    moreover have "drop (unat p) xs = (xs ! unat p) # drop (Suc (unat p)) xs"
      using False by (simp add: Cons_nth_drop_Suc)
    moreover have "map (deref ?h) (drop (Suc (unat p)) xs) = map (deref h) (drop (Suc (unat p)) xs)"
      using same in_set_dropD by (intro map_cong) fastforce+
    ultimately show ?thesis using False by (simp add: p)
  qed
qed simp

text \<open>
  C35: a \<open>for\<close> loop over a list sees its elements in order, each once, and then stops, for a list
  shorter than \<open>2 ^ 31\<close> that does not contain the loop's own iterator.
\<close>

theorem list_iteration_in_order:
  assumes "l < length h" and "h ! l = ListVal xs" and "length xs < 2 ^ 31" and "length xs < n"
    and "Some (length h) \<notin> set xs"
  shows "\<exists>h'. iterate l h = (Inr (length h), h') \<and> drain n (length h) h' = map (deref h') xs"
proof (intro exI conjI)
  let ?h = "h @ [ListIterator l 0]"
  show "iterate l h = (Inr (length h), ?h)"
    using assms(2) by (simp add: iterate_def bnd_def hget_def gets_def halloc_def)
  show "drain n (length h) ?h = map (deref ?h) xs"
    using drain_list_from [of "length h" ?h l xs 0 n] assms by simp
qed

theorem list_iteration_in_order_witness:
  "\<exists>h'. iterate 0 [ListVal [None, Some 0]] = (Inr 1, h') \<and>
     drain 9 1 h' = [None, deref h' (Some 0)]"
  using list_iteration_in_order [of 0 "[ListVal [None, Some 0]]" "[None, Some 0]" 9]
  by (simp add: deref_def)

section \<open>Dictionaries\<close>

text \<open>
  C36: the operators on dictionary elements.  On a key that is bound to an integer, \<open>+=\<close> and
  \<open>*=\<close> do the same (they add) and \<open>-=\<close> subtracts, in place; on a missing key \<open>+=\<close> stores the
  operand's own object, \<open>-=\<close> first negates that object, for every other name it has, and \<open>*=\<close>
  stores a zero.
\<close>

theorem dict_augmented_assignment:
  assumes "d < length h" and "h ! d = DictVal m" and "va < length h" and "h ! va = IntVal v" and "sm_sound m"
  shows "(\<forall>ta t. sm_find m k = Some (Some ta) \<and> h ! ta = IntVal t \<longrightarrow>
      dict_apply d k (Some va) (Some Bin_Mult) h = dict_apply d k (Some va) (Some Bin_Add) h \<and>
      dict_apply d k (Some va) (Some Bin_Add) h = (Inr (), h[ta := IntVal (t + v)]) \<and>
      dict_apply d k (Some va) (Some Bin_Sub) h = (Inr (), h[ta := IntVal (t - v)])) \<and>
    (sm_find m k = None \<longrightarrow>
      dict_apply d k (Some va) (Some Bin_Add) h = (Inr (), h[d := DictVal (sm_put k (Some va) m)]) \<and>
      dict_apply d k (Some va) (Some Bin_Sub) h =
        (Inr (), h[va := IntVal (- v), d := DictVal (sm_put k (Some va) m)]) \<and>
      dict_apply d k (Some va) (Some Bin_Mult) h =
        (Inr (), (h @ [IntVal 0])[d := DictVal (sm_put k (Some (length h)) m)]))"
proof -
  have "d \<noteq> va" using assms by auto
  then show ?thesis
    using assms
    by (auto simp: dict_apply_def dict_insert_def dict_get_def int_at_def bnd_def hget_def gets_def
        hset_def modify_def hnew_def halloc_def ret_def nth_append list_update_append)
qed

theorem dict_augmented_assignment_witness:
  "dict_apply 0 ''k'' (Some 1) (Some Bin_Mult) [DictVal [(''k'', Some 2)], IntVal 3, IntVal 5] =
     (Inr (), [DictVal [(''k'', Some 2)], IntVal 3, IntVal 8])"
  using dict_augmented_assignment [of 0 "[DictVal [(''k'', Some 2)], IntVal 3, IntVal 5]" "[(''k'', Some 2)]" 1 3 "''k''"]
  by simp

end
