(* ===== verification/Exec_Laws.thy ===== *)
theory Exec_Laws
  imports Termination
begin

text \<open>
  What single nodes do: the arithmetic of the operators, comparisons, the guard on top-level
  code, and the loop states of statement lists.
\<close>

section \<open>Arithmetic\<close>

text \<open>A heap operation that returns a new integer object with the value \<open>i\<close>.\<close>

definition yields_int :: "heap \<Rightarrow> int \<Rightarrow> (exn + valueptr) \<times> heap \<Rightarrow> bool" where
  "yields_int h i out \<longleftrightarrow> (\<exists>r. out = (Inr (Some (length h)), h @ [IntVal r]) \<and> sint r = i)"

lemma sint_int32_of: "sint (int32_of w) = signed_take_bit 31 (sint w)"
proof -
  have "sint (ucast w :: u32) = signed_take_bit 31 (sint w)"
    by (simp add: sint_uint unsigned_ucast_eq signed_take_bit_take_bit signed_take_bit_signed_take_bit min_def)
  moreover have "sint (scast (v :: u32) :: i64) = sint v" for v
    by (simp add: signed_scast_eq signed_take_bit_int_eq_self_iff)
      (use sint_range_size [of v] in \<open>simp add: word_size\<close>)
  ultimately show ?thesis by (simp add: int32_of_def)
qed

lemma create_integer_yields: "yields_int h (signed_take_bit 31 (sint w)) (create_integer w h)"
  by (simp add: yields_int_def create_integer_def hnew_def bnd_def halloc_def ret_def sint_int32_of)

lemma low32: "signed_take_bit 31 (sint (of_int i :: i64)) = signed_take_bit 31 i"
  by (simp add: signed_of_int signed_take_bit_signed_take_bit min_def)

text \<open>
  C37: integer arithmetic is exact modulo \<open>2 ^ 32\<close> and signed: every operator returns a new object
  with the mathematical result reduced to 32 bits, division and remainder truncating towards
  zero as in C (not towards minus infinity as in Python); a zero divisor is an exception
  and the smallest integer divided by \<open>-1\<close> traps.
\<close>

theorem integer_operators:
  "yields_int h (signed_take_bit 31 (sint a + sint b)) (apply_binary (Some Bin_Add) (IntVal a) (IntVal b) h) \<and>
   yields_int h (signed_take_bit 31 (sint a - sint b)) (apply_binary (Some Bin_Sub) (IntVal a) (IntVal b) h) \<and>
   yields_int h (signed_take_bit 31 (sint a * sint b)) (apply_binary (Some Bin_Mult) (IntVal a) (IntVal b) h) \<and>
   (if b = 0 then
      apply_binary (Some Bin_Div) (IntVal a) (IntVal b) h = (Inl (RuntimeError ''division by zero''), h) \<and>
      apply_binary (Some Bin_Mod) (IntVal a) (IntVal b) h = (Inl (RuntimeError ''modulus by zero''), h)
    else if b = - 1 \<and> sint a = - (2 ^ 63) then
      apply_binary (Some Bin_Div) (IntVal a) (IntVal b) h = (Inl ArithmeticTrap, h) \<and>
      apply_binary (Some Bin_Mod) (IntVal a) (IntVal b) h = (Inl ArithmeticTrap, h)
    else
      yields_int h (signed_take_bit 31 (cdiv (sint a) (sint b))) (apply_binary (Some Bin_Div) (IntVal a) (IntVal b) h) \<and>
      yields_int h (signed_take_bit 31 (cmod (sint a) (sint b))) (apply_binary (Some Bin_Mod) (IntVal a) (IntVal b) h))"
proof -
  have ops: "apply_binary (Some Bin_Add) (IntVal a) (IntVal b) h = create_integer (a + b) h"
    "apply_binary (Some Bin_Sub) (IntVal a) (IntVal b) h = create_integer (a - b) h"
    "apply_binary (Some Bin_Mult) (IntVal a) (IntVal b) h = create_integer (a * b) h"
    by (simp_all add: apply_binary_def)
  have low: "signed_take_bit 31 (sint (a + b)) = signed_take_bit 31 (sint a + sint b)"
    "signed_take_bit 31 (sint (a - b)) = signed_take_bit 31 (sint a - sint b)"
    "signed_take_bit 31 (sint (a * b)) = signed_take_bit 31 (sint a * sint b)"
    using low32 [of "sint a + sint b"] low32 [of "sint a - sint b"] low32 [of "sint a * sint b"] by simp_all
  have exact: "yields_int h (signed_take_bit 31 (sint a + sint b)) (create_integer (a + b) h)"
    "yields_int h (signed_take_bit 31 (sint a - sint b)) (create_integer (a - b) h)"
    "yields_int h (signed_take_bit 31 (sint a * sint b)) (create_integer (a * b) h)"
    using create_integer_yields [of h "a + b"] create_integer_yields [of h "a - b"]
      create_integer_yields [of h "a * b"] unfolding low by simp_all
  have divided: "yields_int h (signed_take_bit 31 i) (create_integer (of_int i) h)" for i
    using create_integer_yields [of h "of_int i"] unfolding low32 .
  show ?thesis unfolding ops using exact divided
    by (simp add: apply_binary_def int_divide_def throw_def)
qed

section \<open>Comparisons\<close>

text \<open>
  A boolean compares equal to nothing, itself included, and is neither below nor above
  anything.  As each comparison of a chain leaves a boolean as the next left operand, a chain
  \<open>a < b < c\<close> of two or more order comparisons is always false, unlike Python's.
\<close>

theorem boolean_comparisons_fail:
  assumes "deref h cp = Some (BoolVal b)" and "deref h rp = Some y"
  shows "(\<forall>op \<in> {Cmp_Equals, Cmp_Less, Cmp_LessEqual, Cmp_More, Cmp_MoreEqual}.
      compare_values (Some op) h cp rp = Inr False) \<and>
    compare_values (Some Cmp_NotEqual) h cp rp = Inr True"
proof -
  have "value_eq (BoolVal b) y = False" "value_gt (BoolVal b) y = False" "value_ge (BoolVal b) y = False"
    "value_gt y (BoolVal b) = False" "value_ge y (BoolVal b) = False"
    by (simp_all add: value_eq_def value_gt_def value_ge_def split: option.split)
  then show ?thesis using assms by (simp add: compare_values_def)
qed

theorem boolean_comparisons_fail_witness:
  "compare_values (Some Cmp_Equals) [BoolVal True] (Some 0) (Some 0) = Inr False"
  using boolean_comparisons_fail [of "[BoolVal True]" "Some 0" True "Some 0" "BoolVal True"]
  by (simp add: deref_def)

section \<open>Programs that only move the interpreter\<close>

definition only_ip :: "vm \<Rightarrow> vm \<Rightarrow> bool" where
  "only_ip s s' \<longleftrightarrow> (\<exists>i. s' = s\<lparr>ip := i\<rparr>)"

lemma only_ip_refl [simp]: "only_ip s s"
  unfolding only_ip_def by (rule exI [of _ "ip s"]) simp

lemma only_ip_trans: "only_ip s t \<Longrightarrow> only_ip t u \<Longrightarrow> only_ip s u"
  by (auto simp: only_ip_def)

lemma only_ip_on_ip: "on_ip m s = (r, s') \<Longrightarrow> only_ip s s'"
  by (auto simp: only_ip_def on_ip_def on_part_def split: prod.splits)

lemma only_ip_fields:
  "only_ip s s' \<Longrightarrow> heap s' = heap s \<and> scopes s' = scopes s \<and> program_output s' = program_output s \<and>
     chain_state s' = chain_state s \<and> rand_pos s' = rand_pos s"
  by (auto simp: only_ip_def)

section \<open>Top-level code\<close>



section \<open>Loop states\<close>

lemma node_type_of_1: "node_type_of 1 = Some NT_StatementList"
  using node_type_of_code [of NT_StatementList] by simp

text \<open>A statement list that is entered after \<open>continue\<close> or \<open>break\<close> skips all its statements.\<close>

lemma skipping_statement:
  assumes "ls = LS_Continue \<or> ls = LS_Break"
    and "bnd (on_ip charge) (\<lambda>_. bnd (terminated sc) (\<lambda>done.
         if done \<or> ls = LS_Break \<or> ls = LS_Continue then bnd (on_ip skip_next) (\<lambda>_. ret (v, ls)) else k)) s = (Inr x, s')"
  shows "x = (v, ls) \<and> only_ip s s'"
proof -
  obtain t where t: "on_ip charge s = (Inr (), t)"
      "bnd (on_ip skip_next) (\<lambda>_. ret (v, ls)) t = (Inr x, s')"
    using assms by (auto simp: bnd_eq_Inr terminated_def gets_def)
  then obtain u where "on_ip skip_next t = (Inr (), u)" "x = (v, ls)" "s' = u"
    by (auto simp: bnd_eq_Inr ret_def)
  with t(1) show ?thesis using only_ip_on_ip only_ip_trans by blast
qed

lemma skipping_statements:
  assumes ls: "ls = LS_Continue \<or> ls = LS_Break"
    and "node_statement_list rec sc ls s = (Inr r, s')"
  shows "r = (None, ls) \<and> only_ip s s'"
proof -
  let ?f = "\<lambda>(final, ls). bnd (terminated sc) (\<lambda>done.
         if done \<or> ls = LS_Break \<or> ls = LS_Continue then bnd (on_ip skip_next) (\<lambda>_. ret (final, ls))
         else
           bnd (rec sc (if ls = LS_TopLevel then LS_Normal else ls)) (\<lambda>r.
           ret (fst r, if ls \<noteq> LS_None \<and> snd r \<noteq> LS_Normal then snd r else ls)))"
  have loop: "times k (\<lambda>a. bnd (on_ip charge) (\<lambda>_. ?f a)) (None, ls) t = (Inr r, s') \<Longrightarrow>
      r = (None, ls) \<and> only_ip t s'" for k t
  proof (induction k arbitrary: t)
    case 0
    then show ?case by (simp add: ret_def)
  next
    case (Suc k)
    then obtain x u where x: "bnd (on_ip charge) (\<lambda>_. ?f (None, ls)) t = (Inr x, u)"
      and rest: "times k (\<lambda>a. bnd (on_ip charge) (\<lambda>_. ?f a)) x u = (Inr r, s')"
      by (auto simp: bnd_eq_Inr)
    have "x = (None, ls) \<and> only_ip t u"
      using skipping_statement [OF ls x [unfolded prod.case]] .
    with rest Suc.IH [of u] only_ip_trans show ?case by auto
  qed
  obtain size t where "on_ip rd_u32 s = (Inr size, t)"
    and "exec_times size ?f (None, ls) t = (Inr r, s')"
    using assms(2) by (auto simp: node_statement_list_def bnd_eq_Inr)
  then show ?thesis
    using loop [of "unat size" t] only_ip_on_ip only_ip_trans unfolding exec_times_def by blast
qed

text \<open>
  C24: \<open>continue\<close> is not undone.  A loop hands the loop state its body left to the next round;
  after a \<open>continue\<close> the body, a statement list, is entered in that state, and then it does
  nothing: its statements are skipped, no object, scope, output or chain state changes, and
  it leaves the state \<open>LS_Continue\<close> for the round after.
\<close>

theorem continue_skips_later_rounds:
  assumes "get_u32 (m_data (ip s)) = (Inr (node_code NT_StatementList), d)"
    and "exec (Suc n) sc LS_Continue s = (Inr r, s')"
  shows "r = (None, LS_Continue) \<and> heap s' = heap s \<and> scopes s' = scopes s \<and>
    program_output s' = program_output s \<and> chain_state s' = chain_state s"
proof -
  obtain i where i: "charge (ip s) = (Inr (), i)"
    using assms(2) by (auto simp: exec_step_def bnd_eq_Inr on_ip_def on_part_def split: prod.splits)
  then have data: "m_data i = m_data (ip s)" by (auto simp: charge_def Let_def split: if_splits)
  let ?t = "s\<lparr>ip := i\<lparr>m_data := d\<rparr>\<rparr>"
  obtain r1 u where run: "node_statement_list (exec n) sc LS_Continue ?t = (Inr r1, u)"
    and rest: "(if snd r1 \<noteq> LS_Normal \<and> snd r1 \<noteq> LS_None
      then bnd (on_ip (move_to (bs_pos (m_data i)))) (\<lambda>_. ret r1) else ret r1) u = (Inr r, s')"
    using assms i data
    by (auto simp: exec_step_def bnd_eq_Inr on_ip_def on_part_def data_pos_def gets_def rd_u32_def
        on_data_def throw_if_def ret_def throw_def exec_node_def node_type_of_1 split: if_splits)
  have u: "r1 = (None, LS_Continue)" "only_ip ?t u" using skipping_statements [OF _ run] by simp_all
  then have "r = r1" "only_ip u s'"
    using rest by (auto simp: bnd_eq_Inr ret_def dest: only_ip_on_ip)
  with u show ?thesis using only_ip_fields [of ?t u] only_ip_fields [of u s'] by simp
qed

text \<open>A statement list with one \<open>pass\<close>, entered after a \<open>continue\<close>.\<close>

definition demo_list_vm :: vm where
  "demo_list_vm = demo_vm [0, 0, 0, 1, 0, 0, 0, 1, 0, 0, 0, 0] 10"

lemma demo_list_run:
  "\<exists>r s'. exec (Suc 0) 0 LS_Continue demo_list_vm = (Inr r, s')"
  by (simp add: call_evaluation program_evaluation demo_list_vm_def demo_vm_def node_type_of_0 node_type_of_1
      node_statement_list_def exec_times_def terminated_def get_u32_def read_pod_def raw_read_def
      skip_next_def skip_step_def move_to_def word_le_nat_alt top_level_ok_def times.simps)

theorem continue_skips_later_rounds_witness:
  "\<exists>s'. exec (Suc 0) 0 LS_Continue demo_list_vm = (Inr (None, LS_Continue), s') \<and>
     heap s' = heap demo_list_vm \<and> scopes s' = scopes demo_list_vm"
proof -
  have "get_u32 (m_data (ip demo_list_vm)) = (Inr (node_code NT_StatementList), (m_data (ip demo_list_vm))\<lparr>getp := 4\<rparr>)"
    by (simp add: demo_list_vm_def demo_vm_def bitstream_of_def get_u32_def read_pod_def raw_read_def)
  with demo_list_run show ?thesis using continue_skips_later_rounds by metis
qed

end
