(* ===== verification/Compiler.thy ===== *)
theory Compiler
  imports Bitstream Node_Types
begin

text \<open>
  The compiler (\<^verbatim>\<open>src/compiler/Compiler.cpp\<close>): from the parser's syntax tree to bytecode.
  \<open>parse_next\<close> is the code's writer, which fills the length of a function in after its body;
  \<open>encode\<close> is the bytecode of a tree as a pure function, and \<open>compile_emits_code\<close> shows that
  the writer produces it.  At the end, the line reader the compiler gives the parser.
\<close>

section \<open>The syntax tree\<close>

text \<open>
  The node classes of \<^verbatim>\<open>thirdparty/libpypa/src/pypa/ast/ast.hh\<close> that \<open>parse_next\<close> has a case
  for, with the fields it reads; \<open>AstOther\<close> is any other class.  An \<open>AstExpr\<close>, \<open>AstStmt\<close> or
  slice pointer may be null.  \<open>AstDict\<close> and \<open>AstCompare\<close> pair the entries of two vectors that
  the parser fills together.  The names of an \<open>AstAlias\<close> are \<open>AstName\<close> nodes, which the code
  casts to without a check; their \<open>id\<close> stands for them.
\<close>

datatype num_type = NumInteger | NumLong | NumFloat

datatype ast =
    AstImportFrom "ast option" "ast option"
  | AstImport "ast option"
  | AstAlias string "string option"
  | AstName string
  | AstAssign "ast option list" "ast option"
  | AstSuite "ast option list"
  | AstStr string
  | AstDocString string
  | AstReturn "ast option"
  | AstDict "(ast option \<times> ast option) list"
  | AstCompare "ast option" "(compare_op \<times> ast option) list"
  | AstNumber num_type i64
  | AstIf "ast option" "ast option" "ast option"
  | AstCall "ast option" "ast option list"
  | AstAttribute "ast option" "ast option"
  | AstUnaryOp unary_op "ast option"
  | AstBoolOp bool_op "ast option list"
  | AstBinOp "ast option" binary_op "ast option"
  | AstList "ast option list"
  | AstSubscript "ast option" "ast option"
  | AstIndex "ast option"
  | AstFor "ast option" "ast option" "ast option"
  | AstWhile "ast option" "ast option"
  | AstAugAssign binary_op "ast option" "ast option"
  | AstExpressionStatement "ast option"
  | AstContinue
  | AstBreak
  | AstTuple "ast option list"
  | AstPass
  | AstListComp "ast option" "ast option list"
  | AstComprehension "ast option" "ast option" "ast option list"
  | AstGlobal "ast option list"
  | AstFunctionDef "ast option" "ast option list" "ast option list" "ast option"
  | AstOther

section \<open>The writer\<close>

text \<open>\<open>std::string(s.c_str())\<close> ends at the first null character.\<close>

definition c_str :: "string \<Rightarrow> string" where
  "c_str s = takeWhile (\<lambda>c. c \<noteq> CHR 0x00) s"

type_synonym writing = "(bitstream, unit) prog"

definition emit_u32 :: "u32 \<Rightarrow> writing" where
  "emit_u32 v = modify (put_u32 v)"

definition emit_node :: "node_type \<Rightarrow> writing" where
  "emit_node t = emit_u32 (node_code t)"

definition emit_string :: "string \<Rightarrow> writing" where
  "emit_string s = modify (put_string s)"

definition malicious :: exn where
  "malicious = RuntimeError ''mailicious input''"

definition unknown_statement :: exn where
  "unknown_statement = RuntimeError ''Unknown statement type!''"

definition unknown_number :: exn where
  "unknown_number = RuntimeError ''Unknown number type!''"

text \<open>\<open>SAFE_PARSE_NEXT\<close>, \<open>parse_expr_list\<close> and \<open>parse_stmt_list\<close> over the recursive call.\<close>

definition safe_parse_next :: "('a \<Rightarrow> ('s, 'b) prog) \<Rightarrow> 'a option \<Rightarrow> ('s, 'b) prog" where
  "safe_parse_next rec p = (case p of None \<Rightarrow> throw malicious | Some a \<Rightarrow> rec a)"

definition parse_item :: "(ast \<Rightarrow> writing) \<Rightarrow> ast option \<Rightarrow> writing" where
  "parse_item rec p = (case p of None \<Rightarrow> emit_node NT_Pass | Some a \<Rightarrow> rec a)"

definition parse_expr_list :: "(ast \<Rightarrow> writing) \<Rightarrow> ast option list \<Rightarrow> writing" where
  "parse_expr_list rec xs =
     bnd (emit_u32 (of_nat (length xs))) (\<lambda>_. for_each xs (parse_item rec))"

definition parse_stmt_list :: "(ast \<Rightarrow> writing) \<Rightarrow> ast option list \<Rightarrow> writing" where
  "parse_stmt_list rec xs =
     bnd (emit_u32 (of_nat (length xs))) (\<lambda>_. for_each xs (safe_parse_next rec))"

text \<open>The function package learns from these rules which nodes a loop visits.\<close>

lemma for_each_cong [fundef_cong]:
  "xs = ys \<Longrightarrow> (\<And>x. x \<in> set ys \<Longrightarrow> f x = g x) \<Longrightarrow> for_each xs f = for_each ys g"
  by (induction xs arbitrary: ys) auto

lemma safe_parse_next_cong [fundef_cong]:
  "p = q \<Longrightarrow> (\<And>a. q = Some a \<Longrightarrow> f a = g a) \<Longrightarrow> safe_parse_next f p = safe_parse_next g q"
  by (cases q) (simp_all add: safe_parse_next_def)

lemma parse_item_cong [fundef_cong]:
  "p = q \<Longrightarrow> (\<And>a. q = Some a \<Longrightarrow> f a = g a) \<Longrightarrow> parse_item f p = parse_item g q"
  by (cases q) (simp_all add: parse_item_def)

lemma parse_expr_list_cong [fundef_cong]:
  assumes "xs = ys" and "\<And>a. Some a \<in> set ys \<Longrightarrow> f a = g a"
  shows "parse_expr_list f xs = parse_expr_list g ys"
proof -
  have "for_each xs (parse_item f) = for_each ys (parse_item g)"
    using assms by (intro for_each_cong parse_item_cong) simp_all
  then show ?thesis using assms(1) by (simp add: parse_expr_list_def)
qed

lemma parse_stmt_list_cong [fundef_cong]:
  assumes "xs = ys" and "\<And>a. Some a \<in> set ys \<Longrightarrow> f a = g a"
  shows "parse_stmt_list f xs = parse_stmt_list g ys"
proof -
  have "for_each xs (safe_parse_next f) = for_each ys (safe_parse_next g)"
    using assms by (intro for_each_cong safe_parse_next_cong) simp_all
  then show ?thesis using assms(1) by (simp add: parse_stmt_list_def)
qed

text \<open>
  The values of an \<open>AstBoolOp\<close> go to the overload of \<open>parse_next\<close> for \<open>AstExpr\<close>, which is a
  \<open>std::shared_ptr\<close>: the \<open>reinterpret_cast\<close> there reads the pointer object itself as a node,
  so its type is the low half of the node's address, which is not one of the small numbers of
  \<open>AstType\<close>, and the switch ends in its default case.
\<close>

definition parse_pointer :: "ast option \<Rightarrow> writing" where
  "parse_pointer p = throw unknown_statement"

text \<open>The stub of a function: four bytes of length, filled in when the body has been written.\<close>

definition patch_length :: "u32 \<Rightarrow> u32 \<Rightarrow> writing" where
  "patch_length dummy_pos len =
     bnd (modify (bs_move_to_write dummy_pos)) (\<lambda>_.
     bnd (emit_u32 len) (\<lambda>_. modify bs_move_to_end_write))"

text \<open>
  One definition per case of the switch, over what the nested calls write.  \<open>parse_next\<close> passes
  each the calls of \<open>SAFE_PARSE_NEXT\<close>, \<open>parse_expr_list\<close> and \<open>parse_stmt_list\<close> that the case makes.
\<close>

definition write_import_from :: "writing \<Rightarrow> writing \<Rightarrow> writing" where
  "write_import_from module names = bnd (emit_node NT_ImportFrom) (\<lambda>_. bnd module (\<lambda>_. names))"

definition write_import :: "writing \<Rightarrow> writing" where
  "write_import names = bnd (emit_node NT_Import) (\<lambda>_. names)"

definition write_alias :: "string \<Rightarrow> string option \<Rightarrow> writing" where
  "write_alias name as_name =
     bnd (emit_node NT_Alias) (\<lambda>_.
     bnd (emit_string (c_str name)) (\<lambda>_.
     emit_string (case as_name of Some n \<Rightarrow> c_str n | None \<Rightarrow> [])))"

definition write_name :: "string \<Rightarrow> writing" where
  "write_name name = bnd (emit_node NT_Name) (\<lambda>_. emit_string (c_str name))"

definition write_assign :: "writing \<Rightarrow> writing \<Rightarrow> writing" where
  "write_assign value targets = bnd (emit_node NT_Assign) (\<lambda>_. bnd value (\<lambda>_. targets))"

definition write_suite :: "writing \<Rightarrow> writing" where
  "write_suite items = bnd (emit_node NT_StatementList) (\<lambda>_. items)"

definition write_str :: "string \<Rightarrow> writing" where
  "write_str value = bnd (emit_node NT_String) (\<lambda>_. emit_string (c_str value))"

definition write_return :: "writing \<Rightarrow> writing" where
  "write_return value = bnd (emit_node NT_Return) (\<lambda>_. value)"

definition write_dict :: "nat \<Rightarrow> writing \<Rightarrow> writing" where
  "write_dict n entries =
     bnd (emit_node NT_Dictionary) (\<lambda>_. bnd (emit_u32 (of_nat n)) (\<lambda>_. entries))"

definition write_compare :: "writing \<Rightarrow> nat \<Rightarrow> writing \<Rightarrow> writing" where
  "write_compare left n comparators =
     bnd (emit_node NT_Compare) (\<lambda>_.
     bnd left (\<lambda>_.
     bnd (emit_u32 (of_nat n)) (\<lambda>_. comparators)))"

definition write_number :: "num_type \<Rightarrow> i64 \<Rightarrow> writing" where
  "write_number t integer =
     (if t = NumInteger then bnd (emit_node NT_Integer) (\<lambda>_. emit_u32 (ucast integer))
      else throw unknown_number)"

definition write_if :: "writing \<Rightarrow> writing \<Rightarrow> writing option \<Rightarrow> writing" where
  "write_if test body orelse =
     (case orelse of
        Some e \<Rightarrow> bnd (emit_node NT_IfElse) (\<lambda>_. bnd test (\<lambda>_. bnd body (\<lambda>_. e)))
      | None \<Rightarrow> bnd (emit_node NT_If) (\<lambda>_. bnd test (\<lambda>_. body)))"

definition write_call :: "writing \<Rightarrow> writing \<Rightarrow> writing" where
  "write_call function arguments = bnd (emit_node NT_Call) (\<lambda>_. bnd function (\<lambda>_. arguments))"

definition write_attribute :: "writing \<Rightarrow> writing \<Rightarrow> writing" where
  "write_attribute value attribute = bnd (emit_node NT_Attribute) (\<lambda>_. bnd value (\<lambda>_. attribute))"

definition write_unary_op :: "unary_op \<Rightarrow> writing \<Rightarrow> writing" where
  "write_unary_op oper operand =
     bnd (emit_node NT_UnaryOp) (\<lambda>_. bnd (emit_u32 (unary_code oper)) (\<lambda>_. operand))"

definition write_bool_op :: "bool_op \<Rightarrow> ast option list \<Rightarrow> writing" where
  "write_bool_op oper vals =
     bnd (emit_node NT_BoolOp) (\<lambda>_.
     bnd (emit_u32 (bool_code oper)) (\<lambda>_.
     bnd (emit_u32 (of_nat (length vals))) (\<lambda>_. for_each vals parse_pointer)))"

definition write_binary_op :: "writing \<Rightarrow> binary_op \<Rightarrow> writing \<Rightarrow> writing" where
  "write_binary_op left oper right =
     bnd (emit_node NT_BinaryOp) (\<lambda>_.
     bnd (emit_u32 (binary_code oper)) (\<lambda>_.
     bnd left (\<lambda>_. right)))"

definition write_list :: "writing \<Rightarrow> writing" where
  "write_list elements = bnd (emit_node NT_List) (\<lambda>_. elements)"

definition write_subscript :: "writing \<Rightarrow> writing \<Rightarrow> writing" where
  "write_subscript slice_type value = bnd (emit_node NT_Subscript) (\<lambda>_. bnd slice_type (\<lambda>_. value))"

definition write_index :: "writing \<Rightarrow> writing" where
  "write_index value = bnd (emit_node NT_Index) (\<lambda>_. value)"

definition write_for :: "writing \<Rightarrow> writing \<Rightarrow> writing \<Rightarrow> writing" where
  "write_for target iter body =
     bnd (emit_node NT_ForLoop) (\<lambda>_. bnd target (\<lambda>_. bnd iter (\<lambda>_. body)))"

definition write_while :: "writing \<Rightarrow> writing \<Rightarrow> writing" where
  "write_while test body = bnd (emit_node NT_WhileLoop) (\<lambda>_. bnd test (\<lambda>_. body))"

definition write_aug_assign :: "binary_op \<Rightarrow> writing \<Rightarrow> writing \<Rightarrow> writing" where
  "write_aug_assign oper target value =
     bnd (emit_node NT_AugmentedAssign) (\<lambda>_.
     bnd (emit_u32 (binary_code oper)) (\<lambda>_.
     bnd target (\<lambda>_. value)))"

definition write_tuple :: "writing \<Rightarrow> writing" where
  "write_tuple elements = bnd (emit_node NT_Tuple) (\<lambda>_. elements)"

definition write_list_comp :: "writing \<Rightarrow> writing \<Rightarrow> writing" where
  "write_list_comp element generators = bnd (emit_node NT_ListComp) (\<lambda>_. bnd element (\<lambda>_. generators))"

definition write_comprehension :: "writing \<Rightarrow> writing \<Rightarrow> writing \<Rightarrow> writing" where
  "write_comprehension target iter ifs =
     bnd (emit_node NT_Comprehension) (\<lambda>_. bnd target (\<lambda>_. bnd iter (\<lambda>_. ifs)))"

definition write_global :: "writing \<Rightarrow> writing" where
  "write_global names = bnd (emit_node NT_Global) (\<lambda>_. names)"

definition write_function_def :: "writing \<Rightarrow> writing \<Rightarrow> writing \<Rightarrow> writing \<Rightarrow> writing" where
  "write_function_def name arguments defaults body =
     bnd (emit_node NT_FunctionDef) (\<lambda>_.
     bnd name (\<lambda>_.
     bnd (gets bs_pos_write) (\<lambda>dummy_pos.
     bnd (emit_u32 0) (\<lambda>_.
     bnd (emit_node NT_FunctionStart) (\<lambda>_.
     bnd arguments (\<lambda>_.
     bnd (emit_node NT_FunctionStartDefaults) (\<lambda>_.
     bnd defaults (\<lambda>_.
     bnd (emit_node NT_FunctionStartStub) (\<lambda>_.
     bnd (gets bs_pos_write) (\<lambda>size_start.
     bnd body (\<lambda>_.
     bnd (gets bs_pos_write) (\<lambda>size_end.
     bnd (patch_length dummy_pos (size_end - size_start)) (\<lambda>_.
     emit_node NT_FunctionEnd)))))))))))))"

fun parse_next :: "ast \<Rightarrow> writing" where
  "parse_next (AstImportFrom module names) =
     write_import_from (safe_parse_next parse_next module) (safe_parse_next parse_next names)"
| "parse_next (AstImport names) = write_import (safe_parse_next parse_next names)"
| "parse_next (AstAlias name as_name) = write_alias name as_name"
| "parse_next (AstName name) = write_name name"
| "parse_next (AstAssign targets value) =
     write_assign (safe_parse_next parse_next value) (parse_expr_list parse_next targets)"
| "parse_next (AstSuite items) = write_suite (parse_stmt_list parse_next items)"
| "parse_next (AstStr value) = write_str value"
| "parse_next (AstDocString doc) = write_str doc"
| "parse_next (AstReturn value) = write_return (safe_parse_next parse_next value)"
| "parse_next (AstDict entries) =
     write_dict (length entries) (for_each entries (\<lambda>(k, v).
       bnd (safe_parse_next parse_next k) (\<lambda>_. safe_parse_next parse_next v)))"
| "parse_next (AstCompare left comparators) =
     write_compare (safe_parse_next parse_next left) (length comparators)
       (for_each comparators (\<lambda>(oper, c).
          bnd (emit_u32 (compare_code oper)) (\<lambda>_. safe_parse_next parse_next c)))"
| "parse_next (AstNumber t integer) = write_number t integer"
| "parse_next (AstIf test body orelse) =
     write_if (safe_parse_next parse_next test) (safe_parse_next parse_next body) (map_option parse_next orelse)"
| "parse_next (AstCall function arguments) =
     write_call (safe_parse_next parse_next function) (parse_expr_list parse_next arguments)"
| "parse_next (AstAttribute value attribute) =
     write_attribute (safe_parse_next parse_next value) (safe_parse_next parse_next attribute)"
| "parse_next (AstUnaryOp oper operand) = write_unary_op oper (safe_parse_next parse_next operand)"
| "parse_next (AstBoolOp oper vals) = write_bool_op oper vals"
| "parse_next (AstBinOp left oper right) =
     write_binary_op (safe_parse_next parse_next left) oper (safe_parse_next parse_next right)"
| "parse_next (AstList elements) = write_list (parse_expr_list parse_next elements)"
| "parse_next (AstSubscript value slice_type) =
     write_subscript (safe_parse_next parse_next slice_type) (safe_parse_next parse_next value)"
| "parse_next (AstIndex value) = write_index (safe_parse_next parse_next value)"
| "parse_next (AstFor target iter body) =
     write_for (safe_parse_next parse_next target) (safe_parse_next parse_next iter)
       (safe_parse_next parse_next body)"
| "parse_next (AstWhile test body) =
     write_while (safe_parse_next parse_next test) (safe_parse_next parse_next body)"
| "parse_next (AstAugAssign oper target value) =
     write_aug_assign oper (safe_parse_next parse_next target) (safe_parse_next parse_next value)"
| "parse_next (AstExpressionStatement expr) = safe_parse_next parse_next expr"
| "parse_next AstContinue = emit_node NT_Continue"
| "parse_next AstBreak = emit_node NT_Break"
| "parse_next (AstTuple elements) = write_tuple (parse_stmt_list parse_next elements)"
| "parse_next AstPass = emit_node NT_Pass"
| "parse_next (AstListComp element generators) =
     write_list_comp (safe_parse_next parse_next element) (parse_expr_list parse_next generators)"
| "parse_next (AstComprehension target iter ifs) =
     write_comprehension (safe_parse_next parse_next target) (safe_parse_next parse_next iter)
       (parse_expr_list parse_next ifs)"
| "parse_next (AstGlobal names) = write_global (parse_stmt_list parse_next names)"
| "parse_next (AstFunctionDef name arguments defaults body) =
     write_function_def (safe_parse_next parse_next name) (parse_expr_list parse_next arguments)
       (parse_expr_list parse_next defaults) (safe_parse_next parse_next body)"
| "parse_next AstOther = throw unknown_statement"

lemmas write_defs =
  write_import_from_def write_import_def write_alias_def write_name_def write_assign_def
  write_suite_def write_str_def write_return_def write_dict_def write_compare_def
  write_number_def write_if_def write_call_def write_attribute_def write_unary_op_def
  write_bool_op_def write_binary_op_def write_list_def write_subscript_def write_index_def
  write_for_def write_while_def write_aug_assign_def write_tuple_def write_list_comp_def
  write_comprehension_def write_global_def write_function_def_def

text \<open>The cases with everything they write.\<close>

lemmas parse_next_simps = parse_next.simps [unfolded write_defs Option.case_map_option o_def]

declare parse_next.simps [simp del] and parse_next_simps [simp]

text \<open>\<open>Compiler::run\<close> and \<open>get_result\<close>: the stream the module's body leaves.\<close>

definition compile :: "ast option \<Rightarrow> exn + bitstream" where
  "compile body =
     (case safe_parse_next parse_next body (bitstream_of []) of
        (Inl e, s) \<Rightarrow> Inl e
      | (Inr u, s) \<Rightarrow> Inr (bitstream_of (bytecode s)))"

section \<open>The bytecode as a function of the tree\<close>

text \<open>
  \<open>encode\<close> says what the bytecode of a tree is, without a stream: the first error in the
  order of the tree, or the bytes.  The length in a function's stub is that of its body.
\<close>

definition cat :: "exn + u8 list \<Rightarrow> exn + u8 list \<Rightarrow> exn + u8 list" where
  "cat x y =
     (case x of
        Inl e \<Rightarrow> Inl e
      | Inr xs \<Rightarrow> (case y of Inl e \<Rightarrow> Inl e | Inr ys \<Rightarrow> Inr (xs @ ys)))"

definition cats :: "(exn + u8 list) list \<Rightarrow> exn + u8 list" where
  "cats xs = foldr cat xs (Inr [])"

definition word_bytes :: "u32 \<Rightarrow> exn + u8 list" where
  "word_bytes v = Inr (be32 v)"

definition node_bytes :: "node_type \<Rightarrow> exn + u8 list" where
  "node_bytes t = word_bytes (node_code t)"

definition string_bytes :: "string \<Rightarrow> exn + u8 list" where
  "string_bytes s = Inr (enc_string s)"

definition encode_ptr :: "('a \<Rightarrow> exn + u8 list) \<Rightarrow> 'a option \<Rightarrow> exn + u8 list" where
  "encode_ptr rec p = (case p of None \<Rightarrow> Inl malicious | Some a \<Rightarrow> rec a)"

definition encode_item :: "(ast \<Rightarrow> exn + u8 list) \<Rightarrow> ast option \<Rightarrow> exn + u8 list" where
  "encode_item rec p = (case p of None \<Rightarrow> node_bytes NT_Pass | Some a \<Rightarrow> rec a)"

definition encode_list :: "('a \<Rightarrow> exn + u8 list) \<Rightarrow> 'a list \<Rightarrow> exn + u8 list" where
  "encode_list f xs = cat (word_bytes (of_nat (length xs))) (cats (map f xs))"

definition length_bytes :: "exn + u8 list \<Rightarrow> exn + u8 list" where
  "length_bytes r = (case r of Inl e \<Rightarrow> word_bytes 0 | Inr bs \<Rightarrow> word_bytes (of_nat (length bs)))"

lemma encode_ptr_cong [fundef_cong]:
  "p = q \<Longrightarrow> (\<And>a. q = Some a \<Longrightarrow> f a = g a) \<Longrightarrow> encode_ptr f p = encode_ptr g q"
  by (cases q) (simp_all add: encode_ptr_def)

lemma encode_item_cong [fundef_cong]:
  "p = q \<Longrightarrow> (\<And>a. q = Some a \<Longrightarrow> f a = g a) \<Longrightarrow> encode_item f p = encode_item g q"
  by (cases q) (simp_all add: encode_item_def)

lemma encode_list_cong [fundef_cong]:
  "xs = ys \<Longrightarrow> (\<And>x. x \<in> set ys \<Longrightarrow> f x = g x) \<Longrightarrow> encode_list f xs = encode_list g ys"
  by (simp add: encode_list_def cong: map_cong)

fun encode :: "ast \<Rightarrow> exn + u8 list" where
  "encode (AstImportFrom module names) =
     cats [node_bytes NT_ImportFrom, encode_ptr encode module, encode_ptr encode names]"
| "encode (AstImport names) = cats [node_bytes NT_Import, encode_ptr encode names]"
| "encode (AstAlias name as_name) =
     cats [node_bytes NT_Alias, string_bytes (c_str name),
       string_bytes (case as_name of Some n \<Rightarrow> c_str n | None \<Rightarrow> [])]"
| "encode (AstName name) = cats [node_bytes NT_Name, string_bytes (c_str name)]"
| "encode (AstAssign targets value) =
     cats [node_bytes NT_Assign, encode_ptr encode value, encode_list (encode_item encode) targets]"
| "encode (AstSuite items) = cats [node_bytes NT_StatementList, encode_list (encode_ptr encode) items]"
| "encode (AstStr value) = cats [node_bytes NT_String, string_bytes (c_str value)]"
| "encode (AstDocString doc) = cats [node_bytes NT_String, string_bytes (c_str doc)]"
| "encode (AstReturn value) = cats [node_bytes NT_Return, encode_ptr encode value]"
| "encode (AstDict entries) =
     cats [node_bytes NT_Dictionary,
       encode_list (\<lambda>(k, v). cats [encode_ptr encode k, encode_ptr encode v]) entries]"
| "encode (AstCompare left comparators) =
     cats [node_bytes NT_Compare, encode_ptr encode left,
       encode_list (\<lambda>(oper, c). cats [word_bytes (compare_code oper), encode_ptr encode c]) comparators]"
| "encode (AstNumber t integer) =
     (if t = NumInteger then cats [node_bytes NT_Integer, word_bytes (ucast integer)]
      else Inl unknown_number)"
| "encode (AstIf test body orelse) =
     (case orelse of
        Some e \<Rightarrow> cats [node_bytes NT_IfElse, encode_ptr encode test, encode_ptr encode body, encode e]
      | None \<Rightarrow> cats [node_bytes NT_If, encode_ptr encode test, encode_ptr encode body])"
| "encode (AstCall function arguments) =
     cats [node_bytes NT_Call, encode_ptr encode function, encode_list (encode_item encode) arguments]"
| "encode (AstAttribute value attribute) =
     cats [node_bytes NT_Attribute, encode_ptr encode value, encode_ptr encode attribute]"
| "encode (AstUnaryOp oper operand) =
     cats [node_bytes NT_UnaryOp, word_bytes (unary_code oper), encode_ptr encode operand]"
| "encode (AstBoolOp oper values) =
     cats [node_bytes NT_BoolOp, word_bytes (bool_code oper),
       encode_list (\<lambda>_. Inl unknown_statement) values]"
| "encode (AstBinOp left oper right) =
     cats [node_bytes NT_BinaryOp, word_bytes (binary_code oper), encode_ptr encode left,
       encode_ptr encode right]"
| "encode (AstList elements) = cats [node_bytes NT_List, encode_list (encode_item encode) elements]"
| "encode (AstSubscript value slice_type) =
     cats [node_bytes NT_Subscript, encode_ptr encode slice_type, encode_ptr encode value]"
| "encode (AstIndex value) = cats [node_bytes NT_Index, encode_ptr encode value]"
| "encode (AstFor target iter body) =
     cats [node_bytes NT_ForLoop, encode_ptr encode target, encode_ptr encode iter, encode_ptr encode body]"
| "encode (AstWhile test body) =
     cats [node_bytes NT_WhileLoop, encode_ptr encode test, encode_ptr encode body]"
| "encode (AstAugAssign oper target value) =
     cats [node_bytes NT_AugmentedAssign, word_bytes (binary_code oper), encode_ptr encode target,
       encode_ptr encode value]"
| "encode (AstExpressionStatement expr) = encode_ptr encode expr"
| "encode AstContinue = node_bytes NT_Continue"
| "encode AstBreak = node_bytes NT_Break"
| "encode (AstTuple elements) = cats [node_bytes NT_Tuple, encode_list (encode_ptr encode) elements]"
| "encode AstPass = node_bytes NT_Pass"
| "encode (AstListComp element generators) =
     cats [node_bytes NT_ListComp, encode_ptr encode element, encode_list (encode_item encode) generators]"
| "encode (AstComprehension target iter ifs) =
     cats [node_bytes NT_Comprehension, encode_ptr encode target, encode_ptr encode iter,
       encode_list (encode_item encode) ifs]"
| "encode (AstGlobal names) = cats [node_bytes NT_Global, encode_list (encode_ptr encode) names]"
| "encode (AstFunctionDef name arguments defaults body) =
     (let stub = encode_ptr encode body
      in cats [node_bytes NT_FunctionDef, encode_ptr encode name, length_bytes stub,
           node_bytes NT_FunctionStart, encode_list (encode_item encode) arguments,
           node_bytes NT_FunctionStartDefaults, encode_list (encode_item encode) defaults,
           node_bytes NT_FunctionStartStub, stub, node_bytes NT_FunctionEnd])"
| "encode AstOther = Inl unknown_statement"

section \<open>The writer refines \<open>encode\<close>\<close>

text \<open>
  \<open>emits m r\<close>: whatever the stream is, \<open>m\<close> throws exactly the error \<open>r\<close> is, and on a stream
  that is written at its end, and stays below the 4 GB that positions can address, it appends
  exactly the bytes of \<open>r\<close>.
\<close>

definition outcome :: "('s, unit) prog \<Rightarrow> exn + u8 list \<Rightarrow> bool" where
  "outcome m r \<longleftrightarrow> (\<forall>s. fst (m s) = map_sum (\<lambda>e. e) (\<lambda>_. ()) r)"

definition emits :: "writing \<Rightarrow> exn + u8 list \<Rightarrow> bool" where
  "emits m r \<longleftrightarrow> outcome m r \<and>
     (\<forall>bs pre. r = Inr bs \<longrightarrow> length pre + length bs < 2 ^ 32 \<longrightarrow> snd (m (writer pre)) = writer (pre @ bs))"

named_theorems emits_intros

lemma cat_simps [simp]:
  "cat (Inl e) y = Inl e" "cat (Inr xs) (Inl e) = Inl e" "cat (Inr xs) (Inr ys) = Inr (xs @ ys)"
  "cat x (Inr []) = x"
  by (simp_all add: cat_def split: sum.split)

lemma cat_eq_Inr: "cat x y = Inr bs \<longleftrightarrow> (\<exists>xs ys. x = Inr xs \<and> y = Inr ys \<and> bs = xs @ ys)"
  by (auto simp: cat_def split: sum.split)

lemma cats_simps [simp]:
  "cats [] = Inr []" "cats [x] = x" "cats (x # y # zs) = cat x (cats (y # zs))"
  by (simp_all add: cats_def)

lemma cats_Cons: "cats (x # xs) = cat x (cats xs)"
  by (simp add: cats_def)

lemma outcome_bnd: "outcome m x \<Longrightarrow> outcome (f ()) y \<Longrightarrow> outcome (bnd m f) (cat x y)"
  by (cases x; cases y) (auto simp: outcome_def bnd_def split: prod.split sum.split, (metis fst_conv sum.distinct(1) sum.inject(1))+)

lemma outcome_gets: "(\<And>x. outcome (f x) r) \<Longrightarrow> outcome (bnd (gets g) f) r"
  by (simp add: outcome_def bnd_def gets_def)

lemma outcome_modify: "outcome (modify f) (Inr bs)"
  by (simp add: outcome_def modify_def)

lemma emits_run:
  "emits m (Inr bs) \<Longrightarrow> length pre + length bs < 2 ^ 32 \<Longrightarrow> m (writer pre) = (Inr (), writer (pre @ bs))"
  by (simp add: emits_def outcome_def prod_eq_iff)

lemma emits_outcome: "emits m r \<Longrightarrow> outcome m r"
  by (simp add: emits_def)

lemma emitsI:
  assumes "outcome m r"
    and "\<And>bs pre. r = Inr bs \<Longrightarrow> length pre + length bs < 2 ^ 32 \<Longrightarrow> m (writer pre) = (Inr (), writer (pre @ bs))"
  shows "emits m r"
  using assms by (simp add: emits_def)

lemma emits_bnd [emits_intros]:
  assumes "emits m x" and "emits m' y"
  shows "emits (bnd m (\<lambda>_. m')) (cat x y)"
proof (rule emitsI)
  show "outcome (bnd m (\<lambda>_. m')) (cat x y)"
    using assms by (intro outcome_bnd) (simp_all add: emits_outcome)
  fix bs and pre :: "u8 list" assume "cat x y = Inr bs" and len: "length pre + length bs < 2 ^ 32"
  then obtain xs ys where "x = Inr xs" "y = Inr ys" "bs = xs @ ys" by (auto simp: cat_eq_Inr)
  then show "bnd m (\<lambda>_. m') (writer pre) = (Inr (), writer (pre @ bs))"
    using len assms emits_run [of m xs pre] emits_run [of m' ys "pre @ xs"] by (simp add: bnd_def)
qed

lemma emits_nothing [emits_intros]: "emits (ret ()) (Inr [])"
  by (simp add: emits_def outcome_def ret_def)

lemma emits_throw [emits_intros]: "emits (throw e) (Inl e)"
  by (simp add: emits_def outcome_def throw_def)

lemma emits_u32 [emits_intros]: "emits (emit_u32 v) (word_bytes v)"
  by (simp add: emits_def outcome_def emit_u32_def modify_def word_bytes_def)

lemma emits_node [emits_intros]: "emits (emit_node t) (node_bytes t)"
  by (simp add: emit_node_def node_bytes_def emits_u32)

lemma emits_string [emits_intros]: "emits (emit_string s) (string_bytes s)"
  by (auto simp: emits_def outcome_def emit_string_def modify_def string_bytes_def enc_string_def put_string_writer)

lemma emits_for_each [emits_intros]:
  "(\<And>x. x \<in> set xs \<Longrightarrow> emits (f x) (g x)) \<Longrightarrow> emits (for_each xs f) (cats (map g xs))"
  by (induction xs) (simp_all add: emits_nothing cats_Cons emits_bnd)

lemma emits_list [emits_intros]:
  "(\<And>x. x \<in> set xs \<Longrightarrow> emits (f x) (g x)) \<Longrightarrow>
   emits (bnd (emit_u32 (of_nat (length xs))) (\<lambda>_. for_each xs f)) (encode_list g xs)"
  unfolding encode_list_def by (intro emits_intros)

lemma emits_safe [emits_intros]:
  "(\<And>a. p = Some a \<Longrightarrow> emits (f a) (g a)) \<Longrightarrow> emits (safe_parse_next f p) (encode_ptr g p)"
  by (cases p) (simp_all add: safe_parse_next_def encode_ptr_def emits_throw)

lemma emits_item [emits_intros]:
  "(\<And>a. p = Some a \<Longrightarrow> emits (f a) (g a)) \<Longrightarrow> emits (parse_item f p) (encode_item g p)"
  by (cases p) (simp_all add: parse_item_def encode_item_def emits_node)

lemma emits_expr_list [emits_intros]:
  "(\<And>a. Some a \<in> set xs \<Longrightarrow> emits (f a) (g a)) \<Longrightarrow>
   emits (parse_expr_list f xs) (encode_list (encode_item g) xs)"
  unfolding parse_expr_list_def by (intro emits_intros) simp

lemma emits_stmt_list [emits_intros]:
  "(\<And>a. Some a \<in> set xs \<Longrightarrow> emits (f a) (g a)) \<Longrightarrow>
   emits (parse_stmt_list f xs) (encode_list (encode_ptr g) xs)"
  unfolding parse_stmt_list_def by (intro emits_intros) simp

lemma patch_length_writer:
  assumes "length pre < 2 ^ 32" and "length hole = 4"
  shows "patch_length (of_nat (length pre)) v (writer (pre @ hole @ post)) = (Inr (), writer (pre @ be32 v @ post))"
  using backpatch_writer [OF assms, of v post]
  by (simp add: patch_length_def emit_u32_def modify_def bnd_def)

lemma outcome_patch: "outcome (patch_length p v) (Inr bs)"
  by (simp add: outcome_def patch_length_def emit_u32_def modify_def bnd_def)

lemma gets_pos_write: "bnd (gets bs_pos_write) f (writer pre) = f (of_nat (length pre)) (writer pre)"
  by (simp add: bnd_def gets_def bs_pos_write_def)

text \<open>A function: the hole for its length lies between its name and its arguments.\<close>

lemma emits_function:
  assumes n: "emits mn rn" and a: "emits ma ra" and d: "emits md rd" and b: "emits mb rb"
  shows "emits
    (bnd (emit_node NT_FunctionDef) (\<lambda>_. bnd mn (\<lambda>_. bnd (gets bs_pos_write) (\<lambda>dummy_pos.
     bnd (emit_u32 0) (\<lambda>_. bnd (emit_node NT_FunctionStart) (\<lambda>_. bnd ma (\<lambda>_.
     bnd (emit_node NT_FunctionStartDefaults) (\<lambda>_. bnd md (\<lambda>_.
     bnd (emit_node NT_FunctionStartStub) (\<lambda>_. bnd (gets bs_pos_write) (\<lambda>size_start.
     bnd mb (\<lambda>_. bnd (gets bs_pos_write) (\<lambda>size_end.
     bnd (patch_length dummy_pos (size_end - size_start)) (\<lambda>_. emit_node NT_FunctionEnd))))))))))))))
    (cats [node_bytes NT_FunctionDef, rn, length_bytes rb, node_bytes NT_FunctionStart, ra,
       node_bytes NT_FunctionStartDefaults, rd, node_bytes NT_FunctionStartStub, rb, node_bytes NT_FunctionEnd])"
    (is "emits ?m ?r")
proof (rule emitsI)
  have len: "outcome (emit_u32 0) (length_bytes rb)"
    by (simp add: outcome_def emit_u32_def modify_def length_bytes_def word_bytes_def split: sum.split)
  have pad: "cat (Inr []) y = y" for y by (simp add: cat_def split: sum.split)
  have "outcome (bnd (patch_length p v) (\<lambda>_. emit_node NT_FunctionEnd)) (node_bytes NT_FunctionEnd)" for p v
    using outcome_bnd [OF outcome_patch [of p v "[]"], of "\<lambda>_. emit_node NT_FunctionEnd" "node_bytes NT_FunctionEnd"]
      emits_outcome [OF emits_node] by (simp add: pad)
  then show "outcome ?m ?r"
    using len n a d b unfolding cats_simps
    by (intro outcome_bnd outcome_gets) (simp_all add: emits_outcome emits_node)
next
  fix bs and pre :: "u8 list"
  assume r: "?r = Inr bs" and below: "length pre + length bs < 2 ^ 32"
  then obtain xn xa xd xb where x: "rn = Inr xn" "ra = Inr xa" "rd = Inr xd" "rb = Inr xb"
    by (auto simp: cat_eq_Inr)
  let ?nt = "\<lambda>t. be32 (node_code t)"
  let ?p1 = "pre @ ?nt NT_FunctionDef @ xn"
  let ?p2 = "\<lambda>v. ?p1 @ be32 v @ ?nt NT_FunctionStart @ xa @ ?nt NT_FunctionStartDefaults @ xd @ ?nt NT_FunctionStartStub"
  have bs: "bs = ?nt NT_FunctionDef @ xn @ be32 (of_nat (length xb)) @ ?nt NT_FunctionStart @ xa @
      ?nt NT_FunctionStartDefaults @ xd @ ?nt NT_FunctionStartStub @ xb @ ?nt NT_FunctionEnd"
    using r x by (simp add: node_bytes_def word_bytes_def length_bytes_def)
  have node: "emit_node t (writer q) = (Inr (), writer (q @ ?nt t))" for t q
    by (simp add: emit_node_def emit_u32_def modify_def)
  have hole: "emit_u32 0 (writer q) = (Inr (), writer (q @ be32 0))" for q
    by (simp add: emit_u32_def modify_def)
  have mn: "mn (writer (pre @ ?nt NT_FunctionDef)) = (Inr (), writer ?p1)"
    using emits_run [OF n [unfolded x]] below bs by simp
  have ma: "ma (writer (?p1 @ be32 0 @ ?nt NT_FunctionStart)) = (Inr (), writer (?p1 @ be32 0 @ ?nt NT_FunctionStart @ xa))"
    using emits_run [OF a [unfolded x]] below bs by simp
  have md: "md (writer (?p1 @ be32 0 @ ?nt NT_FunctionStart @ xa @ ?nt NT_FunctionStartDefaults)) =
      (Inr (), writer (?p1 @ be32 0 @ ?nt NT_FunctionStart @ xa @ ?nt NT_FunctionStartDefaults @ xd))"
    using emits_run [OF d [unfolded x]] below bs by simp
  have mb: "mb (writer (?p2 0)) = (Inr (), writer (?p2 0 @ xb))"
    using emits_run [OF b [unfolded x]] below bs by simp
  have diff: "of_nat (length (?p2 0 @ xb)) - of_nat (length (?p2 0)) = (of_nat (length xb) :: u32)"
    by simp
  have patch: "patch_length (of_nat (length ?p1)) (of_nat (length (?p2 0 @ xb)) - of_nat (length (?p2 0)))
      (writer (?p2 0 @ xb)) = (Inr (), writer (?p2 (of_nat (length xb)) @ xb))"
    unfolding diff using patch_length_writer [of ?p1 "be32 0" "of_nat (length xb)"] below bs by simp
  show "?m (writer pre) = (Inr (), writer (pre @ bs))"
    using mn ma md mb patch unfolding bs
    by (simp add: bnd_Inr node hole gets_pos_write)
qed

lemma parse_next_emits: "emits (parse_next a) (encode a)"
proof (induction a rule: parse_next.induct)
  case (11 left comparators)
  then show ?case
    unfolding parse_next_simps encode.simps cats_simps by (intro emits_intros) (auto intro!: emits_intros)
next
  case (10 entries)
  then show ?case
    unfolding parse_next_simps encode.simps cats_simps by (intro emits_intros) (auto intro!: emits_intros)
next
  case (13 test body orelse)
  then show ?case
    unfolding parse_next_simps encode.simps
    by (cases orelse) (simp_all, intro emits_intros, auto intro!: emits_intros)
next
  case (3 name as_name)
  show ?case unfolding parse_next_simps encode.simps cats_simps by (intro emits_intros)
next
  case (33 name arguments defaults body)
  then show ?case
    unfolding parse_next_simps encode.simps Let_def by (intro emits_function emits_intros) simp_all
next
  case (12 t integer)
  show ?case by (simp add: emits_intros)
next
  case (17 oper vals)
  show ?case
    unfolding parse_next_simps encode.simps cats_simps
    by (intro emits_intros) (simp add: parse_pointer_def emits_throw)
qed (simp_all only: parse_next_simps encode.simps cats_simps, (intro emits_intros; simp)+)

lemma compile_encoded:
  assumes "encode a = Inr bs" and "length bs < 2 ^ 32"
  shows "compile (Some a) = Inr (bitstream_of bs)"
proof -
  have "bitstream_of [] = writer []" by (simp add: bitstream_of_def writer_def)
  then have "parse_next a (bitstream_of []) = (Inr (), writer bs)"
    using emits_run [of "parse_next a" bs "[]"] parse_next_emits [of a] assms by simp
  then show ?thesis by (simp add: compile_def safe_parse_next_def)
qed

text \<open>\<open>and\<close> and \<open>or\<close> never compile.\<close>

lemma compile_bool_op: "ops \<noteq> [] \<Longrightarrow> fst (parse_next (AstBoolOp op ops) s) = Inl unknown_statement"
  by (cases ops) (simp_all add: emit_node_def emit_u32_def bnd_def modify_def parse_pointer_def throw_def)

section \<open>Reading the source\<close>

text \<open>
  \<open>StringReader\<close> hands the parser the source line by line.  Its constructor cuts the source
  after every newline; the rest behind the last one, maybe empty, is the last line.
\<close>

definition newline :: char where
  "newline = CHR 0x0A"

function source_lines :: "string \<Rightarrow> string list" where
  "source_lines code =
     (if newline \<in> set code
      then (takeWhile (\<lambda>c. c \<noteq> newline) code @ [newline]) #
           source_lines (tl (dropWhile (\<lambda>c. c \<noteq> newline) code))
      else [code])"
  by pat_completeness auto

termination
proof (relation "measure length")
  fix code :: string assume "newline \<in> set code"
  then have "dropWhile (\<lambda>c. c \<noteq> newline) code \<noteq> []" by (auto simp: dropWhile_eq_Nil_conv)
  then have "length (tl (dropWhile (\<lambda>c. c \<noteq> newline) code)) < length (dropWhile (\<lambda>c. c \<noteq> newline) code)"
    by (cases "dropWhile (\<lambda>c. c \<noteq> newline) code") auto
  also have "\<dots> \<le> length code" by (rule length_dropWhile_le)
  finally show "(tl (dropWhile (\<lambda>c. c \<noteq> newline) code), code) \<in> measure length" by simp
qed simp

declare source_lines.simps [simp del]

record string_reader =
  m_line_pos :: nat
  m_code :: "string list"

definition string_reader_of :: "string \<Rightarrow> string_reader" where
  "string_reader_of code = \<lparr>m_line_pos = 0, m_code = source_lines code\<rparr>"

definition reader_eof :: "string_reader \<Rightarrow> bool" where
  "reader_eof r \<longleftrightarrow> m_line_pos r = length (m_code r)"

definition get_line :: "string_reader \<Rightarrow> nat \<Rightarrow> exn + string" where
  "get_line r idx = (if length (m_code r) - 1 < idx then Inl malicious else Inr (m_code r ! idx))"

definition next_line :: "string_reader \<Rightarrow> string \<times> string_reader" where
  "next_line r =
     (if reader_eof r then ([], r)
      else (m_code r ! m_line_pos r, r\<lparr>m_line_pos := m_line_pos r + 1\<rparr>))"

text \<open>
  \<open>compile_string\<close> and \<open>compile_file\<close>; the parser, which is not part of the program, is the
  argument \<open>parse\<close> and returns the body of the module, if it accepts the source.  The two
  overloads of \<open>compile_string\<close> differ in who shows the parser's errors, which is its business.
\<close>

definition parsing_failed :: exn where
  "parsing_failed = RuntimeError ''Parsing failed''"

definition compile_parsed :: "ast option option \<Rightarrow> exn + bitstream" where
  "compile_parsed p = (case p of None \<Rightarrow> Inl parsing_failed | Some body \<Rightarrow> compile body)"

definition compile_string :: "(string_reader \<Rightarrow> ast option option) \<Rightarrow> string \<Rightarrow> exn + bitstream" where
  "compile_string parse code = compile_parsed (parse (string_reader_of code))"

definition compile_file :: "('file \<Rightarrow> ast option option) \<Rightarrow> 'file \<Rightarrow> exn + bitstream" where
  "compile_file parse filename = compile_parsed (parse filename)"

text \<open>The parser's view: \<open>next_line\<close> until the end.\<close>

primrec read_lines :: "nat \<Rightarrow> string_reader \<Rightarrow> string list" where
  "read_lines 0 r = []"
| "read_lines (Suc n) r = (case next_line r of (l, r') \<Rightarrow> l # read_lines n r')"

lemma source_lines_cut:
  assumes "newline \<in> set code"
  shows "code = (takeWhile (\<lambda>c. c \<noteq> newline) code @ [newline]) @ tl (dropWhile (\<lambda>c. c \<noteq> newline) code)"
proof -
  obtain d ds where d: "dropWhile (\<lambda>c. c \<noteq> newline) code = d # ds"
    using assms by (cases "dropWhile (\<lambda>c. c \<noteq> newline) code") (auto simp: dropWhile_eq_Nil_conv)
  then have "d = newline" using hd_dropWhile [of "\<lambda>c. c \<noteq> newline" code] by auto
  with d takeWhile_dropWhile_id [of "\<lambda>c. c \<noteq> newline" code] show ?thesis by simp
qed

lemma concat_source_lines: "concat (source_lines code) = code"
proof (induction code rule: source_lines.induct)
  case (1 code)
  show ?case
  proof (cases "newline \<in> set code")
    case True
    then show ?thesis using 1 source_lines_cut [OF True] by (simp add: source_lines.simps [of code])
  qed (simp add: source_lines.simps [of code])
qed

lemma source_lines_newlines:
  "newline \<notin> set (last (source_lines code)) \<and>
   (\<forall>l \<in> set (butlast (source_lines code)). \<exists>l'. l = l' @ [newline] \<and> newline \<notin> set l')"
proof (induction code rule: source_lines.induct)
  case (1 code)
  have "source_lines c \<noteq> []" for c by (subst source_lines.simps) simp
  then show ?case
    using 1 by (cases "newline \<in> set code") (auto simp: source_lines.simps [of code] dest: set_takeWhileD)
qed

lemma read_lines_from:
  "m_line_pos r \<le> length (m_code r) \<Longrightarrow>
   read_lines n r = take n (drop (m_line_pos r) (m_code r)) @
     replicate (n - (length (m_code r) - m_line_pos r)) []"
proof (induction n arbitrary: r)
  case (Suc n)
  show ?case
  proof (cases "reader_eof r")
    case True
    then show ?thesis using Suc by (simp add: next_line_def reader_eof_def)
  next
    case False
    then have "m_line_pos r < length (m_code r)" using Suc.prems by (simp add: reader_eof_def)
    then show ?thesis
      using False Suc.IH [of "r\<lparr>m_line_pos := m_line_pos r + 1\<rparr>"]
      by (simp add: next_line_def Cons_nth_drop_Suc [symmetric] take_Cons' Suc_diff_Suc)
  qed
qed simp

section \<open>Properties\<close>

text \<open>
  C10: the compiler's output.  For a tree whose bytecode is below 4 GB, what \<open>Compiler::run\<close>
  leaves in its stream, writing front to back and going back to fill in the length of every
  function, is exactly \<open>encode\<close> of the tree, in which each function carries the length of its
  body; and it throws exactly the error of the first node in the tree that has none.
\<close>

theorem compile_emits_code:
  assumes "\<forall>bs. encode a = Inr bs \<longrightarrow> length bs < 2 ^ 32"
  shows "compile (Some a) = map_sum (\<lambda>e. e) bitstream_of (encode a)"
proof (cases "encode a")
  case (Inl e)
  then have "fst (parse_next a (bitstream_of [])) = Inl e"
    using emits_outcome [OF parse_next_emits [of a]] by (simp add: outcome_def)
  then show ?thesis using Inl by (auto simp: compile_def safe_parse_next_def split: prod.split)
next
  case (Inr bs)
  then show ?thesis using compile_encoded [of a bs] assms by simp
qed

theorem compile_emits_code_witness:
  "compile (Some (AstFunctionDef (Some (AstName ''f'')) [] [] (Some AstPass))) = Inr (bitstream_of
     (be32 30 @ be32 2 @ be32 1 @ [102] @ be32 4 @ be32 33 @ be32 0 @ be32 31 @ be32 0 @ be32 32 @
      be32 0 @ be32 34))"
  using compile_emits_code [of "AstFunctionDef (Some (AstName ''f'')) [] [] (Some AstPass)"]
  by (simp add: node_bytes_def word_bytes_def string_bytes_def enc_string_def encode_ptr_def
      encode_list_def length_bytes_def c_str_def bytes_of_def)

text \<open>
  The parser sees the source unchanged.  The lines \<open>StringReader\<close> hands out, followed by
  empty ones at the end of input, put together are the source; each but the last ends with
  its only newline.
\<close>

theorem source_lines_complete:
  assumes "length (m_code (string_reader_of code)) \<le> n"
  shows "concat (read_lines n (string_reader_of code)) = code \<and>
    read_lines n (string_reader_of code) = source_lines code @ replicate (n - length (source_lines code)) [] \<and>
    newline \<notin> set (last (source_lines code)) \<and>
    (\<forall>l \<in> set (butlast (source_lines code)). \<exists>l'. l = l' @ [newline] \<and> newline \<notin> set l')"
proof -
  have lines: "read_lines n (string_reader_of code) =
      source_lines code @ replicate (n - length (source_lines code)) []"
    using assms read_lines_from [of "string_reader_of code" n] by (simp add: string_reader_of_def)
  have "concat (replicate k []) = ([] :: string)" for k by (induction k) simp_all
  then show ?thesis
    using lines source_lines_newlines [of code] by (simp add: concat_source_lines)
qed

theorem source_lines_complete_witness:
  "concat (read_lines 3 (string_reader_of [CHR ''a'', newline, CHR ''b''])) = [CHR ''a'', newline, CHR ''b'']"
  by (rule source_lines_complete [THEN conjunct1])
    (simp add: string_reader_of_def source_lines.simps newline_def)

end
