(* ===== verification/Compiled_Skip.thy ===== *)
theory Compiled_Skip
  imports Compiler Skipping
begin

text \<open>
  Compiler and interpreter agree on where a node ends: \<open>skip_next\<close>, run on the bytecode the
  compiler made of a tree, stops right behind it, for every kind of node \<open>skip_next\<close> has a
  case for.  The other kinds make a branch that contains them impossible to skip.
\<close>

section \<open>Programs that consume given bytes\<close>

text \<open>
  \<open>eats m bs k x\<close>: with \<open>bs\<close> ahead and room for \<open>k\<close> steps below the limit, \<open>m\<close> returns \<open>x\<close>, has
  moved the get position over \<open>bs\<close> and has counted \<open>k\<close> steps, and nothing else has changed.
\<close>

definition room :: "nat \<Rightarrow> interp \<Rightarrow> bool" where
  "room k i \<longleftrightarrow> m_execution_step_limit i = 0 \<or>
     unat (m_num_execution_steps i) + k < unat (m_execution_step_limit i)"

definition advance_ip :: "nat \<Rightarrow> nat \<Rightarrow> interp \<Rightarrow> interp" where
  "advance_ip n k i =
     i\<lparr>m_data := skip_bytes n (m_data i), m_num_execution_steps := m_num_execution_steps i + of_nat k\<rparr>"

definition eats :: "(interp, 'a) prog \<Rightarrow> u8 list \<Rightarrow> nat \<Rightarrow> 'a \<Rightarrow> bool" where
  "eats m bs k x \<longleftrightarrow>
     (\<forall>i. ahead bs (m_data i) \<longrightarrow> room k i \<longrightarrow> m i = (Inr x, advance_ip (length bs) k i))"

named_theorems eats_intros

lemma eatsD: "eats m bs k x \<Longrightarrow> ahead bs (m_data i) \<Longrightarrow> room k i \<Longrightarrow> m i = (Inr x, advance_ip (length bs) k i)"
  by (simp add: eats_def)

lemma advance_ip_add [simp]: "advance_ip m j (advance_ip n k i) = advance_ip (n + m) (k + j) i"
  by (simp add: advance_ip_def add.assoc)

lemma advance_ip_0 [simp]: "advance_ip 0 0 i = i"
  by (simp add: advance_ip_def)

lemma advance_ip_data [simp]:
  "m_data (advance_ip n k i) = skip_bytes n (m_data i)"
  "m_execution_step_limit (advance_ip n k i) = m_execution_step_limit i"
  by (simp_all add: advance_ip_def)

lemma room_mono: "room k i \<Longrightarrow> j \<le> k \<Longrightarrow> room j i"
  by (auto simp: room_def)

lemma room_advance: "room (j + k) i \<Longrightarrow> room k (advance_ip n j i)"
proof -
  assume r: "room (j + k) i"
  show ?thesis
  proof (cases "m_execution_step_limit i = 0")
    case False
    then have "unat (m_num_execution_steps i) + j < 2 ^ 32"
      using r unat_less_32 [of "m_execution_step_limit i"] by (simp add: room_def)
    then have "unat (m_num_execution_steps i + of_nat j) = unat (m_num_execution_steps i) + j"
      by (simp add: unat_word_ariths unat_of_nat mod_add_right_eq)
    then show ?thesis using r False by (simp add: room_def advance_ip_def)
  qed (simp add: room_def)
qed

lemma eats_cong: "eats m bs k x \<Longrightarrow> bs = bs' \<Longrightarrow> k = k' \<Longrightarrow> eats m bs' k' x"
  by simp

lemma eats_ret: "eats (ret x) [] 0 x"
  by (simp add: eats_def ret_def)

lemma eats_bnd: "eats m xs j x \<Longrightarrow> eats (f x) ys k y \<Longrightarrow> eats (bnd m f) (xs @ ys) (j + k) y"
  unfolding eats_def
proof (intro allI impI)
  fix i
  assume m: "\<forall>i. ahead xs (m_data i) \<longrightarrow> room j i \<longrightarrow> m i = (Inr x, advance_ip (length xs) j i)"
    and f: "\<forall>i. ahead ys (m_data i) \<longrightarrow> room k i \<longrightarrow> f x i = (Inr y, advance_ip (length ys) k i)"
    and i: "ahead (xs @ ys) (m_data i)" "room (j + k) i"
  have "m i = (Inr x, advance_ip (length xs) j i)"
    using m i room_mono [OF i(2) le_add1] by (simp add: ahead_append)
  moreover have "f x (advance_ip (length xs) j i) = (Inr y, advance_ip (length (xs @ ys)) (j + k) i)"
    using f i room_advance by (simp add: ahead_append)
  ultimately show "bnd m f i = (Inr y, advance_ip (length (xs @ ys)) (j + k) i)" by (simp add: bnd_def)
qed

lemma eats_bnd_ret: "eats m xs j x \<Longrightarrow> eats (bnd m (\<lambda>x. ret (g x))) xs j (g x)"
  using eats_bnd [OF _ eats_ret, of m xs j x g] by simp

lemma eats_u32: "eats rd_u32 (be32 v) 0 v"
  by (simp add: eats_def rd_u32_def on_data_def on_part_def get_u32_ahead advance_ip_def)

lemma eats_string: "length cs < 2 ^ 32 \<Longrightarrow> eats rd_string (enc_string cs) 0 cs"
  by (simp add: eats_def rd_string_def on_data_def on_part_def get_string_ahead advance_ip_def enc_string_def)

lemma charge_room: "room 1 i \<Longrightarrow> charge i = (Inr (), advance_ip 0 1 i)"
proof (cases "m_execution_step_limit i = 0")
  case False
  assume r: "room 1 i"
  then have "m_num_execution_steps i < m_execution_step_limit i"
    using False by (simp add: room_def word_less_nat_alt)
  then have "\<not> m_execution_step_limit i \<le> m_num_execution_steps i + 1"
    using r False unat_Suc_below [of "m_num_execution_steps i"] by (simp add: room_def word_le_nat_alt)
  then show ?thesis by (simp add: charge_def advance_ip_def Let_def)
qed (simp add: charge_def advance_ip_def Let_def)

lemma eats_charge: "eats charge [] 1 ()"
  using charge_room by (simp add: eats_def)

lemma eats_u32_then: "eats (f v) ys k y \<Longrightarrow> eats (bnd rd_u32 f) (be32 v @ ys) k y"
  using eats_bnd [OF eats_u32, of f v ys k y] by simp

lemma eats_u32_last: "eats (f v) [] k y \<Longrightarrow> eats (bnd rd_u32 f) (be32 v) k y"
  using eats_u32_then [of f v "[]"] by simp

lemma eats_seq: "eats m xs j () \<Longrightarrow> eats m' ys k y \<Longrightarrow> eats (bnd m (\<lambda>_. m')) (xs @ ys) (j + k) y"
  by (rule eats_bnd)

text \<open>A counted loop whose rounds consume the entries of a list one after the other.\<close>

lemma eats_times:
  assumes "\<And>x a. x \<in> set xs \<Longrightarrow> eats (m a) (bs x) (k x) (f x a)"
  shows "eats (times (length xs) (\<lambda>a. bnd charge (\<lambda>_. m a)) a) (concat (map bs xs))
    (sum_list (map (\<lambda>x. Suc (k x)) xs)) (fold f xs a)"
  using assms
proof (induction xs arbitrary: a)
  case (Cons x xs)
  have "eats (bnd charge (\<lambda>_. m a)) (bs x) (Suc (k x)) (f x a)"
    using eats_bnd [OF eats_charge, of "\<lambda>_. m a" "bs x" "k x"] Cons.prems [of x a] by simp
  then show ?case using eats_bnd Cons.IH Cons.prems by fastforce
qed (simp add: eats_ret)

lemma eats_charged_times:
  assumes "\<And>x. x \<in> set xs \<Longrightarrow> eats m (bs x) (k x) ()" and "length xs < 2 ^ 32"
  shows "eats (charged_times (of_nat (length xs)) (\<lambda>_. m) ()) (concat (map bs xs))
    (sum_list (map (\<lambda>x. Suc (k x)) xs)) ()"
proof -
  have "unat (of_nat (length xs) :: u32) = length xs"
    using assms(2) by (simp add: unat_of_nat take_bit_nat_eq_self)
  then show ?thesis
    using eats_times [of xs "\<lambda>_. m" bs k "\<lambda>_ _. ()" "()"] assms(1) by (simp add: charged_times_def)
qed

section \<open>What can be skipped, and what it costs\<close>

definition ptr_ok :: "('a \<Rightarrow> bool) \<Rightarrow> 'a option \<Rightarrow> bool" where
  "ptr_ok P p = (case p of None \<Rightarrow> True | Some a \<Rightarrow> P a)"

definition ptr_sum :: "('a \<Rightarrow> nat) \<Rightarrow> 'a option \<Rightarrow> nat" where
  "ptr_sum f p = (case p of None \<Rightarrow> 0 | Some a \<Rightarrow> f a)"

lemma ptr_ok_cong [fundef_cong]:
  "p = q \<Longrightarrow> (\<And>a. q = Some a \<Longrightarrow> P a = Q a) \<Longrightarrow> ptr_ok P p = ptr_ok Q q"
  by (cases q) (simp_all add: ptr_ok_def)

lemma ptr_sum_cong [fundef_cong]:
  "p = q \<Longrightarrow> (\<And>a. q = Some a \<Longrightarrow> f a = g a) \<Longrightarrow> ptr_sum f p = ptr_sum g q"
  by (cases q) (simp_all add: ptr_sum_def)

lemma ptr_simps [simp]:
  "ptr_ok P (Some a) = P a" "ptr_ok P None" "ptr_sum f (Some a) = f a" "ptr_sum f None = 0"
  by (simp_all add: ptr_ok_def ptr_sum_def)

text \<open>The nodes \<open>read_name\<close> and \<open>read_names\<close> accept.\<close>

fun names_one :: "ast option \<Rightarrow> bool" where
  "names_one (Some (AstName n)) = True"
| "names_one (Some (AstStr n)) = True"
| "names_one (Some (AstDocString n)) = True"
| "names_one p = False"

fun names_loop :: "ast option \<Rightarrow> bool" where
  "names_loop (Some (AstTuple [p, q])) = (names_one p \<and> names_one q)"
| "names_loop p = names_one p"

fun skippable :: "ast \<Rightarrow> bool" where
  "skippable (AstName name) = True"
| "skippable (AstAssign targets value) = (ptr_ok skippable value \<and> list_all (ptr_ok skippable) targets)"
| "skippable (AstSuite items) = list_all (ptr_ok skippable) items"
| "skippable (AstStr value) = True"
| "skippable (AstDocString doc) = True"
| "skippable (AstReturn value) = ptr_ok skippable value"
| "skippable (AstDict entries) = list_all (\<lambda>(k, v). ptr_ok skippable k \<and> ptr_ok skippable v) entries"
| "skippable (AstCompare left comparators) =
     (ptr_ok skippable left \<and> list_all (\<lambda>(oper, c). ptr_ok skippable c) comparators)"
| "skippable (AstNumber t integer) = True"
| "skippable (AstIf test body orelse) =
     (ptr_ok skippable test \<and> ptr_ok skippable body \<and> ptr_ok skippable orelse)"
| "skippable (AstCall function arguments) =
     (ptr_ok skippable function \<and> list_all (ptr_ok skippable) arguments)"
| "skippable (AstAttribute value attribute) = (ptr_ok skippable value \<and> ptr_ok skippable attribute)"
| "skippable (AstUnaryOp oper operand) = ptr_ok skippable operand"
| "skippable (AstBoolOp oper vals) = True"
| "skippable (AstBinOp left oper right) = (ptr_ok skippable left \<and> ptr_ok skippable right)"
| "skippable (AstList elements) = list_all (ptr_ok skippable) elements"
| "skippable (AstSubscript value slice_type) = (ptr_ok skippable slice_type \<and> ptr_ok skippable value)"
| "skippable (AstIndex value) = ptr_ok skippable value"
| "skippable (AstFor target iter body) =
     (names_loop target \<and> ptr_ok skippable iter \<and> ptr_ok skippable body)"
| "skippable (AstWhile test body) = (ptr_ok skippable test \<and> ptr_ok skippable body)"
| "skippable (AstAugAssign oper target value) = (ptr_ok skippable target \<and> ptr_ok skippable value)"
| "skippable (AstExpressionStatement expr) = ptr_ok skippable expr"
| "skippable AstContinue = True"
| "skippable AstBreak = True"
| "skippable (AstTuple elements) = list_all (ptr_ok skippable) elements"
| "skippable AstPass = True"
| "skippable a = False"

text \<open>\<open>skip_next\<close> charges a step for each round of its loops, and nothing for a node as such.\<close>

fun skip_cost :: "ast \<Rightarrow> nat" where
  "skip_cost (AstAssign targets value) =
     ptr_sum skip_cost value + sum_list (map (\<lambda>p. Suc (ptr_sum skip_cost p)) targets)"
| "skip_cost (AstSuite items) = sum_list (map (\<lambda>p. Suc (ptr_sum skip_cost p)) items)"
| "skip_cost (AstReturn value) = ptr_sum skip_cost value"
| "skip_cost (AstDict entries) =
     sum_list (map (\<lambda>(k, v). Suc (ptr_sum skip_cost k + ptr_sum skip_cost v)) entries)"
| "skip_cost (AstCompare left comparators) =
     ptr_sum skip_cost left + sum_list (map (\<lambda>(oper, c). Suc (ptr_sum skip_cost c)) comparators)"
| "skip_cost (AstIf test body orelse) =
     ptr_sum skip_cost test + (ptr_sum skip_cost body + ptr_sum skip_cost orelse)"
| "skip_cost (AstCall function arguments) =
     ptr_sum skip_cost function + sum_list (map (\<lambda>p. Suc (ptr_sum skip_cost p)) arguments)"
| "skip_cost (AstAttribute value attribute) = ptr_sum skip_cost value + ptr_sum skip_cost attribute"
| "skip_cost (AstUnaryOp oper operand) = ptr_sum skip_cost operand"
| "skip_cost (AstBinOp left oper right) = ptr_sum skip_cost left + ptr_sum skip_cost right"
| "skip_cost (AstList elements) = sum_list (map (\<lambda>p. Suc (ptr_sum skip_cost p)) elements)"
| "skip_cost (AstSubscript value slice_type) = ptr_sum skip_cost slice_type + ptr_sum skip_cost value"
| "skip_cost (AstIndex value) = ptr_sum skip_cost value"
| "skip_cost (AstFor target iter body) = ptr_sum skip_cost iter + ptr_sum skip_cost body"
| "skip_cost (AstWhile test body) = ptr_sum skip_cost test + ptr_sum skip_cost body"
| "skip_cost (AstAugAssign oper target value) = ptr_sum skip_cost target + ptr_sum skip_cost value"
| "skip_cost (AstExpressionStatement expr) = ptr_sum skip_cost expr"
| "skip_cost (AstTuple elements) = sum_list (map (\<lambda>p. Suc (ptr_sum skip_cost p)) elements)"
| "skip_cost a = 0"

section \<open>Skipping compiled code\<close>

lemma cats_map_eq_Inr:
  "cats (map f xs) = Inr bs \<longleftrightarrow>
     (\<forall>x \<in> set xs. \<exists>b. f x = Inr b) \<and> bs = concat (map (\<lambda>x. projr (f x)) xs)"
  by (induction xs arbitrary: bs) (auto simp: cats_Cons cat_eq_Inr)

text \<open>The bytes of the entries of a list.\<close>

lemma encode_list_Inr:
  assumes "encode_list f xs = Inr bs"
  shows "bs = be32 (of_nat (length xs)) @ concat (map (\<lambda>x. projr (f x)) xs)"
    and "x \<in> set xs \<Longrightarrow> f x = Inr (projr (f x))"
    and "x \<in> set xs \<Longrightarrow> length (projr (f x)) + 4 \<le> length bs"
proof -
  show bs: "bs = be32 (of_nat (length xs)) @ concat (map (\<lambda>x. projr (f x)) xs)"
    and f: "x \<in> set xs \<Longrightarrow> f x = Inr (projr (f x))"
    using assms by (auto simp: encode_list_def word_bytes_def cat_eq_Inr cats_map_eq_Inr)
  have "x \<in> set xs \<Longrightarrow> length (projr (f x)) \<le> length (concat (map (\<lambda>x. projr (f x)) xs))"
    by (induction xs) auto
  then show "x \<in> set xs \<Longrightarrow> length (projr (f x)) + 4 \<le> length bs" using bs by simp
qed

text \<open>A tree that skips: every fuel from its length on will do.\<close>

definition skips :: "u8 list \<Rightarrow> nat \<Rightarrow> bool" where
  "skips bs k \<longleftrightarrow> (\<forall>n. length bs \<le> n \<longrightarrow> eats (skip_fuel n) bs k ())"

declare node_code.simps [simp del]

lemma skipsI:
  assumes "0 < length bs"
    and "\<And>rec. (\<And>b j. skips b j \<Longrightarrow> length b < length bs \<Longrightarrow> eats rec b j ()) \<Longrightarrow> eats (skip_step rec) bs k ()"
  shows "skips bs k"
  unfolding skips_def
proof (intro allI impI)
  fix n assume "length bs \<le> n"
  with assms(1) obtain m where n: "n = Suc m" "length bs \<le> Suc m" by (cases n) auto
  show "eats (skip_fuel n) bs k ()"
    unfolding n(1) skip_fuel.simps
  proof (rule assms(2))
    fix b j assume "skips b j" and "length b < length bs"
    then show "eats (skip_fuel m) b j ()" using n by (simp add: skips_def)
  qed
qed

lemma encode_ptr_eq_Inr: "encode_ptr f p = Inr bs \<longleftrightarrow> (\<exists>a. p = Some a \<and> f a = Inr bs)"
  by (simp add: encode_ptr_def split: option.split)

lemmas encode_shape =
  cat_eq_Inr node_bytes_def word_bytes_def string_bytes_def encode_ptr_eq_Inr enc_string_def

lemma encode_long: "encode a = Inr bs \<Longrightarrow> 4 \<le> length bs"
  by (induction a arbitrary: bs rule: encode.induct)
    (auto simp: encode_shape Let_def split: option.splits if_splits)

lemma encode_item_long: "encode_item encode p = Inr bs \<Longrightarrow> 4 \<le> length bs"
  by (cases p) (auto simp: encode_item_def node_bytes_def word_bytes_def dest: encode_long)

lemma encode_list_short:
  assumes "encode_list f xs = Inr bs" and "\<And>x b. f x = Inr b \<Longrightarrow> 4 \<le> length b" and "length bs < 2 ^ 32"
  shows "length xs < 2 ^ 32"
proof -
  have "length xs \<le> length (concat (map (\<lambda>x. projr (f x)) xs))"
    if "\<forall>x \<in> set xs. f x = Inr (projr (f x))"
    using that
  proof (induction xs)
    case (Cons x xs)
    then show ?case using assms(2) [of x "projr (f x)"] by fastforce
  qed simp
  then show ?thesis using encode_list_Inr(1) [OF assms(1)] encode_list_Inr(2) [OF assms(1)] assms(3) by simp
qed

text \<open>The loop over a compiled list.\<close>

lemma eats_list:
  assumes "encode_list f xs = Inr bs" and "\<And>x b. f x = Inr b \<Longrightarrow> 4 \<le> length b" and "length bs < 2 ^ 32"
    and "\<And>x b. x \<in> set xs \<Longrightarrow> f x = Inr b \<Longrightarrow> length b + 4 \<le> length bs \<Longrightarrow> eats m b (c x) ()"
  shows "eats (bnd rd_u32 (\<lambda>n. charged_times n (\<lambda>_. m) ())) bs (sum_list (map (\<lambda>x. Suc (c x)) xs)) ()"
proof -
  have "eats (charged_times (of_nat (length xs)) (\<lambda>_. m) ()) (concat (map (\<lambda>x. projr (f x)) xs))
      (sum_list (map (\<lambda>x. Suc (c x)) xs)) ()"
    using encode_list_Inr [OF assms(1)] assms(4) encode_list_short [OF assms(1-3)]
    by (intro eats_charged_times) simp_all
  then show ?thesis
    using encode_list_Inr(1) [OF assms(1)] eats_u32_then [where f = "\<lambda>n. charged_times n (\<lambda>_. m) ()"] by simp
qed

text \<open>Names and targets of loops.\<close>

lemma encode_name:
  assumes "names_one p" and "encode_ptr encode p = Inr bs"
  obtains t n where "t = NT_Name \<or> t = NT_String" "bs = be32 (node_code t) @ enc_string n"
proof -
  from assms have "\<exists>t n. (t = NT_Name \<or> t = NT_String) \<and> bs = be32 (node_code t) @ enc_string n"
    by (cases p rule: names_one.cases)
      (auto simp: encode_ptr_eq_Inr cat_eq_Inr node_bytes_def word_bytes_def string_bytes_def)
  then show ?thesis using that by blast
qed

lemma eats_read_name:
  assumes "names_one p" and "encode_ptr encode p = Inr bs" and "length bs < 2 ^ 32"
  shows "\<exists>n. eats read_name bs 0 n"
proof -
  from encode_name [OF assms(1,2)] obtain t n
    where t: "t = NT_Name \<or> t = NT_String" "bs = be32 (node_code t) @ enc_string n" .
  with assms(3) have "length n < 2 ^ 32" by (simp add: enc_string_def)
  with t have "eats read_name bs 0 n"
    unfolding read_name_def by (auto intro!: eats_u32_then eats_string)
  then show ?thesis ..
qed

lemma eats_read_names_one:
  assumes "names_one p" and "encode_ptr encode p = Inr bs" and "length bs < 2 ^ 32"
  shows "\<exists>ns. eats read_names bs 0 ns"
proof -
  from encode_name [OF assms(1,2)] obtain t n
    where t: "t = NT_Name \<or> t = NT_String" "bs = be32 (node_code t) @ enc_string n" .
  with assms(3) have "length n < 2 ^ 32" by (simp add: enc_string_def)
  then have s: "eats (bnd rd_string (\<lambda>str. ret [str])) (enc_string n) 0 [n]"
    by (intro eats_bnd_ret eats_string)
  with t have "eats read_names bs 0 [n]"
    unfolding read_names_def by (auto intro!: eats_u32_then s)
  then show ?thesis ..
qed

lemma eats_read_names:
  assumes "names_loop p" and "encode_ptr encode p = Inr bs" and "length bs < 2 ^ 32"
  shows "\<exists>ns. eats read_names bs 0 ns"
proof (cases "\<exists>q r. p = Some (AstTuple [q, r])")
  case True
  then obtain q r where p: "p = Some (AstTuple [q, r])" by blast
  then obtain bq br where b: "encode_ptr encode q = Inr bq" "encode_ptr encode r = Inr br"
      "bs = be32 (node_code NT_Tuple) @ be32 2 @ bq @ br"
    using assms(2) by (auto simp: encode_ptr_eq_Inr encode_list_def cat_eq_Inr node_bytes_def word_bytes_def)
  then obtain nq nr where n: "eats read_name bq 0 nq" "eats read_name br 0 nr"
    using eats_read_name [OF _ b(1)] eats_read_name [OF _ b(2)] assms p by auto
  have two: "eats (bnd read_name (\<lambda>a. bnd read_name (\<lambda>b. ret [a, b]))) (bq @ br) (0 + 0) [nq, nr]"
    by (rule eats_bnd [OF n(1)]) (rule eats_bnd_ret [OF n(2)])
  have "eats read_names bs 0 [nq, nr]"
    unfolding read_names_def b(3) using two by (intro eats_u32_then) (simp, intro eats_u32_then, simp)
  then show ?thesis ..
next
  case False
  then have "names_one p" using assms(1) by (cases p rule: names_loop.cases) auto
  then show ?thesis using eats_read_names_one assms by blast
qed

section \<open>Every skippable tree skips\<close>

definition tree_skips :: "ast \<Rightarrow> bool" where
  "tree_skips a \<longleftrightarrow>
     (\<forall>bs. skippable a \<longrightarrow> encode a = Inr bs \<longrightarrow> length bs < 2 ^ 32 \<longrightarrow> skips bs (skip_cost a))"

lemma skips_ptr:
  assumes "\<And>a. p = Some a \<Longrightarrow> tree_skips a" and "ptr_ok skippable p" and "encode_ptr encode p = Inr bs"
    and "length bs < 2 ^ 32"
  shows "skips bs (ptr_sum skip_cost p)"
  using assms by (auto simp: encode_ptr_eq_Inr tree_skips_def)

lemma skips_pass: "skips (be32 (node_code NT_Pass)) 0"
  by (rule skipsI) (simp_all add: skip_step_def eats_ret eats_u32_last)

lemma skips_item:
  assumes "\<And>a. p = Some a \<Longrightarrow> tree_skips a" and "ptr_ok skippable p" and "encode_item encode p = Inr bs"
    and "length bs < 2 ^ 32"
  shows "skips bs (ptr_sum skip_cost p)"
  using assms skips_pass
  by (cases p) (auto simp: encode_item_def tree_skips_def node_bytes_def word_bytes_def)

text \<open>\<open>agrees n rec\<close>: the nested calls of a node of \<open>n\<close> bytes skip what they should.\<close>

definition agrees :: "nat \<Rightarrow> (interp, unit) prog \<Rightarrow> bool" where
  "agrees n rec \<longleftrightarrow> n < 2 ^ 32 \<and> (\<forall>b j. skips b j \<longrightarrow> length b < n \<longrightarrow> eats rec b j ())"

lemma skips_nodeI:
  assumes "length bs < 2 ^ 32" and "bs = be32 (node_code t) @ xs"
    and "\<And>rec. agrees (4 + length xs) rec \<Longrightarrow> eats (skip_step rec) (be32 (node_code t) @ xs) k ()"
  shows "skips bs k"
  unfolding assms(2) by (rule skipsI) (use assms(1,2) in \<open>auto intro: assms(3) simp: agrees_def\<close>)

lemma eats_rec_ptr:
  assumes "agrees n rec" and "\<And>a. p = Some a \<Longrightarrow> tree_skips a" and "ptr_ok skippable p"
    and "encode_ptr encode p = Inr bs" and "length bs < n"
  shows "eats rec bs (ptr_sum skip_cost p) ()"
  using assms skips_ptr [OF assms(2-4)] by (simp add: agrees_def)

lemma eats_rec_tree:
  assumes "agrees n rec" and "tree_skips a" and "skippable a" and "encode a = Inr bs" and "length bs < n"
  shows "eats rec bs (skip_cost a) ()"
  using assms by (simp add: agrees_def tree_skips_def)

lemma eats_rec_item:
  assumes "agrees n rec" and "\<And>a. p = Some a \<Longrightarrow> tree_skips a" and "ptr_ok skippable p"
    and "encode_item encode p = Inr bs" and "length bs < n"
  shows "eats rec bs (ptr_sum skip_cost p) ()"
  using assms skips_item [OF assms(2-4)] by (simp add: agrees_def)

lemma encode_ptr_long: "encode_ptr encode p = Inr bs \<Longrightarrow> 4 \<le> length bs"
  by (auto simp: encode_ptr_eq_Inr dest: encode_long)

text \<open>The loops of \<open>skip_next\<close>: over expressions, statements, entries and comparisons.\<close>

lemma eats_rec_list:
  assumes "agrees n rec" and "f = encode_item encode \<or> f = encode_ptr encode"
    and "\<And>a. Some a \<in> set xs \<Longrightarrow> tree_skips a" and "list_all (ptr_ok skippable) xs"
    and "encode_list f xs = Inr bs" and "length bs < n"
  shows "eats (bnd rd_u32 (\<lambda>n. charged_times n (\<lambda>_. rec) ())) bs
    (sum_list (map (\<lambda>p. Suc (ptr_sum skip_cost p)) xs)) ()"
  using assms
  by (intro eats_list [OF assms(5)])
    (auto simp: list_all_iff agrees_def
      intro: encode_item_long encode_ptr_long eats_rec_ptr [OF assms(1)] eats_rec_item [OF assms(1)])

lemma eats_rec_entries:
  assumes "agrees n rec" and "\<And>k v a. (k, v) \<in> set xs \<Longrightarrow> k = Some a \<or> v = Some a \<Longrightarrow> tree_skips a"
    and "list_all (\<lambda>(k, v). ptr_ok skippable k \<and> ptr_ok skippable v) xs"
    and "encode_list (\<lambda>(k, v). cat (encode_ptr encode k) (encode_ptr encode v)) xs = Inr bs" and "length bs < n"
  shows "eats (bnd rd_u32 (\<lambda>n. charged_times n (\<lambda>_. bnd rec (\<lambda>_. rec)) ())) bs
    (sum_list (map (\<lambda>(k, v). Suc (ptr_sum skip_cost k + ptr_sum skip_cost v)) xs)) ()"
proof -
  have "eats (bnd rec (\<lambda>_. rec)) b (ptr_sum skip_cost (fst x) + ptr_sum skip_cost (snd x)) ()"
    if x: "x \<in> set xs" and b: "(case x of (k, v) \<Rightarrow> cat (encode_ptr encode k) (encode_ptr encode v)) = Inr b"
      and l: "length b + 4 \<le> length bs" for x b
  proof -
    obtain k v where [simp]: "x = (k, v)" by (cases x)
    have "ptr_ok skippable k" "ptr_ok skippable v" using x assms(3) by (auto simp: list_all_iff)
    then show ?thesis
      using x b l assms(2,5) by (auto simp: cat_eq_Inr intro!: eats_seq eats_rec_ptr [OF assms(1)])
  qed
  then have "eats (bnd rd_u32 (\<lambda>n. charged_times n (\<lambda>_. bnd rec (\<lambda>_. rec)) ())) bs
      (sum_list (map (\<lambda>x. Suc (ptr_sum skip_cost (fst x) + ptr_sum skip_cost (snd x))) xs)) ()"
    using assms(1,5)
    by (intro eats_list [OF assms(4)]) (auto simp: agrees_def cat_eq_Inr dest!: encode_ptr_long)
  then show ?thesis by (simp add: case_prod_beta')
qed

lemma eats_rec_comparisons:
  assumes "agrees n rec" and "\<And>oper a. (oper, Some a) \<in> set xs \<Longrightarrow> tree_skips a"
    and "list_all (\<lambda>(oper, c). ptr_ok skippable c) xs"
    and "encode_list (\<lambda>(oper, c). cat (word_bytes (compare_code oper)) (encode_ptr encode c)) xs = Inr bs"
    and "length bs < n"
  shows "eats (bnd rd_u32 (\<lambda>n. charged_times n (\<lambda>_. bnd rd_u32 (\<lambda>op. rec)) ())) bs
    (sum_list (map (\<lambda>(oper, c). Suc (ptr_sum skip_cost c)) xs)) ()"
proof -
  have "eats (bnd rd_u32 (\<lambda>op. rec)) b (ptr_sum skip_cost (snd x)) ()"
    if x: "x \<in> set xs" and b: "(case x of (oper, c) \<Rightarrow> cat (word_bytes (compare_code oper)) (encode_ptr encode c)) = Inr b"
      and l: "length b + 4 \<le> length bs" for x b
  proof -
    obtain oper c where [simp]: "x = (oper, c)" by (cases x)
    have "ptr_ok skippable c" using x assms(3) by (auto simp: list_all_iff)
    then show ?thesis
      using x b l assms(2,5)
      by (auto simp: cat_eq_Inr word_bytes_def intro!: eats_u32_then eats_rec_ptr [OF assms(1)])
  qed
  then have "eats (bnd rd_u32 (\<lambda>n. charged_times n (\<lambda>_. bnd rd_u32 (\<lambda>op. rec)) ())) bs
      (sum_list (map (\<lambda>x. Suc (ptr_sum skip_cost (snd x))) xs)) ()"
    using assms(1,5)
    by (intro eats_list [OF assms(4)]) (auto simp: agrees_def cat_eq_Inr word_bytes_def)
  then show ?thesis by (simp add: case_prod_beta')
qed

lemma eats_string_ret: "length cs < 2 ^ 32 \<Longrightarrow> eats (bnd rd_string (\<lambda>_. ret ())) (enc_string cs) 0 ()"
  by (rule eats_bnd_ret [OF eats_string])

lemma eats_names_then:
  assumes "names_loop p" and "encode_ptr encode p = Inr xs" and "length xs < 2 ^ 32" and "eats m ys k ()"
  shows "eats (bnd read_names (\<lambda>_. m)) (xs @ ys) k ()"
proof -
  from eats_read_names [OF assms(1-3)] obtain ns where "eats read_names xs 0 ns" ..
  from eats_bnd [OF this, of "\<lambda>_. m" ys k "()"] assms(4) show ?thesis by simp
qed

lemmas eats_node_intros =
  eats_u32_then eats_names_then eats_seq eats_rec_ptr [rotated] eats_rec_tree [rotated] eats_rec_list [rotated]
  eats_rec_entries [rotated] eats_rec_comparisons [rotated] eats_string_ret
  eats_u32_last eats_ret

lemma length_enc_string [simp]: "length (enc_string cs) = 4 + length cs"
  by (simp add: enc_string_def)

lemma be32_inject [simp]: "be32 v = be32 w \<longleftrightarrow> v = w"
  by (metis of_be32_be32)

lemma be32_eq_append [simp]: "be32 v = be32 w @ xs \<longleftrightarrow> v = w \<and> xs = []"
proof
  assume e: "be32 v = be32 w @ xs"
  then have "length xs = 0" by (metis add_cancel_left_right length_append length_be32)
  with e show "v = w \<and> xs = []" by simp
qed simp

lemma node_code_inject [simp]: "node_code s = node_code t \<longleftrightarrow> s = t"
  by (metis node_type_of_code option.inject)

lemma node_bytes_eq: "node_bytes t = Inr (be32 (node_code t))"
  by (simp add: node_bytes_def word_bytes_def)

lemma tree_skipsI:
  assumes "\<And>bs. skippable a \<Longrightarrow> encode a = Inr bs \<Longrightarrow> length bs < 2 ^ 32 \<Longrightarrow>
    \<exists>t xs. bs = be32 (node_code t) @ xs \<and> (\<forall>rec. agrees (4 + length xs) rec \<longrightarrow>
      eats (skip_step rec) (be32 (node_code t) @ xs) (skip_cost a) ())"
  shows "tree_skips a"
  unfolding tree_skips_def
proof (intro allI impI)
  fix bs assume a: "skippable a" "encode a = Inr bs" "length bs < 2 ^ 32"
  with assms obtain t xs where "bs = be32 (node_code t) @ xs"
    "\<And>rec. agrees (4 + length xs) rec \<Longrightarrow> eats (skip_step rec) (be32 (node_code t) @ xs) (skip_cost a) ()"
    by blast
  then show "skips bs (skip_cost a)" using a(3) by (intro skips_nodeI)
qed


lemma eats_no_values:
  assumes "encode_list (\<lambda>_. Inl e) xs = Inr bs"
  shows "eats (bnd rd_u32 (\<lambda>n. charged_times n (\<lambda>_. m) ())) bs 0 ()"
proof -
  have "xs = []" using assms by (cases xs) (auto simp: encode_list_def cats_Cons cat_eq_Inr)
  then show ?thesis using eats_list [OF assms, of m "\<lambda>_. 0"] assms
    by (auto simp: encode_list_def word_bytes_def)
qed

lemma encode_skips: "tree_skips a"
proof (induction a rule: encode.induct)
  case (10 entries)
  then have "tree_skips a" if "(k, v) \<in> set entries" "k = Some a \<or> v = Some a" for k v a
    using that by blast
  then show ?case
    by (intro tree_skipsI)
      (auto simp: cat_eq_Inr node_bytes_def word_bytes_def skip_step_def;
       rule eats_u32_then; simp; rule eats_rec_entries [rotated]; (assumption | blast | simp))
next
  case (11 left comparators)
  then have "tree_skips a" if "(oper, Some a) \<in> set comparators" for oper a
    using that by blast
  then show ?case using 11(1)
    by (intro tree_skipsI)
      (auto simp: cat_eq_Inr node_bytes_eq skip_step_def;
       rule eats_u32_then; simp; intro eats_node_intros; (assumption | blast | simp))
next
  case (13 test body orelse)
  then show ?case
    by (intro tree_skipsI)
      (auto simp: cat_eq_Inr node_bytes_def word_bytes_def skip_step_def split: option.splits;
       rule eats_u32_then; simp; intro eats_node_intros; (assumption | simp))
next
  case (25 expr)
  then show ?case by (auto simp: tree_skips_def encode_ptr_eq_Inr)
next
  case (17 oper vals)
  then show ?case
    by (intro tree_skipsI)
      (auto simp: cat_eq_Inr node_bytes_def word_bytes_def skip_step_def intro!: eats_u32_then eats_no_values)
qed (rule tree_skipsI;
    auto simp: cat_eq_Inr node_bytes_def word_bytes_def string_bytes_def skip_step_def split: if_splits;
    (rule eats_u32_then | rule eats_u32_last); simp; intro eats_node_intros; (assumption | simp))+

lemma eats_skip_next:
  assumes "encode a = Inr bs" and "skippable a" and "length bs < 2 ^ 32"
  shows "eats skip_next bs (skip_cost a) ()"
  unfolding eats_def
proof (intro allI impI)
  fix i assume i: "ahead bs (m_data i)" "room (skip_cost a) i"
  then have "length bs \<le> unread i" unfolding ahead_def unread_def by linarith
  then have "eats (skip_fuel (Suc (unread i))) bs (skip_cost a) ()"
    using encode_skips [of a] assms by (simp only: tree_skips_def skips_def le_SucI)
  then show "skip_next i = (Inr (), advance_ip (length bs) (skip_cost a) i)"
    using eatsD i by (simp only: skip_next_fuel)
qed

section \<open>Properties\<close>

text \<open>Node types \<open>skip_next\<close> has no case for.\<close>

definition unskippable :: "node_type list" where
  "unskippable =
     [NT_ImportFrom, NT_Import, NT_Alias, NT_ListComp, NT_Comprehension, NT_Global, NT_FunctionDef]"

lemma skip_next_unskippable:
  assumes "t \<in> set unskippable" and "ahead (be32 (node_code t)) (m_data i)"
  shows "fst (skip_next i) = Inl skip_error"
proof -
  have "rd_u32 i = (Inr (node_code t), advance_ip 4 0 i)"
    using get_u32_ahead [OF assms(2)] by (simp add: rd_u32_def on_data_def on_part_def advance_ip_def)
  then have "skip_step rec i = throw skip_error (advance_ip 4 0 i)" for rec
    using assms(1) by (auto simp: skip_step_def bnd_def unskippable_def)
  then show ?thesis by (simp add: skip_next_def throw_def)
qed

text \<open>
  C12: compiler and interpreter agree on where a node ends.  With the bytecode of any tree that
  \<open>skip_next\<close> can handle ahead of the get position, whatever follows it, \<open>skip_next\<close> returns with
  the position right behind the tree, having charged one step for each entry of the lists in it
  and changed nothing else; the steps must still be below the limit.  At a node of one of the
  seven other kinds the compiler writes, \<open>skip_next\<close> throws, so that a branch with a function
  definition, an import or a list comprehension in it can be executed but not skipped.
\<close>

theorem skip_next_skips_one_tree:
  assumes "encode a = Inr bs" and "skippable a" and "length bs < 2 ^ 32"
    and "ahead bs (m_data i)" and "room (skip_cost a) i"
  shows "skip_next i = (Inr (), advance_ip (length bs) (skip_cost a) i) \<and>
    (\<forall>t \<in> set unskippable. \<forall>j. ahead (be32 (node_code t)) (m_data j) \<longrightarrow> fst (skip_next j) = Inl skip_error)"
proof
  show "skip_next i = (Inr (), advance_ip (length bs) (skip_cost a) i)"
    using eatsD [OF eats_skip_next] assms by blast
qed (blast intro: skip_next_unskippable)

text \<open>\<^verbatim>\<open>while x: f(7)\<close>, followed by something else.\<close>

theorem skip_next_skips_one_tree_witness:
  "\<exists>i i'. skip_next i = (Inr (), i') \<and> getp (m_data i') = 38 \<and> m_num_execution_steps i' = 1"
proof -
  let ?a = "AstWhile (Some (AstName ''x'')) (Some (AstCall (Some (AstName ''f'')) [Some (AstNumber NumInteger 7)]))"
  let ?bs = "be32 (node_code NT_WhileLoop) @ be32 (node_code NT_Name) @ enc_string ''x'' @
    be32 (node_code NT_Call) @ be32 (node_code NT_Name) @ enc_string ''f'' @ be32 1 @
    be32 (node_code NT_Integer) @ be32 7"
  let ?i = "\<lparr>m_data = bitstream_of (?bs @ [0, 0]), m_num_execution_steps = 0, m_execution_step_limit = 9,
    m_loaded_modules = Map.empty, m_store = 0, m_global_scope = 0\<rparr>"
  have "encode ?a = Inr ?bs"
    by (simp add: node_bytes_eq string_bytes_def word_bytes_def encode_ptr_def encode_list_def
        encode_item_def c_str_def)
  moreover have "ahead ?bs (m_data ?i)"
    by (rule aheadI [where pre = "[]" and post = "[0, 0]"]) (simp_all add: bitstream_of_def)
  ultimately have eq: "skip_next ?i = (Inr (), advance_ip (length ?bs) (skip_cost ?a) ?i)"
    by (intro skip_next_skips_one_tree [THEN conjunct1]) (simp_all add: room_def)
  show ?thesis by (intro exI conjI, rule eq) (simp_all add: advance_ip_def skip_bytes_def bitstream_of_def)
qed

end
