(* ===== verification/Compiled_Run.thy ===== *)
theory Compiled_Run
  imports Compiled_Skip Exec_Laws
begin

text \<open>
  Running compiled code: the source language's own meaning of integer, boolean and string
  expressions and of straight-line and branching function bodies, on mathematical values, and
  the proof that \<open>execute_next\<close>, on the bytecode the compiler makes of them, computes it.
\<close>

section \<open>Values and expressions of the source\<close>

datatype pyval = PInt int | PBool bool | PStr string

type_synonym env = "string \<Rightarrow> pyval option"

text \<open>The 32 bits that every computed integer is cut down to.\<close>

definition wrap32 :: "int \<Rightarrow> int" where
  "wrap32 i = signed_take_bit 31 i"

definition arith_value :: "binary_op \<Rightarrow> int \<Rightarrow> int \<Rightarrow> int option" where
  "arith_value op a b =
     (case op of
        Bin_Add \<Rightarrow> Some (a + b)
      | Bin_Sub \<Rightarrow> Some (a - b)
      | Bin_Mult \<Rightarrow> Some (a * b)
      | Bin_Div \<Rightarrow> if b = 0 \<or> b = - 1 \<and> a = - (2 ^ 63) then None else Some (cdiv a b)
      | Bin_Mod \<Rightarrow> if b = 0 \<or> b = - 1 \<and> a = - (2 ^ 63) then None else Some (cmod a b)
      | _ \<Rightarrow> None)"

definition binary_value :: "binary_op \<Rightarrow> pyval \<Rightarrow> pyval \<Rightarrow> pyval option" where
  "binary_value op x y =
     (case (x, y) of
        (PInt a, PInt b) \<Rightarrow> map_option (\<lambda>i. PInt (wrap32 i)) (arith_value op a b)
      | (PStr s, PStr t) \<Rightarrow> (if op = Bin_Add then Some (PStr (s @ t)) else None)
      | _ \<Rightarrow> None)"

definition unary_value :: "unary_op \<Rightarrow> pyval \<Rightarrow> pyval option" where
  "unary_value op x =
     (case (op, x) of
        (Un_Sub, PInt i) \<Rightarrow> Some (PInt (wrap32 (- i)))
      | (Un_Add, PInt i) \<Rightarrow> Some (PInt i)
      | (Un_Not, PBool b) \<Rightarrow> Some (PBool (\<not> b))
      | (Un_Not, _) \<Rightarrow> Some (PBool False)
      | _ \<Rightarrow> None)"

definition compare_value :: "compare_op \<Rightarrow> pyval \<Rightarrow> pyval \<Rightarrow> pyval option" where
  "compare_value op x y =
     (case (x, y) of
        (PInt a, PInt b) \<Rightarrow>
          (case op of
             Cmp_Equals \<Rightarrow> Some (PBool (a = b))
           | Cmp_NotEqual \<Rightarrow> Some (PBool (a \<noteq> b))
           | Cmp_Less \<Rightarrow> Some (PBool (a < b))
           | Cmp_LessEqual \<Rightarrow> Some (PBool (a \<le> b))
           | Cmp_More \<Rightarrow> Some (PBool (b < a))
           | Cmp_MoreEqual \<Rightarrow> Some (PBool (b \<le> a))
           | _ \<Rightarrow> None)
      | (PStr s, PStr t) \<Rightarrow>
          (case op of
             Cmp_Equals \<Rightarrow> Some (PBool (s = t))
           | Cmp_NotEqual \<Rightarrow> Some (PBool (s \<noteq> t))
           | _ \<Rightarrow> None)
      | _ \<Rightarrow> None)"

definition name_value :: "env \<Rightarrow> string \<Rightarrow> pyval option" where
  "name_value e n =
     (if n = ''False'' then Some (PBool False) else if n = ''True'' then Some (PBool True) else e n)"

text \<open>The meaning of an expression tree: \<open>None\<close> for an error or for a node outside this fragment.\<close>

fun expr_value :: "env \<Rightarrow> ast \<Rightarrow> pyval option" where
  "expr_value e (AstName n) = name_value e (c_str n)"
| "expr_value e (AstStr s) = Some (PStr (c_str s))"
| "expr_value e (AstNumber t i) = (if t = NumInteger then Some (PInt (wrap32 (sint i))) else None)"
| "expr_value e (AstBinOp l op r) =
     Option.bind (Option.bind l (expr_value e)) (\<lambda>x.
     Option.bind (Option.bind r (expr_value e)) (binary_value op x))"
| "expr_value e (AstUnaryOp op p) = Option.bind (Option.bind p (expr_value e)) (unary_value op)"
| "expr_value e (AstCompare l cs) =
     (case cs of
        [(op, r)] \<Rightarrow>
          Option.bind (Option.bind l (expr_value e)) (\<lambda>x.
          Option.bind (Option.bind r (expr_value e)) (compare_value op x))
      | _ \<Rightarrow> None)"
| "expr_value e a = None"

text \<open>One step for every node, and one for the round of a comparison.\<close>

fun expr_cost :: "ast \<Rightarrow> nat" where
  "expr_cost (AstBinOp l op r) = Suc (ptr_sum expr_cost l + ptr_sum expr_cost r)"
| "expr_cost (AstUnaryOp op p) = Suc (ptr_sum expr_cost p)"
| "expr_cost (AstCompare l cs) =
     Suc (ptr_sum expr_cost l + sum_list (map (\<lambda>(op, c). Suc (ptr_sum expr_cost c)) cs))"
| "expr_cost a = 1"

section \<open>How the machine represents them\<close>

fun is_value :: "obj \<Rightarrow> pyval \<Rightarrow> bool" where
  "is_value (IntVal i) (PInt n) = (sint i = n)"
| "is_value (BoolVal b) (PBool c) = (b = c)"
| "is_value (StringVal s) (PStr t) = (s = t)"
| "is_value x v = False"

lemma is_value_iff [simp]:
  "is_value x (PInt n) \<longleftrightarrow> (\<exists>i. x = IntVal i \<and> sint i = n)"
  "is_value x (PBool b) \<longleftrightarrow> x = BoolVal b"
  "is_value x (PStr t) \<longleftrightarrow> x = StringVal t"
  by (cases x; auto)+

definition points_to :: "heap \<Rightarrow> valueptr \<Rightarrow> pyval \<Rightarrow> bool" where
  "points_to h p v = (case p of None \<Rightarrow> False | Some a \<Rightarrow> a < length h \<and> is_value (h ! a) v)"

lemma points_to_append: "points_to h p v \<Longrightarrow> points_to (h @ h') p v"
  by (auto simp: points_to_def split: option.splits)

lemma points_to_new [simp]: "points_to (h @ [x]) (Some (length h)) v \<longleftrightarrow> is_value x v"
  by (simp add: points_to_def)

lemma points_to_deref: "points_to h p v \<Longrightarrow> \<exists>x. deref h p = Some x \<and> is_value x v"
  by (auto simp: points_to_def deref_def split: option.splits)

text \<open>A variable of the environment is bound to its value, and its name is not reserved.\<close>

definition scope_knows :: "scopes \<Rightarrow> heap \<Rightarrow> nat \<Rightarrow> env \<Rightarrow> bool" where
  "scope_knows ss h sc e \<longleftrightarrow>
     (\<forall>n v. e n = Some v \<longrightarrow> n \<noteq> ''None'' \<and> builtin_of n = None \<and>
        (\<exists>p. find_value ss sc n = Inr p \<and> points_to h p v))"

lemma scope_knows_append: "scope_knows ss h sc e \<Longrightarrow> scope_knows ss (h @ h') sc e"
  unfolding scope_knows_def using points_to_append by blast

definition in_function :: "vm \<Rightarrow> nat \<Rightarrow> env \<Rightarrow> bool" where
  "in_function s sc e \<longleftrightarrow> get_depth (scopes s) sc \<noteq> 0 \<and> scope_knows (scopes s) (heap s) sc e"

text \<open>Execution that moves over bytes, counts steps and allocates objects.\<close>

definition grown :: "nat \<Rightarrow> nat \<Rightarrow> heap \<Rightarrow> vm \<Rightarrow> vm" where
  "grown n k h s = s\<lparr>heap := heap s @ h, ip := advance_ip n k (ip s)\<rparr>"

lemma grown_grown [simp]: "grown m j h' (grown n k h s) = grown (n + m) (k + j) (h @ h') s"
  by (simp add: grown_def)

lemma grown_simps [simp]:
  "heap (grown n k h s) = heap s @ h" "scopes (grown n k h s) = scopes s"
  "ip (grown n k h s) = advance_ip n k (ip s)"
  by (simp_all add: grown_def)

lemma in_function_grown: "in_function s sc e \<Longrightarrow> in_function (grown n k h s) sc e"
  by (simp add: in_function_def scope_knows_append)

lemma on_ip_eats:
  assumes "eats m bs k x" and "ahead bs (m_data (ip s))" and "room k (ip s)"
  shows "on_ip m s = (Inr x, grown (length bs) k [] s)"
  using eatsD [OF assms] by (simp add: on_ip_def on_part_def grown_def)

section \<open>The operators\<close>

text \<open>A heap operation that returns a new object with a given value.\<close>

definition makes :: "(heap, valueptr) prog \<Rightarrow> pyval \<Rightarrow> bool" where
  "makes m v \<longleftrightarrow> (\<forall>h. \<exists>z. m h = (Inr (Some (length h)), h @ [z]) \<and> is_value z v)"

lemma makes_hnew: "is_value z v \<Longrightarrow> makes (hnew z) v"
  by (auto simp: makes_def hnew_def bnd_def halloc_def ret_def)

lemma makes_integer: "wrap32 (sint w) = i \<Longrightarrow> makes (create_integer w) (PInt i)"
  unfolding create_integer_def by (rule makes_hnew) (simp add: sint_int32_of wrap32_def)

lemma makes_boolean: "makes (create_boolean b) (PBool b)"
  unfolding create_boolean_def by (rule makes_hnew) simp

lemma makes_string: "makes (create_string s) (PStr s)"
  unfolding create_string_def by (rule makes_hnew) simp

lemma wrap32_arith:
  fixes a b :: i64
  shows
  "wrap32 (sint (a + b)) = wrap32 (sint a + sint b)" "wrap32 (sint (a - b)) = wrap32 (sint a - sint b)"
  "wrap32 (sint (a * b)) = wrap32 (sint a * sint b)" "wrap32 (sint (- a)) = wrap32 (- sint a)"
  "wrap32 (sint (of_int i :: i64)) = wrap32 i"
  using low32 [of "sint a + sint b"] low32 [of "sint a - sint b"] low32 [of "sint a * sint b"]
    low32 [of "- sint a"] low32 [of i]
  by (simp_all add: wrap32_def)

lemma makes_quotient:
  assumes "sint b \<noteq> 0" and "\<not> (sint b = - 1 \<and> sint a = - (2 ^ 63))"
  shows "makes (int_divide f msg a b) (PInt (wrap32 (f (sint a) (sint b))))"
proof -
  have "b \<noteq> 0" "\<not> (b = - 1 \<and> sint a = - (2 ^ 63))" using assms by auto
  then have "int_divide f msg a b = create_integer (of_int (f (sint a) (sint b)))"
    by (auto simp: int_divide_def)
  then show ?thesis by (simp add: makes_integer wrap32_arith)
qed

lemma apply_binary_value:
  assumes "is_value x a" and "is_value y b" and "binary_value op a b = Some v"
  shows "makes (apply_binary (Some op) x y) v" and "known_binary (Some op)"
proof -
  show "known_binary (Some op)"
    using assms(3) by (auto simp: binary_value_def arith_value_def known_binary_def split: pyval.splits binary_op.splits if_splits)
  show "makes (apply_binary (Some op) x y) v"
    using assms
    by (auto simp: binary_value_def arith_value_def apply_binary_def split: pyval.splits binary_op.splits if_splits
        intro!: makes_integer makes_string makes_quotient wrap32_arith)
qed

lemma compare_values_value:
  assumes "points_to h p a" and "points_to h q b" and "compare_value op a b = Some v"
  shows "\<exists>c. compare_values (Some op) h p q = Inr c \<and> v = PBool c"
proof -
  obtain x y where "deref h p = Some x" "is_value x a" "deref h q = Some y" "is_value y b"
    using assms(1,2) points_to_deref by blast
  then show ?thesis
    using assms(3)
    by (auto simp: compare_value_def compare_values_def value_eq_def value_gt_def value_ge_def
        split: pyval.splits compare_op.splits dest: signed_word_eqI)
qed

lemma apply_unary_value:
  assumes "deref h p = Some x" and "p = Some a" and "a < length h" and "is_value x b" and "unary_value op b = Some v"
  shows "\<exists>q h'. apply_unary (Some op) a x h = (Inr q, h @ h') \<and> points_to (h @ h') q v"
proof (cases "op = Un_Add \<and> (\<exists>i. x = IntVal i)")
  case True
  with assms have "apply_unary (Some op) a x h = (Inr (Some a), h @ [])" "points_to (h @ []) (Some a) v"
    by (auto simp: apply_unary_def ret_def unary_value_def points_to_def deref_def split: pyval.splits)
  then show ?thesis by blast
next
  case False
  with assms(4,5) have "makes (apply_unary (Some op) a x) v"
    by (auto simp: apply_unary_def unary_value_def split: pyval.splits unary_op.splits
        intro!: makes_integer makes_boolean wrap32_arith)
  then show ?thesis unfolding makes_def by (metis points_to_new)
qed

section \<open>Expressions\<close>

lemma bnd_gets: "bnd (gets f) g s = g (f s) s"
  by (simp add: gets_def bnd_def)

lemma bnd_data_pos: "bnd (on_ip data_pos) f s = f (bs_pos (m_data (ip s))) s"
  by (simp add: bnd_def on_ip_def on_part_def data_pos_def gets_def)

text \<open>The states in which a node leaves the read position behind it.\<close>

definition quiet :: "loop_state \<Rightarrow> bool" where
  "quiet ls \<longleftrightarrow> ls = LS_None \<or> ls = LS_Normal"

lemma quiet_simps [simp]: "quiet LS_None" "quiet LS_Normal"
  by (simp_all add: quiet_def)

lemma exec_node_result:
  assumes "ahead (be32 (node_code t)) (m_data (ip s))" and "room 1 (ip s)"
    and "get_depth (scopes s) sc = 0 \<longrightarrow> top_level_ok (node_code t)"
    and "exec_node n (exec n) (Some t) sc ls (grown 4 1 [] s) = (Inr (p, ls'), s')" and "quiet ls'"
  shows "exec (Suc n) sc ls s = (Inr (p, ls'), s')"
proof -
  have c: "on_ip charge s = (Inr (), grown 0 (Suc 0) [] s)"
    using on_ip_eats [OF eats_charge] assms(1,2) unfolding ahead_def by auto
  have r: "on_ip rd_u32 (grown 0 (Suc 0) [] s) = (Inr (node_code t), grown 4 (Suc 0) [] s)"
    using on_ip_eats [OF eats_u32, of "node_code t" "grown 0 1 [] s"] assms(1) room_advance [of 1 0 "ip s" 0] assms(2)
    by simp
  show ?thesis
    using assms(3-5) r
    by (auto simp: quiet_def exec_step_def bnd_Inr [where m = "on_ip charge", OF c] bnd_data_pos bnd_gets
        bnd_Inr [where m = "on_ip rd_u32", OF r] bnd_Inr [where m = "exec_node n (exec n) (Some t) sc ls"] ret_def)
qed

lemma eval_exec: "exec n sc LS_None s = (Inr (p, LS_None), s') \<Longrightarrow> eval (exec n) sc s = (Inr p, s')"
  by (simp add: eval_def bnd_def ret_def)

lemma bnd_eval: "exec n sc LS_None s = (Inr (p, LS_None), s') \<Longrightarrow> bnd (eval (exec n) sc) f s = f p s'"
  by (rule bnd_Inr [OF eval_exec])

lemma eval_ptr_exec:
  "exec n sc LS_None s = (Inr (p, LS_None), s') \<Longrightarrow> points_to h p v \<Longrightarrow> eval_ptr (exec n) sc s = (Inr (the p), s')"
  by (auto simp: eval_ptr_def bnd_eval assert_ptr_def points_to_def ret_def split: option.splits)

text \<open>What running the code of an expression does, for all states and fuel.\<close>

definition expr_runs :: "env \<Rightarrow> ast \<Rightarrow> bool" where
  "expr_runs e a \<longleftrightarrow>
     (\<forall>bs v s n sc ls. encode a = Inr bs \<longrightarrow> length bs < 2 ^ 32 \<longrightarrow> expr_value e a = Some v \<longrightarrow> size a < n \<longrightarrow>
        in_function s sc e \<longrightarrow> ahead bs (m_data (ip s)) \<longrightarrow> room (expr_cost a) (ip s) \<longrightarrow> quiet ls \<longrightarrow>
        (\<exists>p h. exec n sc ls s = (Inr (p, ls), grown (length bs) (expr_cost a) h s) \<and>
           points_to (heap s @ h) p v))"

lemma expr_runsD:
  assumes "expr_runs e a" and "encode a = Inr bs" and "length bs < 2 ^ 32" and "expr_value e a = Some v"
    and "size a < n" and "in_function s sc e" and "ahead bs (m_data (ip s))" and "room (expr_cost a + k) (ip s)"
    and "quiet ls"
  obtains p h where "exec n sc ls s = (Inr (p, ls), grown (length bs) (expr_cost a) h s)"
    and "points_to (heap s @ h) p v" and "room k (ip (grown (length bs) (expr_cost a) h s))"
  using assms room_mono [OF assms(8) le_add1] room_advance [OF assms(8)] unfolding expr_runs_def grown_simps
  by blast

text \<open>A node is run by its case, behind its type and one step on.\<close>

lemma expr_runsI:
  assumes "\<And>bs v. encode a = Inr bs \<Longrightarrow> expr_value e a = Some v \<Longrightarrow>
    \<exists>t xs k. bs = be32 (node_code t) @ xs \<and> expr_cost a = Suc k \<and>
      (\<forall>s n sc ls. length xs < 2 ^ 32 \<longrightarrow> size a \<le> n \<longrightarrow> in_function s sc e \<longrightarrow> ahead xs (m_data (ip s)) \<longrightarrow> room k (ip s) \<longrightarrow>
        (\<exists>p h. exec_node n (exec n) (Some t) sc ls s = (Inr (p, ls), grown (length xs) k h s) \<and>
           points_to (heap s @ h) p v))"
  shows "expr_runs e a"
  unfolding expr_runs_def
proof (intro allI impI)
  fix bs v s n sc ls
  assume a: "encode a = Inr bs" "length bs < 2 ^ 32" "expr_value e a = Some v" "size a < n" "in_function s sc e"
    "ahead bs (m_data (ip s))" "room (expr_cost a) (ip s)" "quiet ls"
  from assms [OF a(1,3)] obtain t xs k where bs: "bs = be32 (node_code t) @ xs" and k: "expr_cost a = Suc k"
    and run: "\<And>s n sc ls. length xs < 2 ^ 32 \<Longrightarrow> size a \<le> n \<Longrightarrow> in_function s sc e \<Longrightarrow> ahead xs (m_data (ip s)) \<Longrightarrow>
      room k (ip s) \<Longrightarrow> \<exists>p h. exec_node n (exec n) (Some t) sc ls s = (Inr (p, ls), grown (length xs) k h s) \<and>
        points_to (heap s @ h) p v" by blast
  obtain m where n: "n = Suc m" "size a \<le> m" using a(4) by (cases n) auto
  have ahead: "ahead (be32 (node_code t)) (m_data (ip s))" "ahead xs (m_data (ip (grown 4 1 [] s)))"
    using a(6) by (simp_all add: bs ahead_append)
  have room: "room 1 (ip s)" "room k (ip (grown 4 1 [] s))"
    using a(7) room_mono [of "Suc k" "ip s" 1] room_advance [of 1 k "ip s"] by (simp_all add: k)
  obtain p h where "exec_node m (exec m) (Some t) sc ls (grown 4 1 [] s) =
      (Inr (p, ls), grown (length xs) k h (grown 4 1 [] s))" "points_to (heap s @ h) p v"
    using run [of m "grown 4 1 [] s" sc ls] n(2) a(2,5) ahead(2) room(2) by (auto simp: bs in_function_grown)
  with exec_node_result [OF ahead(1) room(1)] a(5,8)
  show "\<exists>p h. exec n sc ls s = (Inr (p, ls), grown (length bs) (expr_cost a) h s) \<and>
      points_to (heap s @ h) p v"
    by (simp add: n(1) k bs in_function_def) blast
qed

lemma same_state_run: "m s = (Inr p, s') \<Longrightarrow> same_state ls m s = (Inr (p, ls), s')"
  by (simp add: same_state_def bnd_def ret_def)

lemma on_heap_run: "m (heap s) = (Inr x, heap s @ h) \<Longrightarrow> on_heap m s = (Inr x, grown 0 0 h s)"
  by (simp add: on_heap_def on_part_def grown_def)

lemma bnd_times_0: "bnd m (times 0 f) = m"
proof -
  have "times 0 f = ret" by (simp add: fun_eq_iff)
  then show ?thesis by simp
qed

lemma bnd_with_heap: "f (heap s) = Inr x \<Longrightarrow> bnd (with_heap f) g s = g x s"
  by (simp add: with_heap_def bnd_def)

lemma hnew_run: "hnew x h = (Inr (Some (length h)), h @ [x])"
  by (simp add: hnew_def bnd_def halloc_def ret_def)

lemma on_heap_makes:
  assumes "makes m v"
  shows "\<exists>p h. on_heap m s = (Inr p, grown 0 0 h s) \<and> points_to (heap s @ h) p v"
proof -
  obtain z where z: "m (heap s) = (Inr (Some (length (heap s))), heap s @ [z])" "is_value z v"
    using assms unfolding makes_def by blast
  show ?thesis
    by (intro exI [of _ "Some (length (heap s))"] exI [of _ "[z]"])
      (simp add: on_heap_def on_part_def z grown_def)
qed

lemma bnd_eats:
  assumes "eats m bs k x" and "ahead bs (m_data (ip s))" and "room k (ip s)"
  shows "bnd (on_ip m) f s = f x (grown (length bs) k [] s)"
  using on_ip_eats [OF assms] by (simp add: bnd_def)

lemma eats_i32: "eats (on_data get_i32) (be32 v) 0 v"
  by (simp add: eats_def on_data_def on_part_def get_i32_ahead advance_ip_def)

text \<open>Names, strings and numbers.\<close>

lemma scope_get_known:
  assumes "scope_knows (scopes s) (heap s) sc e" and "e n = Some v"
  shows "\<exists>p. scope_get sc n s = (Inr p, s) \<and> points_to (heap s) p v"
  using assms
  by (auto simp: scope_knows_def scope_get_def bnd_gets on_heap_def on_part_def get_value_def lift_sum_def)

lemma name_runs:
  assumes "name_value e n = Some v" and "in_function s sc e"
    and "length (enc_string n) < 2 ^ 32" and "ahead (enc_string n) (m_data (ip s))" and "room 0 (ip s)"
  shows "\<exists>p h. node_name sc s = (Inr p, grown (length (enc_string n)) 0 h s) \<and> points_to (heap s @ h) p v"
proof -
  let ?s = "grown (length (enc_string n)) 0 [] s"
  have run: "node_name sc s =
      (if n = ''False'' then on_heap (create_boolean False)
       else if n = ''True'' then on_heap (create_boolean True) else scope_get sc n) ?s"
    using assms(3) by (simp add: node_name_def bnd_eats [OF eats_string assms(4,5)])
  show ?thesis
  proof (cases "n = ''False'' \<or> n = ''True''")
    case True
    then obtain b where "node_name sc s = on_heap (create_boolean b) ?s" and "v = PBool b"
      using run assms(1) by (auto simp: name_value_def split: if_splits)
    then show ?thesis using on_heap_makes [OF makes_boolean, of b ?s] by simp
  next
    case False
    then obtain p where "scope_get sc n ?s = (Inr p, ?s)" "points_to (heap s) p v"
      using assms(1,2) scope_get_known [of ?s sc e n v] by (auto simp: name_value_def in_function_def)
    then show ?thesis using run False by (intro exI [of _ p] exI [of _ "[]"]) simp
  qed
qed

lemma string_runs:
  assumes "length (enc_string t) < 2 ^ 32" and "ahead (enc_string t) (m_data (ip s))" and "room 0 (ip s)"
  shows "\<exists>p h. node_string s = (Inr p, grown (length (enc_string t)) 0 h s) \<and> points_to (heap s @ h) p (PStr t)"
  using on_heap_makes [OF makes_string, of t "grown (length (enc_string t)) 0 [] s"] assms(1)
  by (simp add: node_string_def bnd_eats [OF eats_string assms(2,3)])

lemma wrap32_literal: "sint (scast (ucast i :: u32) :: i64) = wrap32 (sint (i :: i64))"
  using sint_int32_of [of i] by (simp add: int32_of_def wrap32_def)

lemma integer_runs:
  assumes "ahead (be32 (ucast i)) (m_data (ip s))" and "room 0 (ip s)"
  shows "\<exists>p h. node_integer s = (Inr p, grown 4 0 h s) \<and> points_to (heap s @ h) p (PInt (wrap32 (sint (i :: i64))))"
proof -
  have "wrap32 (wrap32 j) = wrap32 j" for j by (simp add: wrap32_def)
  then have "makes (create_integer (scast (ucast i :: u32))) (PInt (wrap32 (sint i)))"
    by (intro makes_integer) (simp add: wrap32_literal)
  from on_heap_makes [OF this, of "grown 4 0 [] s"] show ?thesis
    by (simp add: node_integer_def bnd_eats [OF eats_i32 assms])
qed

text \<open>An operand.\<close>

lemma operand_runs:
  assumes "\<And>a. p = Some a \<Longrightarrow> expr_runs e a" and "encode_ptr encode p = Inr bs" and "length bs < 2 ^ 32"
    and "Option.bind p (expr_value e) = Some v" and "size_option size p \<le> n" and "in_function s sc e"
    and "ahead bs (m_data (ip s))" and "room (ptr_sum expr_cost p + k) (ip s)" and "quiet ls"
  obtains q h where "exec n sc ls s = (Inr (q, ls), grown (length bs) (ptr_sum expr_cost p) h s)"
    and "points_to (heap s @ h) q v" and "room k (ip (grown (length bs) (ptr_sum expr_cost p) h s))"
    and "in_function (grown (length bs) (ptr_sum expr_cost p) h s) sc e"
proof -
  obtain a where p: "p = Some a" "encode a = Inr bs" "expr_value e a = Some v"
    using assms(2,4) by (auto simp: encode_ptr_eq_Inr)
  have "size a < n" using assms(5) p(1) by simp
  from expr_runsD [OF assms(1) [OF p(1)] p(2) assms(3) p(3) this assms(6,7)] assms(8,9) that
  show ?thesis by (auto simp: p(1) in_function_grown [OF assms(6)])
qed

lemma unary_runs:
  assumes IH: "\<And>a. p = Some a \<Longrightarrow> expr_runs e a" "size_option size p \<le> n" and v: "expr_value e (AstUnaryOp op p) = Some v"
    and bs: "encode_ptr encode p = Inr bs" "length bs < 2 ^ 32" and s: "in_function s sc e"
    and ahead: "ahead (be32 (unary_code op) @ bs) (m_data (ip s))" and room: "room (ptr_sum expr_cost p) (ip s)"
  shows "\<exists>q h. node_unary_op (exec n) sc s = (Inr q, grown (4 + length bs) (ptr_sum expr_cost p) h s) \<and>
    points_to (heap s @ h) q v"
proof -
  obtain x where x: "Option.bind p (expr_value e) = Some x" "unary_value op x = Some v"
    using v by (auto simp: bind_eq_Some_conv)
  let ?s = "grown 4 0 [] s"
  have op: "bnd (on_ip rd_u32) f s = f (unary_code op) ?s" for f
    using bnd_eats [OF eats_u32, of "unary_code op" s f] ahead room_mono [OF room] by (simp add: ahead_append)
  obtain q h where q: "exec n sc LS_None ?s = (Inr (q, LS_None), grown (length bs) (ptr_sum expr_cost p) h ?s)"
    "points_to (heap s @ h) q x"
    by (rule operand_runs [of p e bs x n ?s sc 0])
      (use IH bs x(1) in_function_grown [OF s] ahead room_advance [of 0 _ "ip s"] room in \<open>auto simp: ahead_append\<close>)
  then obtain a y where a: "q = Some a" "a < length (heap s @ h)" "(heap s @ h) ! a = y" "is_value y x"
    by (auto simp: points_to_def split: option.splits)
  then obtain r h' where r: "apply_unary (Some op) a y (heap s @ h) = (Inr r, (heap s @ h) @ h')"
      "points_to ((heap s @ h) @ h') r v"
    using apply_unary_value [of "heap s @ h" q y a x op v] x(2) by (auto simp: deref_def)
  have "node_unary_op (exec n) sc s =
      (Inr r, grown (4 + length bs) (ptr_sum expr_cost p) (h @ h') s)"
    using q(1) a r(1)
    by (simp add: node_unary_op_def op eval_ptr_def bnd_eval assert_ptr_def obj_at_def bnd_gets
        on_heap_def on_part_def grown_def)
  with r(2) show ?thesis by auto
qed

lemma room_grown: "room (j + k) (ip s) \<Longrightarrow> room k (ip (grown n j h s))"
  by (simp add: room_advance)

lemma binary_runs:
  assumes L: "\<And>a. l = Some a \<Longrightarrow> expr_runs e a" "size_option size l \<le> n"
    and R: "\<And>a. r = Some a \<Longrightarrow> expr_runs e a" "size_option size r \<le> n"
    and v: "expr_value e (AstBinOp l op r) = Some v"
    and bs: "encode_ptr encode l = Inr bl" "encode_ptr encode r = Inr br" "length (bl @ br) < 2 ^ 32"
    and s: "in_function s sc e" and ahead: "ahead (be32 (binary_code op) @ bl @ br) (m_data (ip s))"
    and room: "room (ptr_sum expr_cost l + ptr_sum expr_cost r) (ip s)"
  shows "\<exists>q h. node_binary_op (exec n) sc s =
      (Inr q, grown (4 + (length bl + length br)) (ptr_sum expr_cost l + ptr_sum expr_cost r) h s) \<and>
    points_to (heap s @ h) q v"
proof -
  obtain x y where x: "Option.bind l (expr_value e) = Some x" "Option.bind r (expr_value e) = Some y"
      "binary_value op x y = Some v"
    using v by (auto simp: bind_eq_Some_conv)
  let ?s = "grown 4 0 [] s"
  have op: "bnd (on_ip rd_u32) f s = f (binary_code op) ?s" for f
    using bnd_eats [OF eats_u32, of "binary_code op" s f] ahead room_mono [OF room] by (simp add: ahead_append)
  obtain p h where p: "exec n sc LS_None ?s = (Inr (p, LS_None), grown (length bl) (ptr_sum expr_cost l) h ?s)"
    "points_to (heap s @ h) p x"
    and s1: "room (ptr_sum expr_cost r) (ip (grown (length bl) (ptr_sum expr_cost l) h ?s))"
    "in_function (grown (length bl) (ptr_sum expr_cost l) h ?s) sc e"
    by (rule operand_runs [of l e bl x n ?s sc "ptr_sum expr_cost r"])
      (use L bs x(1) in_function_grown [OF s] ahead room_advance [of 0 _ "ip s"] room in \<open>auto simp: ahead_append\<close>)
  let ?t = "grown (length bl) (ptr_sum expr_cost l) h ?s"
  obtain q h' where q: "exec n sc LS_None ?t = (Inr (q, LS_None), grown (length br) (ptr_sum expr_cost r) h' ?t)"
    "points_to ((heap s @ h) @ h') q y"
    by (rule operand_runs [of r e br y n ?t sc 0])
      (use R bs x(2) s1 ahead in \<open>auto simp: ahead_append\<close>)
  from p(2) have "points_to ((heap s @ h) @ h') p x" by (rule points_to_append)
  with q(2) obtain a b where a: "p = Some a" "is_value (((heap s @ h) @ h') ! a) x"
    and b: "q = Some b" "is_value (((heap s @ h) @ h') ! b) y"
    by (auto simp: points_to_def split: option.splits)
  let ?h = "(heap s @ h) @ h'"
  obtain z where z: "apply_binary (Some op) (?h ! a) (?h ! b) ?h = (Inr (Some (length ?h)), ?h @ [z])" "is_value z v"
    and known: "known_binary (Some op)"
    using apply_binary_value [OF a(2) b(2) x(3)] unfolding makes_def by blast
  have "node_binary_op (exec n) sc s =
      (Inr (Some (length ?h)), grown (4 + (length bl + length br)) (ptr_sum expr_cost l + ptr_sum expr_cost r) (h @ h' @ [z]) s)"
    using a(1) b(1) z(1) known
    by (simp add: node_binary_op_def op bnd_eval [OF p(1)] bnd_eval [OF q(1) [simplified]] assert_ptr_def obj_at_def
        bnd_gets on_heap_run add.assoc)
  moreover have "points_to (heap s @ h @ h' @ [z]) (Some (length ?h)) v"
    using z(2) points_to_new [of ?h z v] by simp
  ultimately show ?thesis by blast
qed

lemma compare_runs:
  assumes L: "\<And>a. l = Some a \<Longrightarrow> expr_runs e a" "size_option size l \<le> n"
    and R: "\<And>a. r = Some a \<Longrightarrow> expr_runs e a" "size_option size r \<le> n"
    and v: "expr_value e (AstCompare l [(op, r)]) = Some v"
    and bs: "encode_ptr encode l = Inr bl" "encode_ptr encode r = Inr br" "length (bl @ br) < 2 ^ 32"
    and s: "in_function s sc e" and ahead: "ahead (bl @ be32 1 @ be32 (compare_code op) @ br) (m_data (ip s))"
    and room: "room (ptr_sum expr_cost l + Suc (ptr_sum expr_cost r)) (ip s)"
  shows "\<exists>q h. node_compare (exec n) sc s =
      (Inr q, grown (length bl + (8 + length br)) (ptr_sum expr_cost l + Suc (ptr_sum expr_cost r)) h s) \<and>
    points_to (heap s @ h) q v"
proof -
  obtain x y where x: "Option.bind l (expr_value e) = Some x" "Option.bind r (expr_value e) = Some y"
      "compare_value op x y = Some v"
    using v by (auto simp: bind_eq_Some_conv)
  obtain p h where p: "exec n sc LS_None s = (Inr (p, LS_None), grown (length bl) (ptr_sum expr_cost l) h s)"
    "points_to (heap s @ h) p x"
    and s1: "room (Suc (ptr_sum expr_cost r)) (ip (grown (length bl) (ptr_sum expr_cost l) h s))"
    "in_function (grown (length bl) (ptr_sum expr_cost l) h s) sc e"
    by (rule operand_runs [of l e bl x n s sc "Suc (ptr_sum expr_cost r)"])
      (use L bs x(1) s ahead room in \<open>auto simp: ahead_append\<close>)
  let ?t = "grown (length bl) (ptr_sum expr_cost l) h s"
  let ?u = "grown 4 0 [] ?t"
  let ?w = "grown 4 1 [] ?u"
  have ahead': "ahead (be32 1) (m_data (ip ?t))" "ahead (be32 (compare_code op)) (m_data (ip ?u))"
    "ahead br (m_data (ip ?w))"
    using ahead by (simp_all add: ahead_append)
  have room': "room (Suc (ptr_sum expr_cost r)) (ip ?u)" "room (ptr_sum expr_cost r) (ip ?w)"
    using s1(1) room_advance [of 0 "Suc (ptr_sum expr_cost r)" "ip ?t" 4]
      room_advance [of 1 "ptr_sum expr_cost r" "ip ?t" 8]
    by (simp_all add: add.commute)
  have size: "bnd (on_ip rd_u32) f ?t = f 1 ?u" for f
    using bnd_eats [OF eats_u32 ahead'(1), of f] room_mono [OF s1(1)] by simp
  have round: "bnd (on_ip charge) (\<lambda>_. bnd (on_ip rd_u32) f) ?u = f (compare_code op) ?w" for f
  proof -
    have "eats (bnd charge (\<lambda>_. rd_u32)) ([] @ be32 (compare_code op)) (1 + 0) (compare_code op)"
      by (intro eats_seq eats_charge eats_u32)
    from bnd_eats [OF this, of ?u f] ahead'(2) room_mono [OF room'(1)]
    have "bnd (on_ip (bnd charge (\<lambda>_. rd_u32))) f ?u = f (compare_code op) ?w" by simp
    moreover have "on_ip (bnd charge (\<lambda>_. rd_u32)) = bnd (on_ip charge) (\<lambda>_. on_ip rd_u32)"
      by (auto simp: fun_eq_iff on_ip_def on_part_def bnd_def split: prod.split sum.split)
    ultimately show ?thesis by simp
  qed
  obtain q h' where q: "exec n sc LS_None ?w = (Inr (q, LS_None), grown (length br) (ptr_sum expr_cost r) h' ?w)"
    "points_to ((heap s @ h) @ h') q y"
    by (rule operand_runs [of r e br y n ?w sc 0])
      (use R bs x(2) s1(2) ahead'(3) room'(2) in \<open>auto simp: in_function_def\<close>)
  from p(2) have "points_to ((heap s @ h) @ h') p x" by (rule points_to_append)
  then obtain c where c: "compare_values (Some op) ((heap s @ h) @ h') p q = Inr c" "v = PBool c"
    using compare_values_value [OF _ q(2) x(3)] by blast
  have "node_compare (exec n) sc s =
      (Inr (Some (length ((heap s @ h) @ h'))),
       grown (length bl + (8 + length br)) (ptr_sum expr_cost l + Suc (ptr_sum expr_cost r)) (h @ h' @ [BoolVal c]) s)"
    using c(1)
    by (simp add: node_compare_def bnd_eval [OF p(1)] size exec_times_def round [simplified] bnd_eval [OF q(1) [simplified]]
        bnd_with_heap on_heap_run create_boolean_def hnew_run bnd_times_0 add.assoc add.left_commute)
  moreover have "points_to (heap s @ h @ h' @ [BoolVal c]) (Some (length ((heap s @ h) @ h'))) v"
    using c(2) points_to_new [of "(heap s @ h) @ h'" "BoolVal c" v] by simp
  ultimately show ?thesis by blast
qed

text \<open>Every expression of the fragment, by induction on its size.\<close>

lemma encode_compare_one:
  "encode (AstCompare l [(op, r)]) = Inr bs \<Longrightarrow> \<exists>bl br. encode_ptr encode l = Inr bl \<and> encode_ptr encode r = Inr br \<and>
     bs = be32 (node_code NT_Compare) @ bl @ be32 1 @ be32 (compare_code op) @ br"
  by (auto simp: cat_eq_Inr node_bytes_eq word_bytes_def encode_list_def cats_Cons)

text \<open>A case of \<open>execute_next\<close> that leaves the loop state alone and runs an expression.\<close>

definition case_runs :: "env \<Rightarrow> ast \<Rightarrow> u8 list \<Rightarrow> pyval \<Rightarrow> bool" where
  "case_runs e a bs v \<longleftrightarrow>
     (\<exists>t xs k m. bs = be32 (node_code t) @ xs \<and> expr_cost a = Suc k \<and>
        (\<forall>n sc ls. exec_node n (exec n) (Some t) sc ls = same_state ls (m n sc)) \<and>
        (\<forall>s n sc. length xs < 2 ^ 32 \<longrightarrow> size a \<le> n \<longrightarrow> in_function s sc e \<longrightarrow> ahead xs (m_data (ip s)) \<longrightarrow>
           room k (ip s) \<longrightarrow> (\<exists>p h. m n sc s = (Inr p, grown (length xs) k h s) \<and> points_to (heap s @ h) p v)))"

lemma case_runsI:
  assumes "bs = be32 (node_code t) @ xs" and "expr_cost a = Suc k"
    and "\<And>n sc ls. exec_node n (exec n) (Some t) sc ls = same_state ls (m n sc)"
    and "\<And>s n sc. length xs < 2 ^ 32 \<Longrightarrow> size a \<le> n \<Longrightarrow> in_function s sc e \<Longrightarrow> ahead xs (m_data (ip s)) \<Longrightarrow>
      room k (ip s) \<Longrightarrow> \<exists>p h. m n sc s = (Inr p, grown (length xs) k h s) \<and> points_to (heap s @ h) p v"
  shows "case_runs e a bs v"
  using assms unfolding case_runs_def by blast

lemma expr_runs_cases:
  assumes "\<And>bs v. encode a = Inr bs \<Longrightarrow> expr_value e a = Some v \<Longrightarrow> case_runs e a bs v"
  shows "expr_runs e a"
proof (rule expr_runsI)
  fix bs v assume "encode a = Inr bs" "expr_value e a = Some v"
  from assms [OF this] obtain t xs k m where bs: "bs = be32 (node_code t) @ xs" "expr_cost a = Suc k"
    and same: "\<And>n sc ls. exec_node n (exec n) (Some t) sc ls = same_state ls (m n sc)"
    and run: "\<And>s n sc. length xs < 2 ^ 32 \<Longrightarrow> size a \<le> n \<Longrightarrow> in_function s sc e \<Longrightarrow> ahead xs (m_data (ip s)) \<Longrightarrow>
      room k (ip s) \<Longrightarrow> \<exists>p h. m n sc s = (Inr p, grown (length xs) k h s) \<and> points_to (heap s @ h) p v"
    unfolding case_runs_def by blast
  have "\<exists>p h. exec_node n (exec n) (Some t) sc ls s = (Inr (p, ls), grown (length xs) k h s) \<and>
      points_to (heap s @ h) p v"
    if "length xs < 2 ^ 32" "size a \<le> n" "in_function s sc e" "ahead xs (m_data (ip s))" "room k (ip s)" for s n sc ls
  proof -
    from run [OF that] obtain p h where "m n sc s = (Inr p, grown (length xs) k h s)" "points_to (heap s @ h) p v"
      by blast
    then show ?thesis unfolding same by (blast intro: same_state_run)
  qed
  with bs show "\<exists>t xs k. bs = be32 (node_code t) @ xs \<and> expr_cost a = Suc k \<and>
      (\<forall>s n sc ls. length xs < 2 ^ 32 \<longrightarrow> size a \<le> n \<longrightarrow> in_function s sc e \<longrightarrow> ahead xs (m_data (ip s)) \<longrightarrow> room k (ip s) \<longrightarrow>
        (\<exists>p h. exec_node n (exec n) (Some t) sc ls s = (Inr (p, ls), grown (length xs) k h s) \<and>
           points_to (heap s @ h) p v))"
    by blast
qed

lemma expr_runs: "expr_runs e a"
proof (induction a rule: measure_induct_rule [of size])
  case (less a)
  show ?case
  proof (rule expr_runs_cases)
    fix bs v assume bs: "encode a = Inr bs" and v: "expr_value e a = Some v"
    show "case_runs e a bs v"
    proof (cases a)
      case (AstName n)
      show ?thesis
        by (rule case_runsI [of _ NT_Name "enc_string (c_str n)" _ 0 "\<lambda>n sc. node_name sc"])
          (use bs v AstName name_runs [of e "c_str n" v] in
            \<open>simp_all add: node_bytes_eq string_bytes_def exec_node_def\<close>)
    next
      case (AstStr t)
      show ?thesis
        by (rule case_runsI [of _ NT_String "enc_string (c_str t)" _ 0 "\<lambda>n sc. node_string"])
          (use bs v AstStr string_runs [of "c_str t"] in
            \<open>simp_all add: node_bytes_eq string_bytes_def exec_node_def\<close>)
    next
      case (AstNumber t i)
      show ?thesis
        by (rule case_runsI [of _ NT_Integer "be32 (ucast i)" _ 0 "\<lambda>n sc. node_integer"])
          (use bs v AstNumber integer_runs [of i] in
            \<open>auto simp: node_bytes_eq word_bytes_def exec_node_def split: if_splits\<close>)
    next
      case (AstUnaryOp op p)
      then obtain bp where bp: "encode_ptr encode p = Inr bp"
          "bs = be32 (node_code NT_UnaryOp) @ be32 (unary_code op) @ bp"
        using bs by (auto simp: cat_eq_Inr node_bytes_eq word_bytes_def)
      have IH: "p = Some b \<Longrightarrow> expr_runs e b" for b
        using less.IH [of b] AstUnaryOp by simp
      show ?thesis
        by (rule case_runsI [OF bp(2), where m = "\<lambda>n. node_unary_op (exec n)" and k = "ptr_sum expr_cost p"])
          (use v AstUnaryOp bp(1) IH unary_runs [of p e _ op v bp] in \<open>simp_all add: exec_node_def\<close>)
    next
      case (AstBinOp l op r)
      then obtain bl br where b: "encode_ptr encode l = Inr bl" "encode_ptr encode r = Inr br"
          "bs = be32 (node_code NT_BinaryOp) @ be32 (binary_code op) @ bl @ br"
        using bs by (auto simp: cat_eq_Inr node_bytes_eq word_bytes_def)
      have IH: "l = Some b \<Longrightarrow> expr_runs e b" "r = Some b \<Longrightarrow> expr_runs e b" for b
        using less.IH [of b] AstBinOp by simp_all
      show ?thesis
        by (rule case_runsI [OF b(3), where m = "\<lambda>n. node_binary_op (exec n)"
              and k = "ptr_sum expr_cost l + ptr_sum expr_cost r"])
          (use v AstBinOp b(1,2) IH binary_runs [of l e _ r op v bl br] in \<open>simp_all add: exec_node_def\<close>)
    next
      case (AstCompare l cs)
      then obtain op r where cs: "cs = [(op, r)]" using v by (auto split: list.splits)
      then obtain bl br where b: "encode_ptr encode l = Inr bl" "encode_ptr encode r = Inr br"
          "bs = be32 (node_code NT_Compare) @ bl @ be32 1 @ be32 (compare_code op) @ br"
        using bs AstCompare encode_compare_one by blast
      have IH: "l = Some b \<Longrightarrow> expr_runs e b" "r = Some b \<Longrightarrow> expr_runs e b" for b
        using less.IH [of b] AstCompare cs by simp_all
      show ?thesis
        by (rule case_runsI [OF b(3), where m = "\<lambda>n. node_compare (exec n)"
              and k = "ptr_sum expr_cost l + Suc (ptr_sum expr_cost r)"])
          (use v AstCompare cs b(1,2) IH compare_runs [of l e _ r op v bl br] in \<open>simp_all add: exec_node_def\<close>)
    qed (use v in simp_all)
  qed
qed

section \<open>Properties\<close>

text \<open>
  C11: compiled expressions mean what the source says.  If the meaning \<open>expr_value\<close> of an
  expression over the variables' values is \<open>v\<close>, then \<open>execute_next\<close>, started at the bytecode of
  the expression in a scope that binds those variables, returns (with any fuel above the size of
  the tree) a pointer to an object that holds \<open>v\<close>; it stops right behind the expression, has
  counted one step for each node and each comparison, and has changed nothing but the heap,
  to which it only added.
\<close>

theorem compiled_expressions_run:
  assumes "encode a = Inr bs" and "length bs < 2 ^ 32" and "expr_value e a = Some v" and "size a < n"
    and "get_depth (scopes s) sc \<noteq> 0" and "scope_knows (scopes s) (heap s) sc e"
    and "ahead bs (m_data (ip s))" and "room (expr_cost a) (ip s)"
  shows "\<exists>p h. exec n sc LS_None s =
      (Inr (p, LS_None), s\<lparr>heap := heap s @ h, ip := advance_ip (length bs) (expr_cost a) (ip s)\<rparr>) \<and>
    points_to (heap s @ h) p v"
  using expr_runs [of e a] assms unfolding expr_runs_def in_function_def grown_def quiet_def by blast

text \<open>\<^verbatim>\<open>1 + 2147483647\<close> wraps around.\<close>

theorem compiled_expressions_run_witness:
  "\<exists>s p s'. exec 9 1 LS_None s = (Inr (p, LS_None), s') \<and> points_to (heap s') p (PInt (- 2147483648))"
proof -
  let ?a = "AstBinOp (Some (AstNumber NumInteger 1)) Bin_Add (Some (AstNumber NumInteger 2147483647))"
  let ?bs = "be32 (node_code NT_BinaryOp) @ be32 1 @ be32 (node_code NT_Integer) @ be32 1 @
    be32 (node_code NT_Integer) @ be32 2147483647"
  let ?s = "(demo_vm ?bs 10)\<lparr>scopes := demo_scopes\<rparr>"
  have "\<exists>p h. exec 9 1 LS_None ?s =
      (Inr (p, LS_None), ?s\<lparr>heap := heap ?s @ h, ip := advance_ip (length ?bs) (expr_cost ?a) (ip ?s)\<rparr>) \<and>
    points_to (heap ?s @ h) p (PInt (- 2147483648))"
  proof (rule compiled_expressions_run [where a = ?a and e = Map.empty])
    show "encode ?a = Inr ?bs" by (simp add: node_bytes_eq word_bytes_def encode_ptr_def)
    show "expr_value Map.empty ?a = Some (PInt (- 2147483648))"
      by (simp add: binary_value_def arith_value_def wrap32_def signed_take_bit_int_eq_self_iff)
    show "get_depth (scopes ?s) 1 \<noteq> 0" by (simp add: get_depth_def demo_scopes_def root_scope_def)
    show "ahead ?bs (m_data (ip ?s))"
      by (rule aheadI [where pre = "[]" and post = "[]"]) (simp_all add: demo_vm_def bitstream_of_def)
  qed (simp_all add: scope_knows_def room_def demo_vm_def)
  then obtain p h where run: "exec 9 1 LS_None ?s =
      (Inr (p, LS_None), ?s\<lparr>heap := heap ?s @ h, ip := advance_ip (length ?bs) (expr_cost ?a) (ip ?s)\<rparr>)"
    and val: "points_to (heap ?s @ h) p (PInt (- 2147483648))" by blast
  show ?thesis by (intro exI conjI, rule run) (use val in simp)
qed

end
