(* ===== verification/Source_Statements.thy ===== *)
theory Source_Statements
  imports Compiled_Run
begin

text \<open>
  The source's own meaning of statements, on mathematical values: assignments to names,
  branches, \<open>return\<close>, loops over a condition or a range, \<open>break\<close> and \<open>continue\<close>.  \<open>stmt_exec\<close> is a
  big-step relation; \<open>stmt_value\<close> computes it where there are no loops.
\<close>

section \<open>Effects\<close>

text \<open>
  A statement changes the variables, has a result (the null pointer, Python's None, is \<open>None\<close>),
  goes on, returns or leaves the round of a loop, costs steps, and runs a number of rounds.
\<close>

datatype flow = Next | Done | Jump loop_state

type_synonym effect = "env \<times> pyval option \<times> flow \<times> nat \<times> nat"

definition reserved :: "string \<Rightarrow> bool" where
  "reserved n \<longleftrightarrow> n = ''None'' \<or> builtin_of n \<noteq> None"

fun truth :: "pyval \<Rightarrow> bool" where
  "truth (PBool b) = b"
| "truth (PInt i) = (i \<noteq> 0)"
| "truth (PStr s) = True"

definition skip_costs :: "ast option list \<Rightarrow> nat" where
  "skip_costs ps = sum_list (map (\<lambda>p. Suc (ptr_sum skip_cost p)) ps)"

text \<open>The bounds of a range, cut down to 32 bits, and what it costs to evaluate its arguments.\<close>

definition range_bounds :: "env \<Rightarrow> ast option list \<Rightarrow> (int \<times> int) option" where
  "range_bounds e ps =
     (case map (\<lambda>p. Option.bind p (expr_value e)) ps of
        [Some (PInt b)] \<Rightarrow> Some (0, wrap32 b)
      | [Some (PInt a), Some (PInt b)] \<Rightarrow> Some (wrap32 a, wrap32 b)
      | _ \<Rightarrow> None)"

definition args_cost :: "ast option list \<Rightarrow> nat" where
  "args_cost ps = sum_list (map (\<lambda>p. Suc (ptr_sum expr_cost p)) ps)"

section \<open>The relation\<close>

text \<open>
  What \<open>execute_next\<close> does not reach it skips, so skipped code must be \<open>skippable\<close>.  An \<open>if\<close>
  without \<open>else\<close> tests any value, one with \<open>else\<close> insists on a boolean.  The first argument says
  whether the statement is inside a loop.

  A \<open>break\<close> or \<open>continue\<close> puts the read position back to the statement it is in, so what is skipped
  after it starts with that statement again and ends one before the last.  Behind an \<open>if\<close> with
  \<open>else\<close> it is then the branch itself that is skipped, not the other one.

  Names first assigned in the body of a loop are gone after the round; the loop restricts the
  variables to those there before.  After a \<open>continue\<close> the remaining rounds of a \<open>for\<close> only bind the
  target; a \<open>while\<close> whose condition still holds then never ends, so it has no rule.
\<close>

inductive stmt_exec :: "bool \<Rightarrow> env \<Rightarrow> ast \<Rightarrow> effect \<Rightarrow> bool" and
    stmts_exec :: "bool \<Rightarrow> env \<Rightarrow> pyval option \<Rightarrow> ast option list \<Rightarrow> effect \<Rightarrow> bool" and
    while_exec :: "loop_state \<Rightarrow> env \<Rightarrow> ast option \<Rightarrow> ast option list \<Rightarrow> effect \<Rightarrow> bool" and
    for_exec :: "loop_state \<Rightarrow> env \<Rightarrow> string \<Rightarrow> int \<Rightarrow> int \<Rightarrow> ast option list \<Rightarrow> effect \<Rightarrow> bool" where
  Exec_Return: "Option.bind p (expr_value e) = Some v \<Longrightarrow>
    stmt_exec lp e (AstReturn p) (e, Some v, Done, Suc (ptr_sum expr_cost p), 0)"
| Exec_Expr: "Option.bind p (expr_value e) = Some v \<Longrightarrow>
    stmt_exec lp e (AstExpressionStatement p) (e, Some v, Next, ptr_sum expr_cost p, 0)"
| Exec_Assign: "Option.bind p (expr_value e) = Some v \<Longrightarrow> \<not> reserved (c_str n) \<Longrightarrow>
    stmt_exec lp e (AstAssign [Some (AstName n)] p) (e(c_str n \<mapsto> v), None, Next, Suc (Suc (ptr_sum expr_cost p)), 0)"
| Exec_Pass: "stmt_exec lp e AstPass (e, None, Next, Suc 0, 0)"
| Exec_Break: "stmt_exec True e AstBreak (e, None, Jump LS_Break, Suc 0, 0)"
| Exec_Continue: "stmt_exec True e AstContinue (e, None, Jump LS_Continue, Suc 0, 0)"
| Exec_If: "Option.bind t (expr_value e) = Some v \<Longrightarrow> truth v \<Longrightarrow> stmt_exec lp e b (e', r, f, k, m) \<Longrightarrow>
    stmt_exec lp e (AstIf t (Some b) None) (e', r, f, Suc (ptr_sum expr_cost t + k), m)"
| Exec_If_Not: "Option.bind t (expr_value e) = Some v \<Longrightarrow> \<not> truth v \<Longrightarrow> ptr_ok skippable b \<Longrightarrow>
    stmt_exec lp e (AstIf t b None) (e, None, Next, Suc (ptr_sum expr_cost t + ptr_sum skip_cost b), 0)"
| Exec_Then: "Option.bind t (expr_value e) = Some (PBool True) \<Longrightarrow> stmt_exec lp e b (e', r, f, k, m) \<Longrightarrow>
    y = (case f of Jump j \<Rightarrow> b | _ \<Rightarrow> x) \<Longrightarrow> skippable y \<Longrightarrow>
    stmt_exec lp e (AstIf t (Some b) (Some x)) (e', r, f, Suc (ptr_sum expr_cost t + (k + skip_cost y)), m)"
| Exec_Else: "Option.bind t (expr_value e) = Some (PBool False) \<Longrightarrow> ptr_ok skippable b \<Longrightarrow>
    stmt_exec lp e x (e', r, f, k, m) \<Longrightarrow>
    stmt_exec lp e (AstIf t b (Some x)) (e', r, f, Suc (ptr_sum expr_cost t + (k + ptr_sum skip_cost b)), m)"
| Exec_Suite: "stmts_exec lp e None ps (e', r, f, k, m) \<Longrightarrow> stmt_exec lp e (AstSuite ps) (e', r, f, Suc k, m)"
| Exec_While: "while_exec LS_TopLevel e t ps (e', r, f, k, m) \<Longrightarrow> list_all (ptr_ok skippable) ps \<Longrightarrow>
    stmt_exec lp e (AstWhile t (Some (AstSuite ps))) (e', r, f, Suc (k + skip_costs ps), m)"
| Exec_For: "range_bounds e args = Some (a, b) \<Longrightarrow> c_str g = ''range'' \<Longrightarrow> \<not> reserved (c_str n) \<Longrightarrow>
    for_exec LS_TopLevel e (c_str n) a b ps (e', r, f, k, m) \<Longrightarrow> list_all (ptr_ok skippable) ps \<Longrightarrow>
    stmt_exec lp e (AstFor (Some (AstName n)) (Some (AstCall (Some (AstName g)) args)) (Some (AstSuite ps)))
      (e', r, f, Suc (Suc (Suc (args_cost args)) + k + skip_costs ps), m)"
| Exec_Nil: "stmts_exec lp e r [] (e, r, Next, 0, 0)"
| Exec_Next: "stmt_exec lp e a (e1, r1, Next, k1, m1) \<Longrightarrow> stmts_exec lp e1 r1 ps (e', r', f, k, m) \<Longrightarrow>
    stmts_exec lp e r (Some a # ps) (e', r', f, Suc (k1 + k), m1 + m)"
| Exec_Done: "stmt_exec lp e a (e1, r1, Done, k1, m1) \<Longrightarrow> list_all (ptr_ok skippable) ps \<Longrightarrow>
    stmts_exec lp e r (Some a # ps) (e1, r1, Done, Suc (k1 + skip_costs ps), m1)"
| Exec_Jump: "stmt_exec lp e a (e1, r1, Jump j, k1, m1) \<Longrightarrow> qs = butlast (Some a # ps) \<Longrightarrow>
    list_all (ptr_ok skippable) qs \<Longrightarrow>
    stmts_exec lp e r (Some a # ps) (e1, r1, Jump j, Suc (k1 + skip_costs qs), m1)"
| Exec_While_End: "Option.bind t (expr_value e) = Some v \<Longrightarrow> \<not> truth v \<Longrightarrow>
    while_exec ls e t ps (e, None, Next, Suc (ptr_sum expr_cost t), Suc 0)"
| Exec_While_Next: "Option.bind t (expr_value e) = Some v \<Longrightarrow> truth v \<Longrightarrow>
    stmts_exec True e None ps (e1, r1, f1, k1, m1) \<Longrightarrow> f1 = Next \<and> ls = LS_TopLevel \<or> f1 = Jump LS_Continue \<and> ls = LS_Continue \<Longrightarrow>
    while_exec ls (e1 |` dom e) t ps (e', r, f, k, m) \<Longrightarrow>
    while_exec LS_TopLevel e t ps (e', r, f, Suc (ptr_sum expr_cost t + Suc k1 + k), Suc (m1 + m))"
| Exec_While_Break: "Option.bind t (expr_value e) = Some v \<Longrightarrow> truth v \<Longrightarrow>
    stmts_exec True e None ps (e1, r1, Jump LS_Break, k1, m1) \<Longrightarrow>
    while_exec LS_TopLevel e t ps (e1 |` dom e, None, Next, Suc (ptr_sum expr_cost t + Suc k1), Suc (Suc m1))"
| Exec_While_Done: "Option.bind t (expr_value e) = Some v \<Longrightarrow> truth v \<Longrightarrow>
    stmts_exec True e None ps (e1, r1, Done, k1, m1) \<Longrightarrow>
    while_exec LS_TopLevel e t ps (e1 |` dom e, r1, Done, Suc (ptr_sum expr_cost t + Suc k1), Suc (Suc m1))"
| Exec_For_End: "b \<le> a \<Longrightarrow> for_exec ls e n a b ps (e, None, Next, Suc 0, Suc 0)"
| Exec_For_Next: "a < b \<Longrightarrow> stmts_exec True (e(n \<mapsto> PInt a)) None ps (e1, r1, f1, k1, m1) \<Longrightarrow>
    f1 = Next \<and> ls = LS_TopLevel \<or> f1 = Jump LS_Continue \<and> ls = LS_Continue \<Longrightarrow>
    for_exec ls (e1 |` dom e) n (a + 1) b ps (e', r, f, k, m) \<Longrightarrow>
    for_exec LS_TopLevel e n a b ps (e', r, f, Suc (Suc k1 + k), Suc (m1 + m))"
| Exec_For_Idle: "a < b \<Longrightarrow> list_all (ptr_ok skippable) ps \<Longrightarrow>
    for_exec LS_Continue ((e(n \<mapsto> PInt a)) |` dom e) n (a + 1) b ps (e', r, f, k, m) \<Longrightarrow>
    for_exec LS_Continue e n a b ps (e', r, f, Suc (Suc (skip_costs ps) + k), Suc m)"
| Exec_For_Break: "a < b \<Longrightarrow> stmts_exec True (e(n \<mapsto> PInt a)) None ps (e1, r1, Jump LS_Break, k1, m1) \<Longrightarrow>
    for_exec LS_TopLevel e n a b ps (e1 |` dom e, None, Next, Suc (Suc k1), Suc (Suc m1))"
| Exec_For_Done: "a < b \<Longrightarrow> stmts_exec True (e(n \<mapsto> PInt a)) None ps (e1, r1, Done, k1, m1) \<Longrightarrow>
    for_exec LS_TopLevel e n a b ps (e1 |` dom e, r1, Done, Suc (Suc k1), Suc (Suc m1))"

lemmas exec_intros = stmt_exec_stmts_exec_while_exec_for_exec.intros

lemmas exec_induct = stmt_exec_stmts_exec_while_exec_for_exec.inducts

text \<open>How deep its loops are nested; each level takes a scope.\<close>

fun loop_depth :: "ast \<Rightarrow> nat" where
  "loop_depth (AstIf t b els) = max (ptr_sum loop_depth b) (ptr_sum loop_depth els)"
| "loop_depth (AstSuite ps) = foldr (\<lambda>p. max (ptr_sum loop_depth p)) ps 0"
| "loop_depth (AstWhile t b) = Suc (ptr_sum loop_depth b)"
| "loop_depth (AstFor x i b) = Suc (ptr_sum loop_depth b)"
| "loop_depth a = 0"

section \<open>Computing it\<close>

text \<open>The same as a function; the fuel bounds the depth of its recursion.\<close>

definition cost_more :: "nat \<Rightarrow> effect \<Rightarrow> effect" where
  "cost_more j = (\<lambda>(e, r, f, k, m). (e, r, f, j + k, m))"

definition round_more :: "nat \<Rightarrow> nat \<Rightarrow> effect \<Rightarrow> effect" where
  "round_more j i = (\<lambda>(e, r, f, k, m). (e, r, f, j + k, i + m))"

text \<open>What follows the body of a round; \<open>j\<close> is the cost of the head, \<open>again\<close> runs the other rounds.\<close>

definition round_value :: "nat \<Rightarrow> env \<Rightarrow> (loop_state \<Rightarrow> env \<Rightarrow> effect option) \<Rightarrow> effect \<Rightarrow> effect option" where
  "round_value j e again = (\<lambda>(e1, r1, f1, k1, m1).
     case f1 of
       Next \<Rightarrow> map_option (round_more (j + Suc k1) (Suc m1)) (again LS_TopLevel (e1 |` dom e))
     | Done \<Rightarrow> Some (e1 |` dom e, r1, Done, j + Suc k1, Suc (Suc m1))
     | Jump l \<Rightarrow>
         if l = LS_Break then Some (e1 |` dom e, None, Next, j + Suc k1, Suc (Suc m1))
         else if l = LS_Continue
         then map_option (round_more (j + Suc k1) (Suc m1)) (again LS_Continue (e1 |` dom e))
         else None)"

type_synonym stmt_rec = "bool \<Rightarrow> env \<Rightarrow> ast \<Rightarrow> effect option"

type_synonym list_rec = "bool \<Rightarrow> env \<Rightarrow> pyval option \<Rightarrow> ast option list \<Rightarrow> effect option"

type_synonym while_rec = "ast option \<Rightarrow> ast option list \<Rightarrow> loop_state \<Rightarrow> env \<Rightarrow> effect option"

type_synonym for_rec = "string \<Rightarrow> int \<Rightarrow> int \<Rightarrow> ast option list \<Rightarrow> loop_state \<Rightarrow> env \<Rightarrow> effect option"

definition stmt_step :: "stmt_rec \<Rightarrow> list_rec \<Rightarrow> while_rec \<Rightarrow> for_rec \<Rightarrow> stmt_rec" where
  "stmt_step rec on_list on_while on_for lp e a =
     (case a of
        AstReturn p \<Rightarrow>
          map_option (\<lambda>v. (e, Some v, Done, Suc (ptr_sum expr_cost p), 0)) (Option.bind p (expr_value e))
      | AstExpressionStatement p \<Rightarrow>
          map_option (\<lambda>v. (e, Some v, Next, ptr_sum expr_cost p, 0)) (Option.bind p (expr_value e))
      | AstAssign [Some (AstName m)] p \<Rightarrow>
          if reserved (c_str m) then None
          else map_option (\<lambda>v. (e(c_str m \<mapsto> v), None, Next, Suc (Suc (ptr_sum expr_cost p)), 0))
                 (Option.bind p (expr_value e))
      | AstPass \<Rightarrow> Some (e, None, Next, 1, 0)
      | AstBreak \<Rightarrow> if lp then Some (e, None, Jump LS_Break, 1, 0) else None
      | AstContinue \<Rightarrow> if lp then Some (e, None, Jump LS_Continue, 1, 0) else None
      | AstIf t b None \<Rightarrow>
          Option.bind (Option.bind t (expr_value e)) (\<lambda>v.
            if truth v then map_option (cost_more (Suc (ptr_sum expr_cost t))) (Option.bind b (rec lp e))
            else if ptr_ok skippable b
            then Some (e, None, Next, Suc (ptr_sum expr_cost t + ptr_sum skip_cost b), 0)
            else None)
      | AstIf t (Some b) (Some x) \<Rightarrow>
          Option.bind (Option.bind t (expr_value e)) (\<lambda>v.
            if v = PBool True then
              Option.bind (rec lp e b) (\<lambda>(e', r, f, k, m).
                let y = (case f of Jump j \<Rightarrow> b | _ \<Rightarrow> x)
                in if skippable y then Some (e', r, f, Suc (ptr_sum expr_cost t + (k + skip_cost y)), m) else None)
            else if v = PBool False \<and> skippable b
            then map_option (cost_more (Suc (ptr_sum expr_cost t + skip_cost b))) (rec lp e x)
            else None)
      | AstSuite ps \<Rightarrow> map_option (cost_more 1) (on_list lp e None ps)
      | AstWhile t (Some (AstSuite ps)) \<Rightarrow>
          if list_all (ptr_ok skippable) ps
          then map_option (cost_more (Suc (skip_costs ps))) (on_while t ps LS_TopLevel e) else None
      | AstFor (Some (AstName m)) (Some (AstCall (Some (AstName g)) args)) (Some (AstSuite ps)) \<Rightarrow>
          if c_str g = ''range'' \<and> \<not> reserved (c_str m) \<and> list_all (ptr_ok skippable) ps
          then Option.bind (range_bounds e args) (\<lambda>(i, j).
            map_option (cost_more (Suc (Suc (Suc (args_cost args)) + skip_costs ps))) (on_for (c_str m) i j ps LS_TopLevel e))
          else None
      | _ \<Rightarrow> None)"

definition stmts_step :: "stmt_rec \<Rightarrow> list_rec \<Rightarrow> list_rec" where
  "stmts_step rec on_list lp e r ps =
     (case ps of
        [] \<Rightarrow> Some (e, r, Next, 0, 0)
      | p # qs \<Rightarrow>
          Option.bind (Option.bind p (rec lp e)) (\<lambda>(e', r', f, k, m).
            case f of
              Next \<Rightarrow> map_option (round_more (Suc k) m) (on_list lp e' r' qs)
            | Done \<Rightarrow> if list_all (ptr_ok skippable) qs then Some (e', r', Done, Suc (k + skip_costs qs), m) else None
            | Jump j \<Rightarrow>
                if list_all (ptr_ok skippable) (butlast ps)
                then Some (e', r', Jump j, Suc (k + skip_costs (butlast ps)), m) else None))"

definition while_round_value :: "list_rec \<Rightarrow> while_rec \<Rightarrow> while_rec" where
  "while_round_value on_list on_while t ps ls e =
     Option.bind (Option.bind t (expr_value e)) (\<lambda>v.
       if \<not> truth v then Some (e, None, Next, Suc (ptr_sum expr_cost t), 1)
       else if ls = LS_TopLevel
       then Option.bind (on_list True e None ps) (round_value (Suc (ptr_sum expr_cost t)) e (on_while t ps))
       else None)"

definition for_round_value :: "list_rec \<Rightarrow> for_rec \<Rightarrow> for_rec" where
  "for_round_value on_list on_for m i j ps ls e =
     (if j \<le> i then Some (e, None, Next, 1, 1)
      else if ls = LS_TopLevel
      then Option.bind (on_list True (e(m \<mapsto> PInt i)) None ps) (round_value 1 e (on_for m (i + 1) j ps))
      else if ls = LS_Continue \<and> list_all (ptr_ok skippable) ps
      then map_option (round_more (Suc (Suc (skip_costs ps))) 1) (on_for m (i + 1) j ps LS_Continue ((e(m \<mapsto> PInt i)) |` dom e))
      else None)"

fun stmt_value :: "nat \<Rightarrow> stmt_rec" and stmts_value :: "nat \<Rightarrow> list_rec" and
    while_value :: "nat \<Rightarrow> while_rec" and for_value :: "nat \<Rightarrow> for_rec" where
  "stmt_value 0 = (\<lambda>lp e a. None)"
| "stmt_value (Suc n) = stmt_step (stmt_value n) (stmts_value n) (while_value n) (for_value n)"
| "stmts_value 0 = (\<lambda>lp e r ps. None)"
| "stmts_value (Suc n) = stmts_step (stmt_value n) (stmts_value n)"
| "while_value 0 = (\<lambda>t ps ls e. None)"
| "while_value (Suc n) = while_round_value (stmts_value n) (while_value n)"
| "for_value 0 = (\<lambda>m i j ps ls e. None)"
| "for_value (Suc n) = for_round_value (stmts_value n) (for_value n)"

lemmas value_steps = stmt_step_def stmts_step_def while_round_value_def for_round_value_def

lemma stmt_exec_cost: "stmt_exec lp e a (e', r, f, j, m) \<Longrightarrow> j = k \<Longrightarrow> stmt_exec lp e a (e', r, f, k, m)"
  by simp

text \<open>A round of a loop, from the value of its body and of the other rounds.\<close>

lemma round_value_cases:
  assumes "round_value j e again (e1, r1, f1, k1, m1) = Some w"
  obtains (more) ls e' r f k m where "f1 = Next \<and> ls = LS_TopLevel \<or> f1 = Jump LS_Continue \<and> ls = LS_Continue"
      and "again ls (e1 |` dom e) = Some (e', r, f, k, m)" and "w = (e', r, f, j + Suc k1 + k, Suc (m1 + m))"
  | (last) "f1 = Done" and "w = (e1 |` dom e, r1, Done, j + Suc k1, Suc (Suc m1))"
  | (left) "f1 = Jump LS_Break" and "w = (e1 |` dom e, None, Next, j + Suc k1, Suc (Suc m1))"
  using assms
  by (auto simp: round_value_def round_more_def split: flow.splits if_splits)

text \<open>What it computes is what the relation says.\<close>

lemma value_exec:
  "(\<forall>lp e a w. stmt_value n lp e a = Some w \<longrightarrow> stmt_exec lp e a w) \<and>
   (\<forall>lp e r ps w. stmts_value n lp e r ps = Some w \<longrightarrow> stmts_exec lp e r ps w) \<and>
   (\<forall>t ps ls e w. while_value n t ps ls e = Some w \<longrightarrow> while_exec ls e t ps w) \<and>
   (\<forall>m i j ps ls e w. for_value n m i j ps ls e = Some w \<longrightarrow> for_exec ls e m i j ps w)"
proof (induction n)
  case (Suc n)
  have stmt: "stmt_exec lp e a w" if "stmt_value n lp e a = Some w" for lp e a w
    using Suc.IH [THEN conjunct1] that by (cases w) simp
  have stmts: "stmts_exec lp e r ps w" if "stmts_value n lp e r ps = Some w" for lp e r ps w
    using Suc.IH [THEN conjunct2, THEN conjunct1] that by (cases w) simp
  have loop: "while_exec ls e t ps w" if "while_value n t ps ls e = Some w" for t ps ls e w
    using Suc.IH [THEN conjunct2, THEN conjunct2, THEN conjunct1] that by (cases w) simp
  have range: "for_exec ls e m i j ps w" if "for_value n m i j ps ls e = Some w" for m i j ps ls e w
    using Suc.IH [THEN conjunct2, THEN conjunct2, THEN conjunct2] that by (cases w) simp
  show ?case
  proof (intro conjI allI impI)
    fix lp e a w assume "stmt_value (Suc n) lp e a = Some w"
    note w = this [unfolded stmt_value.simps stmt_step_def]
    show "stmt_exec lp e a w"
    proof (cases a)
      case (AstAssign ts p)
      then show ?thesis using w by (auto split: list.splits option.splits ast.splits if_splits intro: exec_intros)
    next
      case (AstIf t b els)
      then obtain v where v: "Option.bind t (expr_value e) = Some v"
        using w by (cases els; cases b) (auto simp: bind_eq_Some_conv)
      show ?thesis
      proof (cases els)
        case None
        then show ?thesis
          using w v AstIf Exec_If_Not [OF v, of b lp]
          by (cases b) (auto simp: cost_more_def split: if_splits dest!: stmt intro: Exec_If stmt_exec_cost)
      next
        case (Some x)
        then obtain b' where b: "b = Some b'" using w AstIf by (cases b) auto
        show ?thesis
        proof (cases "v = PBool True")
          case True
          then obtain e' r f k m where c: "stmt_value n lp e b' = Some (e', r, f, k, m)"
              and y: "skippable (case f of Jump j \<Rightarrow> b' | _ \<Rightarrow> x)"
              and r: "w = (e', r, f, Suc (ptr_sum expr_cost t + (k + skip_cost (case f of Jump j \<Rightarrow> b' | _ \<Rightarrow> x))), m)"
            using w v AstIf Some b by (cases "stmt_value n lp e b'") (auto simp: Let_def split: if_splits)
          show ?thesis
            unfolding AstIf Some b r by (rule Exec_Then [OF _ stmt [OF c] refl y]) (use v True in simp)
        next
          case False
          then obtain e' r f k m where c: "v = PBool False" "skippable b'" "stmt_value n lp e x = Some (e', r, f, k, m)"
              and r: "w = (e', r, f, Suc (ptr_sum expr_cost t + skip_cost b' + k), m)"
            using w v AstIf Some b by (cases "stmt_value n lp e x") (auto simp: cost_more_def split: if_splits)
          have "stmt_exec lp e (AstIf t (Some b') (Some x)) (e', r, f, Suc (ptr_sum expr_cost t + (k + ptr_sum skip_cost (Some b'))), m)"
            by (rule Exec_Else [OF _ _ stmt [OF c(3)]]) (use v c(1,2) in simp_all)
          then show ?thesis by (simp add: AstIf Some b r ac_simps)
        qed
      qed
    next
      case (AstWhile t b)
      then show ?thesis
        using w by (auto simp: cost_more_def ac_simps split: option.splits ast.splits if_splits dest!: loop
            intro: Exec_While stmt_exec_cost)
    next
      case (AstFor x it b)
      then show ?thesis
        using w by (auto simp: cost_more_def bind_eq_Some_conv split: option.splits ast.splits if_splits dest!: range
            intro: Exec_For stmt_exec_cost)
    qed (use w in \<open>auto simp: cost_more_def split: if_splits dest!: stmts intro: exec_intros\<close>)
  next
    fix lp e r ps w assume "stmts_value (Suc n) lp e r ps = Some w"
    note w = this [unfolded stmts_value.simps stmts_step_def]
    show "stmts_exec lp e r ps w"
    proof (cases ps)
      case Nil
      then show ?thesis using w by (auto intro: Exec_Nil)
    next
      case (Cons p qs)
      then obtain a e1 r1 f1 k1 m1 where p: "p = Some a" and one: "stmt_value n lp e a = Some (e1, r1, f1, k1, m1)"
        using w by (auto simp: bind_eq_Some_conv)
      note a = stmt [OF one]
      show ?thesis
      proof (cases f1)
        case Next
        then show ?thesis
          using w Cons p one a by (auto simp: round_more_def dest!: stmts intro: Exec_Next)
      next
        case Done
        then show ?thesis using w Cons p one a by (auto split: if_splits intro: Exec_Done)
      next
        case (Jump j)
        then have "list_all (ptr_ok skippable) (butlast (Some a # qs))"
            "w = (e1, r1, Jump j, Suc (k1 + skip_costs (butlast (Some a # qs))), m1)"
          using w Cons p one by (auto split: if_splits)
        then show ?thesis using Exec_Jump [OF a [unfolded Jump] refl] Cons p by simp
      qed
    qed
  next
    fix t ps ls e w assume "while_value (Suc n) t ps ls e = Some w"
    note w = this [unfolded while_value.simps while_round_value_def]
    then obtain v where v: "Option.bind t (expr_value e) = Some v" by (auto simp: bind_eq_Some_conv)
    show "while_exec ls e t ps w"
    proof (cases "truth v")
      case False
      then show ?thesis using w v Exec_While_End by auto
    next
      case True
      obtain e1 r1 f1 k1 m1 where "ls = LS_TopLevel" and body: "stmts_value n True e None ps = Some (e1, r1, f1, k1, m1)"
          and round: "round_value (Suc (ptr_sum expr_cost t)) e (while_value n t ps) (e1, r1, f1, k1, m1) = Some w"
        using w v True by (auto simp: bind_eq_Some_conv split: if_splits)
      note b = stmts [OF body]
      from round show ?thesis
      proof (cases rule: round_value_cases)
        case (more l e' r f k m)
        then show ?thesis using Exec_While_Next [OF v True b more(1) loop [OF more(2)]] \<open>ls = LS_TopLevel\<close> by simp
      next
        case last
        then show ?thesis using Exec_While_Done [OF v True] b \<open>ls = LS_TopLevel\<close> by simp
      next
        case left
        then show ?thesis using Exec_While_Break [OF v True] b \<open>ls = LS_TopLevel\<close> by simp
      qed
    qed
  next
    fix m i j ps ls e w assume "for_value (Suc n) m i j ps ls e = Some w"
    note w = this [unfolded for_value.simps for_round_value_def]
    show "for_exec ls e m i j ps w"
    proof (cases "i < j \<and> ls = LS_TopLevel")
      case False
      show ?thesis
      proof (cases "j \<le> i")
        case True
        then show ?thesis using w by (auto intro: Exec_For_End)
      next
        case False
        then obtain e' r f k c where "ls = LS_Continue" "list_all (ptr_ok skippable) ps"
            "for_value n m (i + 1) j ps LS_Continue ((e(m \<mapsto> PInt i)) |` dom e) = Some (e', r, f, k, c)"
            "w = (e', r, f, Suc (Suc (skip_costs ps) + k), Suc c)"
          using w \<open>\<not> (i < j \<and> ls = LS_TopLevel)\<close>
          by (auto simp: round_more_def simp del: restrict_fun_upd fun_upd_apply split: if_splits)
        then show ?thesis using False Exec_For_Idle [OF _ _ range] by simp
      qed
    next
      case True
      obtain e1 r1 f1 k1 m1 where body: "stmts_value n True (e(m \<mapsto> PInt i)) None ps = Some (e1, r1, f1, k1, m1)"
          and round: "round_value 1 e (for_value n m (i + 1) j ps) (e1, r1, f1, k1, m1) = Some w"
        using w True by (auto simp: bind_eq_Some_conv split: if_splits)
      note b = stmts [OF body]
      from round show ?thesis
      proof (cases rule: round_value_cases)
        case (more l e' r f k c)
        then show ?thesis using Exec_For_Next [OF _ b more(1) range [OF more(2)]] True by simp
      next
        case last
        then show ?thesis using Exec_For_Done [of i j e m ps] b True by simp
      next
        case left
        then show ?thesis using Exec_For_Break [of i j e m ps] b True by simp
      qed
    qed
  qed
qed simp

end
