(* ===== verification/Block_Scopes.thy ===== *)
theory Block_Scopes
  imports Scopes
begin

text \<open>
  The scopes inside one call.  The function's own scope \<open>base\<close> keeps assignments to itself, and the
  bodies of its loops are scopes below it that hand an assignment on to the nearest scope that
  binds the name.  While no body hides a name of a scope around it, assignment and lookup inside
  a body are those of one environment.
\<close>

section \<open>What a lookup depends on\<close>

lemma has_value_cong: "(\<And>j. j \<le> i \<Longrightarrow> ss' ! j = ss ! j) \<Longrightarrow> has_value ss' i n = has_value ss i n"
proof (induction ss i n rule: has_value.induct)
  case (1 ss i n)
  then show ?case
    by (subst (1 2) has_value.simps) (auto split: option.split)
qed

lemma find_value_cong: "(\<And>j. j \<le> i \<Longrightarrow> ss' ! j = ss ! j) \<Longrightarrow> find_value ss' i n = find_value ss i n"
proof (induction ss i n rule: find_value.induct)
  case (1 ss i n)
  then show ?case
    by (subst (1 2) find_value.simps) (auto split: option.split)
qed

lemma find_value_bound: "find_value ss i n = Inr v \<Longrightarrow> has_value ss i n"
proof (induction ss i n rule: find_value.induct)
  case (1 ss i n)
  from 1(2) show ?case
    by (subst (asm) find_value.simps, subst has_value.simps)
      (auto split: option.splits if_splits intro: 1(1))
qed

text \<open>A binding stays when scopes only gain bindings.\<close>

lemma has_value_mono:
  assumes "same_shape ss ss'" and "i < length ss"
    and "\<And>j. j < length ss \<Longrightarrow> m_values (ss ! j) n \<noteq> None \<Longrightarrow> m_values (ss' ! j) n \<noteq> None"
    and "has_value ss i n"
  shows "has_value ss' i n"
  using assms(2,4)
proof (induction i rule: less_induct)
  case (less i)
  from less(3) show ?case
    by (subst (asm) has_value.simps, subst has_value.simps)
      (use less assms(3) [of i] same_shape_nth [OF assms(1), of i] in \<open>auto split: option.splits if_splits\<close>)
qed

section \<open>The scopes of a call\<close>

inductive block_scope :: "scopes \<Rightarrow> nat \<Rightarrow> nat \<Rightarrow> bool" for ss base where
  own: "m_require_global (ss ! base) \<Longrightarrow> m_global_tags (ss ! base) = {} \<Longrightarrow> block_scope ss base base"
| inner: "m_parent (ss ! sc) = Some p \<Longrightarrow> p < sc \<Longrightarrow> \<not> m_require_global (ss ! sc) \<Longrightarrow>
    \<forall>n. m_values (ss ! sc) n \<noteq> None \<longrightarrow> \<not> has_value ss p n \<Longrightarrow> block_scope ss base p \<Longrightarrow> block_scope ss base sc"

lemma block_scope_ge: "block_scope ss base sc \<Longrightarrow> base \<le> sc"
  by (induction rule: block_scope.induct) simp_all

lemma block_scope_cong:
  "block_scope ss base sc \<Longrightarrow> (\<And>j. j \<le> sc \<Longrightarrow> ss' ! j = ss ! j) \<Longrightarrow> block_scope ss' base sc"
proof (induction rule: block_scope.induct)
  case own
  then show ?case by (metis block_scope.own order_refl)
next
  case (inner sc p)
  have at: "ss' ! sc = ss ! sc" and below: "ss' ! j = ss ! j" if "j \<le> p" for j
    using inner.prems inner.hyps(2) that by simp_all
  have "has_value ss' p n = has_value ss p n" for n by (rule has_value_cong) (rule below)
  then show ?case
    using inner.hyps inner.IH [OF below] at [OF order_refl] by (metis block_scope.inner)
qed

text \<open>An assignment inside a call: what it leaves of the scopes, and what the scope then knows.\<close>

definition assigns :: "scopes \<Rightarrow> nat \<Rightarrow> nat \<Rightarrow> string \<Rightarrow> valueptr \<Rightarrow> nat \<Rightarrow> bool" where
  "assigns ss base sc n v t \<longleftrightarrow>
     base \<le> t \<and> t \<le> sc \<and> set_value ss sc n v = put_value ss t n v \<and> block_scope (put_value ss t n v) base sc \<and>
     (\<forall>m. find_value (put_value ss t n v) sc m = (if m = n then Inr v else find_value ss sc m)) \<and>
     (\<forall>m. has_value (put_value ss t n v) sc m \<longleftrightarrow> m = n \<or> has_value ss sc m)"

lemma put_value_find:
  assumes "i < length ss"
  shows "find_value (put_value ss i n v) i m = (if m = n then Inr v else find_value ss i m)"
proof -
  have "find_value (put_value ss i n v) p m = find_value ss p m" if "p < i" for p
    using that by (intro find_value_cong) simp
  then show ?thesis
    using assms by (subst (1 2) find_value.simps) (auto split: option.split)
qed

lemma put_value_has:
  assumes "i < length ss"
  shows "has_value (put_value ss i n v) i m \<longleftrightarrow> m = n \<or> has_value ss i m"
proof -
  have "has_value (put_value ss i n v) p m = has_value ss p m" if "p < i" for p
    using that by (intro has_value_cong) simp
  then show ?thesis
    using assms by (subst (1 2) has_value.simps) (auto split: option.split)
qed

lemma block_scope_assigns:
  assumes "block_scope ss base sc" and "sc < length ss"
  shows "\<exists>t. assigns ss base sc n v t"
  using assms
proof (induction rule: block_scope.induct)
  case own
  then have "assigns ss base base n v base"
    by (auto simp: assigns_def set_value_local put_value_find put_value_has intro: block_scope.own)
  then show ?case ..
next
  case (inner sc p)
  show ?case
  proof (cases "has_value ss p n")
    case True
    obtain t where t: "assigns ss base p n v t" using inner by auto
    then have "t < sc" using inner(2) by (simp add: assigns_def)
    then have at: "put_value ss t n v ! sc = ss ! sc" by simp
    have hides: "m_values (ss ! sc) n = None" using inner(4) True by blast
    have "block_scope (put_value ss t n v) base sc"
      by (rule block_scope.inner [of _ _ p]) (use t inner at hides in \<open>auto simp: assigns_def\<close>)
    moreover have "set_value ss sc n v = put_value ss t n v"
      using inner(1-3) True t by (subst set_value.simps) (simp add: assigns_def)
    moreover have "find_value (put_value ss t n v) sc m = (if m = n then Inr v else find_value ss sc m)" for m
      using inner(1,2) hides t at
      by (subst (1 2) find_value.simps) (auto simp: assigns_def split: option.split)
    moreover have "has_value (put_value ss t n v) sc m \<longleftrightarrow> m = n \<or> has_value ss sc m" for m
      using inner(1,2) t at by (subst (1 2) has_value.simps) (auto simp: assigns_def)
    ultimately have "assigns ss base sc n v t"
      using t \<open>t < sc\<close> by (simp add: assigns_def)
    then show ?thesis ..
  next
    case False
    have "set_value ss sc n v = put_value ss sc n v"
      using inner(1-3) False by (subst set_value.simps) simp
    moreover have "block_scope (put_value ss sc n v) base sc"
    proof (rule block_scope.inner [of _ _ p])
      have same: "put_value ss sc n v ! j = ss ! j" if "j \<le> p" for j using that inner(2) by simp
      show "block_scope (put_value ss sc n v) base p" using inner(5) same by (rule block_scope_cong)
      have "has_value (put_value ss sc n v) p m = has_value ss p m" for m using same by (rule has_value_cong)
      then show "\<forall>m. m_values (put_value ss sc n v ! sc) m \<noteq> None \<longrightarrow> \<not> has_value (put_value ss sc n v) p m"
        using inner(4,6) False inner(7) by auto
    qed (use inner in simp_all)
    ultimately have "assigns ss base sc n v sc"
      using inner(7) block_scope_ge [OF inner(5)] inner(2)
      by (simp add: assigns_def put_value_find put_value_has)
    then show ?thesis ..
  qed
qed

text \<open>Marking a scope as returned changes no lookup.\<close>

lemma terminate_fields [simp]:
  "m_values (terminate ss i ! j) = m_values (ss ! j)" "m_parent (terminate ss i ! j) = m_parent (ss ! j)"
  "m_require_global (terminate ss i ! j) = m_require_global (ss ! j)"
  "m_global_tags (terminate ss i ! j) = m_global_tags (ss ! j)" "depth (terminate ss i ! j) = depth (ss ! j)"
  by (cases "i < length ss"; cases "j = i"; simp add: terminate_def list_update_beyond)+

lemma length_terminate [simp]: "length (terminate ss i) = length ss"
  by (simp add: terminate_def)

lemma has_value_terminate [simp]: "has_value (terminate ss i) j n = has_value ss j n"
proof (induction j rule: less_induct)
  case (less j)
  then show ?case by (subst (1 2) has_value.simps) (simp split: option.split)
qed

lemma find_value_terminate [simp]: "find_value (terminate ss i) j n = find_value ss j n"
proof (induction j rule: less_induct)
  case (less j)
  then show ?case by (subst (1 2) find_value.simps) (simp split: option.split)
qed

lemma block_scope_terminate: "block_scope ss base sc \<Longrightarrow> block_scope (terminate ss i) base sc"
proof (induction rule: block_scope.induct)
  case own
  then show ?case by (intro block_scope.own) simp_all
next
  case (inner sc p)
  show ?case by (rule block_scope.inner [of _ _ p]) (use inner in simp_all)
qed

section \<open>What statements do to the scopes\<close>

text \<open>
  Nothing changes below the function's scope, scopes keep their place and their bindings, and
  only the scope that runs may be marked as returned.
\<close>

definition scopes_step :: "nat \<Rightarrow> nat \<Rightarrow> scopes \<Rightarrow> scopes \<Rightarrow> bool" where
  "scopes_step base sc ss ss' \<longleftrightarrow>
     same_shape ss ss' \<and> (\<forall>j < base. ss' ! j = ss ! j) \<and>
     (\<forall>j < length ss. (j \<noteq> sc \<longrightarrow> m_terminated (ss' ! j) = m_terminated (ss ! j)) \<and>
        (\<forall>n. m_values (ss ! j) n \<noteq> None \<longrightarrow> m_values (ss' ! j) n \<noteq> None))"

lemma scopes_step_refl [simp]: "scopes_step base sc ss ss"
  by (simp add: scopes_step_def)

lemma scopes_step_trans:
  assumes "scopes_step base sc ss ts" and "scopes_step base sc ts us"
  shows "scopes_step base sc ss us"
proof -
  have "length ts = length ss" using assms(1) by (simp add: scopes_step_def same_shape_length)
  then show ?thesis using assms unfolding scopes_step_def by (auto intro: same_shape_trans)
qed

lemma scopes_step_put:
  assumes "base \<le> t" and "t < length ss"
  shows "scopes_step base sc ss (put_value ss t n v)"
  unfolding scopes_step_def
proof (intro conjI allI impI)
  fix j assume "j < length ss"
  then show "m_terminated (put_value ss t n v ! j) = m_terminated (ss ! j)" using assms by (cases "j = t") auto
  fix m assume "m_values (ss ! j) m \<noteq> None"
  then show "m_values (put_value ss t n v ! j) m \<noteq> None" using assms by (cases "j = t") auto
qed (use assms in \<open>auto simp: shape_put_value\<close>)

lemma scopes_step_terminate:
  assumes "base \<le> sc" and "sc < length ss"
  shows "scopes_step base sc ss (terminate ss sc)"
  using assms by (auto simp: scopes_step_def terminate_def nth_list_update intro: same_shape_update)

text \<open>A block: its scope is pushed, its statements run, and it is dropped.\<close>

lemma map_snoc_take: "map f (xs @ [x]) = map f ys \<Longrightarrow> map f xs = map f (take (length xs) ys)"
  by (drule arg_cong [where f = "take (length xs)"]) (simp add: take_map)

lemma same_shape_block: "same_shape (ss @ [x]) ss' \<Longrightarrow> same_shape ss (take (length ss) ss')"
  unfolding same_shape_def by (intro conjI map_snoc_take) blast+

lemma scopes_step_block:
  assumes "scopes_step base (length ss) (ss @ [x]) ss'" and "base \<le> length ss"
  shows "scopes_step base sc ss (take (length ss) ss')"
  unfolding scopes_step_def
proof (intro conjI allI impI)
  show "same_shape ss (take (length ss) ss')"
    using assms(1) by (intro same_shape_block [of _ x]) (simp add: scopes_step_def)
  fix j assume "j < base"
  then show "take (length ss) ss' ! j = ss ! j" using assms by (simp add: scopes_step_def nth_append)
next
  fix j assume j: "j < length ss"
  then have at: "(ss @ [x]) ! j = ss ! j" "take (length ss) ss' ! j = ss' ! j" "j < length (ss @ [x])" "j \<noteq> length ss"
    by (simp_all add: nth_append)
  then show "m_terminated (take (length ss) ss' ! j) = m_terminated (ss ! j)"
    using assms(1) unfolding scopes_step_def by metis
  fix n assume "m_values (ss ! j) n \<noteq> None"
  then show "m_values (take (length ss) ss' ! j) n \<noteq> None"
    using assms(1) at unfolding scopes_step_def by metis
qed

text \<open>The scope of a block, new and when it is dropped.\<close>

lemma block_scope_push:
  assumes "block_scope ss base sc" and "sc < length ss"
    and "m_parent x = Some sc" and "\<not> m_require_global x" and "m_values x = Map.empty"
  shows "block_scope (ss @ [x]) base (length ss)"
    and "find_value (ss @ [x]) (length ss) n = find_value ss sc n"
proof -
  have same: "(ss @ [x]) ! j = ss ! j" if "j \<le> sc" for j using that assms(2) by (simp add: nth_append)
  show "block_scope (ss @ [x]) base (length ss)"
    by (rule block_scope.inner [OF _ _ _ _ block_scope_cong [OF assms(1) same]]) (use assms(2-5) in simp_all)
  show "find_value (ss @ [x]) (length ss) n = find_value ss sc n"
    using find_value_cong [of sc "ss @ [x]" ss n] same assms(2,3,5) by (subst find_value.simps) simp
qed

lemma block_scope_pop:
  assumes "block_scope ss base b" and "b = length (take b ss)" and "base < b" and "m_parent (ss ! b) = Some sc"
  shows "block_scope (take b ss) base sc"
    and "has_value ss sc n \<Longrightarrow> find_value (take b ss) sc n = find_value ss b n"
proof -
  obtain p where p: "m_parent (ss ! b) = Some p" "p < b" "block_scope ss base p"
      "\<forall>n. m_values (ss ! b) n \<noteq> None \<longrightarrow> \<not> has_value ss p n"
    using assms(1,3) by (cases rule: block_scope.cases) auto
  then have sc: "sc = p" using assms(4) by simp
  have same: "take b ss ! j = ss ! j" if "j \<le> p" for j using that p(2) by simp
  show "block_scope (take b ss) base sc" unfolding sc using p(3) same by (rule block_scope_cong)
  assume "has_value ss sc n"
  then have "m_values (ss ! b) n = None" using p(4) sc by blast
  then have "find_value ss b n = find_value ss p n"
    using p(1,2) by (subst find_value.simps) simp
  also have "\<dots> = find_value (take b ss) p n" using find_value_cong [of p "take b ss" ss n] same by simp
  finally show "find_value (take b ss) sc n = find_value ss b n" using sc by simp
qed

end
