(* ===== verification/Compiled_Statements.thy ===== *)
theory Compiled_Statements
  imports Source_Statements Block_Scopes
begin

text \<open>
  Running compiled statements: on the bytecode the compiler makes of a statement, the
  interpreter does what \<open>stmt_exec\<close> says of the source, and takes exactly its steps.
\<close>

declare node_code.simps [simp del]

section \<open>The state inside a function\<close>

text \<open>
  The running scope is the function's own or the body of one of its loops, it knows the
  variables, and whether it has returned.  Positions in the stream fit into 32 bits.
\<close>

definition in_block :: "nat \<Rightarrow> vm \<Rightarrow> nat \<Rightarrow> env \<Rightarrow> bool \<Rightarrow> bool" where
  "in_block base s sc e d \<longleftrightarrow>
     block_scope (scopes s) base sc \<and> sc < length (scopes s) \<and> 0 < get_depth (scopes s) sc \<and>
     scope_knows (scopes s) (heap s) sc e \<and> is_terminated (scopes s) sc = d \<and>
     length (bytecode (m_data (ip s))) < 2 ^ 32"

lemma in_block_function: "in_block base s sc e d \<Longrightarrow> in_function s sc e"
  by (simp add: in_block_def in_function_def)

lemma in_block_base: "in_block base s sc e d \<Longrightarrow> base \<le> sc"
  using block_scope_ge by (auto simp: in_block_def)

text \<open>Execution that may also change the scopes of the call.\<close>

definition reaches :: "nat \<Rightarrow> nat \<Rightarrow> vm \<Rightarrow> nat \<Rightarrow> nat \<Rightarrow> vm \<Rightarrow> bool" where
  "reaches base sc s n k s' \<longleftrightarrow>
     (\<exists>h ss. s' = (grown n k h s)\<lparr>scopes := ss\<rparr> \<and> scopes_step base sc (scopes s) ss)"

lemma reaches_grown [simp]: "reaches base sc s n k (grown n k h s)"
  unfolding reaches_def by (intro exI [of _ h] exI [of _ "scopes s"]) (simp add: grown_def)

lemma reaches_trans:
  assumes "reaches base sc s n k t" and "reaches base sc t m j u"
  shows "reaches base sc s (n + m) (k + j) u"
proof -
  obtain h ss where t: "t = (grown n k h s)\<lparr>scopes := ss\<rparr>" "scopes_step base sc (scopes s) ss"
    using assms(1) by (auto simp: reaches_def)
  obtain h' ts where u: "u = (grown m j h' t)\<lparr>scopes := ts\<rparr>" "scopes_step base sc ss ts"
    using assms(2) t(1) by (auto simp: reaches_def)
  have "u = (grown (n + m) (k + j) (h @ h') s)\<lparr>scopes := ts\<rparr>" by (simp add: u(1) t(1) grown_def)
  then show ?thesis unfolding reaches_def using scopes_step_trans [OF t(2) u(2)] by blast
qed

lemma reaches_then_grown: "reaches base sc s n k t \<Longrightarrow> reaches base sc s (n + m) (k + j) (grown m j h t)"
  using reaches_trans [OF _ reaches_grown] .

lemma reaches_scopes: "scopes_step base sc (scopes s) ss \<Longrightarrow> reaches base sc s 0 0 (s\<lparr>scopes := ss\<rparr>)"
  unfolding reaches_def by (intro exI [of _ "[]"] exI [of _ ss]) (simp add: grown_def)

lemma reaches_refl [simp]: "reaches base sc s 0 0 s"
  using reaches_grown [of base sc s 0 0 "[]"] by (simp add: grown_def)

lemma reaches_ip: "reaches base sc s n k s' \<Longrightarrow> ip s' = advance_ip n k (ip s)"
  by (auto simp: reaches_def)

lemma reaches_heap: "reaches base sc s n k s' \<Longrightarrow> \<exists>h. heap s' = heap s @ h"
  by (auto simp: reaches_def)

lemma reaches_scopes_step: "reaches base sc s n k s' \<Longrightarrow> scopes_step base sc (scopes s) (scopes s')"
  by (auto simp: reaches_def)

lemma reaches_depth:
  assumes "reaches base sc s n k s'" and "sc < length (scopes s)"
  shows "get_depth (scopes s') sc = get_depth (scopes s) sc"
  using same_shape_nth [of "scopes s" "scopes s'" sc] reaches_scopes_step [OF assms(1)] assms(2)
  by (simp add: get_depth_def scopes_step_def)

lemma reaches_ahead:
  "reaches base sc s (length xs) k s' \<Longrightarrow> ahead (xs @ ys) (m_data (ip s)) \<Longrightarrow> ahead ys (m_data (ip s'))"
  by (simp add: reaches_ip ahead_append)

lemma reaches_room: "reaches base sc s n j s' \<Longrightarrow> room (j + k) (ip s) \<Longrightarrow> room k (ip s')"
  by (simp add: reaches_ip room_advance)

lemma in_block_grown [simp]: "in_block base s sc e d \<Longrightarrow> in_block base (grown n k h s) sc e d"
  by (simp add: in_block_def scope_knows_append skip_bytes_def)

definition result_of :: "heap \<Rightarrow> valueptr \<Rightarrow> pyval option \<Rightarrow> bool" where
  "result_of h p r = (case r of None \<Rightarrow> p = None | Some v \<Rightarrow> points_to h p v)"

lemma result_of_None [simp]: "result_of h p None \<longleftrightarrow> p = None"
  by (simp add: result_of_def)

lemma result_of_append: "result_of h p r \<Longrightarrow> result_of (h @ h') p r"
  by (auto simp: result_of_def points_to_append split: option.splits)

lemma result_of_reaches: "result_of (heap s) p r \<Longrightarrow> reaches base sc s n k s' \<Longrightarrow> result_of (heap s') p r"
  using reaches_heap result_of_append by metis

lemma bnd_charge: "room 1 (ip s) \<Longrightarrow> bnd (on_ip charge) f s = f () (grown 0 1 [] s)"
  by (simp add: bnd_def on_ip_def on_part_def charge_room grown_def)

lemma bnd_peek: "ahead (be32 v) (m_data (ip s)) \<Longrightarrow> bnd (on_ip (on_data peek_u32)) f s = f v s"
  by (simp add: bnd_def on_ip_def on_part_def on_data_def peek_u32_ahead)

lemma bnd_modify: "bnd (modify g) f s = f () (g s)"
  by (simp add: bnd_def modify_def)

lemma bnd_exec: "exec n sc ls s = (Inr x, s') \<Longrightarrow> bnd (exec n sc ls) f s = f x s'"
  by (rule bnd_Inr)

text \<open>Going back to an earlier position.\<close>

lemma move_back:
  assumes "ahead xs (m_data (ip s))" and "length (bytecode (m_data (ip s))) < 2 ^ 32"
    and "ip t = advance_ip n k (ip s)"
  shows "bnd (on_ip (move_to (bs_pos (m_data (ip s))))) f t = f () (t\<lparr>ip := advance_ip 0 k (ip s)\<rparr>)"
proof -
  let ?d = "m_data (ip s)"
  have d: "\<not> failed ?d" "getp ?d \<le> length (bytecode ?d)" using assms(1) by (simp_all add: ahead_def)
  then have "unat (bs_pos ?d) = getp ?d"
    using assms(2) by (simp add: bs_pos_def unat_of_nat take_bit_nat_eq_self_iff)
  then have "bs_move_to (bs_pos ?d) (skip_bytes n ?d) = ?d" using d by (simp add: bs_move_to_def skip_bytes_def)
  then show ?thesis
    by (simp add: bnd_def on_ip_def on_part_def move_to_def modify_def assms(3)) (simp add: advance_ip_def)
qed

text \<open>An expression in a statement.\<close>

lemma expr_step:
  assumes "encode_ptr encode p = Inr bs" and "length bs < 2 ^ 32"
    and "Option.bind p (expr_value e) = Some v" and "size_option size p \<le> n" and "in_block base s sc e False"
    and "ahead bs (m_data (ip s))" and "room (ptr_sum expr_cost p + k) (ip s)" and "quiet ls"
  obtains q h where "exec n sc ls s = (Inr (q, ls), grown (length bs) (ptr_sum expr_cost p) h s)"
    and "points_to (heap s @ h) q v" and "room k (ip (grown (length bs) (ptr_sum expr_cost p) h s))"
  by (rule operand_runs [OF expr_runs assms(1-4) in_block_function [OF assms(5)] assms(6-8)]) (rule that)

text \<open>A skipped tree.\<close>

lemma skip_step_run:
  assumes "encode_ptr encode p = Inr bs" and "length bs < 2 ^ 32" and "ptr_ok skippable p"
    and "ahead bs (m_data (ip s))" and "room (ptr_sum skip_cost p + k) (ip s)"
  shows "bnd (on_ip skip_next) f s = f () (grown (length bs) (ptr_sum skip_cost p) [] s)"
    and "room k (ip (grown (length bs) (ptr_sum skip_cost p) [] s))"
proof -
  obtain a where a: "p = Some a" "encode a = Inr bs" using assms(1) by (auto simp: encode_ptr_eq_Inr)
  have "eats skip_next bs (ptr_sum skip_cost p) ()"
    using eats_skip_next [OF a(2) _ assms(2)] assms(3) a(1) by simp
  from bnd_eats [OF this assms(4) room_mono [OF assms(5)]]
  show "bnd (on_ip skip_next) f s = f () (grown (length bs) (ptr_sum skip_cost p) [] s)" by simp
  show "room k (ip (grown (length bs) (ptr_sum skip_cost p) [] s))"
    using assms(5) by (rule room_grown)
qed

section \<open>Assignment and return\<close>

lemma terminate_block:
  assumes "in_block base s sc e False"
  shows "in_block base (s\<lparr>scopes := terminate (scopes s) sc\<rparr>) sc e True"
    and "reaches base sc s 0 0 (s\<lparr>scopes := terminate (scopes s) sc\<rparr>)"
proof -
  have "is_terminated (terminate (scopes s) sc) sc"
    using assms by (simp add: in_block_def is_terminated_def terminate_def)
  then show "in_block base (s\<lparr>scopes := terminate (scopes s) sc\<rparr>) sc e True"
    using assms by (simp add: in_block_def block_scope_terminate scope_knows_def get_depth_def)
  show "reaches base sc s 0 0 (s\<lparr>scopes := terminate (scopes s) sc\<rparr>)"
    using assms in_block_base [OF assms] by (intro reaches_scopes scopes_step_terminate) (simp_all add: in_block_def)
qed

lemma bnd_terminate: "bnd (do_terminate sc) f s = f () (s\<lparr>scopes := terminate (scopes s) sc\<rparr>)"
  by (simp add: do_terminate_def on_scopes_def bnd_modify)

text \<open>An assignment to one name, which becomes a variable of the call.\<close>

lemma assign_block:
  assumes "in_block base s sc e False" and "points_to (heap s) q v" and "\<not> reserved n"
  shows "in_block base (s\<lparr>scopes := set_value (scopes s) sc n q\<rparr>) sc (e(n \<mapsto> v)) False"
    and "reaches base sc s 0 0 (s\<lparr>scopes := set_value (scopes s) sc n q\<rparr>)"
proof -
  have sc: "sc < length (scopes s)" using assms(1) by (simp add: in_block_def)
  obtain t where t: "assigns (scopes s) base sc n q t"
    using block_scope_assigns [of "scopes s" base sc n q] assms(1) by (auto simp: in_block_def)
  then have put: "set_value (scopes s) sc n q = put_value (scopes s) t n q" "base \<le> t" "t < length (scopes s)"
    using sc by (simp_all add: assigns_def)
  have "is_terminated (put_value (scopes s) t n q) sc = is_terminated (scopes s) sc"
    "get_depth (put_value (scopes s) t n q) sc = get_depth (scopes s) sc"
    using put(3) by (cases "sc = t"; simp add: is_terminated_def get_depth_def)+
  then show "in_block base (s\<lparr>scopes := set_value (scopes s) sc n q\<rparr>) sc (e(n \<mapsto> v)) False"
    using assms t sc by (simp add: in_block_def put(1) assigns_def scope_knows_def reserved_def)
  show "reaches base sc s 0 0 (s\<lparr>scopes := set_value (scopes s) sc n q\<rparr>)"
    unfolding put(1) by (intro reaches_scopes scopes_step_put put)
qed

lemma bnd_scope_set: "bnd (scope_set sc n q) f s = f () (s\<lparr>scopes := set_value (scopes s) sc n q\<rparr>)"
  by (simp add: scope_set_def on_scopes_def bnd_modify)

section \<open>What is shown of a statement\<close>

text \<open>
  A \<open>break\<close> or \<open>continue\<close> leaves its loop state behind and the position where the statement
  began; otherwise the position is behind the statement.
\<close>

definition loop_of :: "bool \<Rightarrow> loop_state" where
  "loop_of lp = (if lp then LS_Normal else LS_None)"

definition state_after :: "loop_state \<Rightarrow> flow \<Rightarrow> loop_state" where
  "state_after ls f = (case f of Jump j \<Rightarrow> j | _ \<Rightarrow> ls)"

definition bytes_after :: "nat \<Rightarrow> flow \<Rightarrow> nat" where
  "bytes_after n f = (case f of Jump j \<Rightarrow> 0 | _ \<Rightarrow> n)"

lemma after_simps [simp]:
  "state_after ls Next = ls" "state_after ls Done = ls" "state_after ls (Jump j) = j"
  "bytes_after n Next = n" "bytes_after n Done = n" "bytes_after n (Jump j) = 0"
  by (simp_all add: state_after_def bytes_after_def)

lemma quiet_loop_of [simp]: "quiet (loop_of lp)"
  by (simp add: loop_of_def)

definition jumps :: "bool \<Rightarrow> flow \<Rightarrow> bool" where
  "jumps lp f \<longleftrightarrow> (\<forall>j. f = Jump j \<longrightarrow> lp \<and> (j = LS_Break \<or> j = LS_Continue))"

definition stmt_runs :: "bool \<Rightarrow> env \<Rightarrow> ast \<Rightarrow> effect \<Rightarrow> bool" where
  "stmt_runs lp e a w \<longleftrightarrow> (case w of (e', r, f, k, m) \<Rightarrow> jumps lp f \<and>
     (\<forall>bs base s n sc. encode a = Inr bs \<longrightarrow> length bs < 2 ^ 32 \<longrightarrow> size a + m < n \<longrightarrow> in_block base s sc e False \<longrightarrow>
        get_depth (scopes s) sc + int (loop_depth a) < 128 \<longrightarrow> ahead bs (m_data (ip s)) \<longrightarrow> room k (ip s) \<longrightarrow>
        (\<exists>p s'. exec n sc (loop_of lp) s = (Inr (p, state_after (loop_of lp) f), s') \<and>
           reaches base sc s (bytes_after (length bs) f) k s' \<and> result_of (heap s') p r \<and>
           in_block base s' sc e' (f = Done))))"

lemma stmt_runsD:
  assumes "stmt_runs lp e a (e', r, f, k, m)" and "encode a = Inr bs" and "length bs < 2 ^ 32"
    and "size a + m < n" and "in_block base s sc e False" and "get_depth (scopes s) sc + int (loop_depth a) < 128"
    and "ahead bs (m_data (ip s))" and "room k (ip s)"
  obtains p s' where "exec n sc (loop_of lp) s = (Inr (p, state_after (loop_of lp) f), s')"
    and "reaches base sc s (bytes_after (length bs) f) k s'" and "result_of (heap s') p r"
    and "in_block base s' sc e' (f = Done)"
  using assms unfolding stmt_runs_def prod.case by blast

text \<open>A statement is run by its case, behind the node's type and one step on.\<close>

definition case_runs_to :: "nat \<Rightarrow> nat \<Rightarrow> vm \<Rightarrow> nat \<Rightarrow> nat \<Rightarrow> effect \<Rightarrow> bool \<Rightarrow> (valueptr \<times> loop_state) exec \<Rightarrow> bool" where
  "case_runs_to base sc s n j w lp m \<longleftrightarrow> (case w of (e', r, f, k, c) \<Rightarrow>
     \<exists>p s' i. m s = (Inr (p, state_after (loop_of lp) f), s') \<and> reaches base sc s i j s' \<and>
       ((\<forall>l. f \<noteq> Jump l) \<longrightarrow> i = n) \<and> result_of (heap s') p r \<and> in_block base s' sc e' (f = Done))"

lemma exec_node_jump:
  assumes "ahead (be32 (node_code t) @ xs) (m_data (ip s))" and "room 1 (ip s)" and "length (bytecode (m_data (ip s))) < 2 ^ 32"
    and "get_depth (scopes s) sc \<noteq> 0"
    and "exec_node n (exec n) (Some t) sc ls (grown 4 1 [] s) = (Inr (p, j), u)"
    and "j \<noteq> LS_None \<and> j \<noteq> LS_Normal" and "ip u = advance_ip (4 + i) (1 + k) (ip s)"
  shows "exec (Suc n) sc ls s = (Inr (p, j), u\<lparr>ip := advance_ip 0 (1 + k) (ip s)\<rparr>)"
proof -
  have ahead: "ahead (be32 (node_code t)) (m_data (ip s))" using assms(1) by (simp add: ahead_append)
  have c: "on_ip charge s = (Inr (), grown 0 (Suc 0) [] s)"
    using on_ip_eats [OF eats_charge] ahead assms(2) unfolding ahead_def by auto
  have r: "on_ip rd_u32 (grown 0 (Suc 0) [] s) = (Inr (node_code t), grown 4 (Suc 0) [] s)"
    using on_ip_eats [OF eats_u32, of "node_code t" "grown 0 1 [] s"] ahead room_advance [of 1 0 "ip s" 0] assms(2)
    by simp
  have returned: "bnd (on_ip (move_to (bs_pos (m_data (ip s))))) (\<lambda>_. ret (p, j)) u =
      (Inr (p, j), u\<lparr>ip := advance_ip 0 (1 + k) (ip s)\<rparr>)"
    by (simp only: move_back [OF assms(1,3,7)] ret_def)
  show ?thesis
    using assms(4-6) returned
    by (simp add: exec_step_def bnd_Inr [where m = "on_ip charge", OF c] bnd_data_pos bnd_gets
        bnd_Inr [where m = "on_ip rd_u32", OF r] bnd_Inr [where m = "exec_node n (exec n) (Some t) sc ls"])
qed

lemma reaches_back: "reaches base sc s n k u \<Longrightarrow> reaches base sc s 0 k (u\<lparr>ip := advance_ip 0 k (ip s)\<rparr>)"
  unfolding reaches_def
proof (elim exE conjE)
  fix h ss assume "u = (grown n k h s)\<lparr>scopes := ss\<rparr>" "scopes_step base sc (scopes s) ss"
  then have "u\<lparr>ip := advance_ip 0 k (ip s)\<rparr> = (grown 0 k h s)\<lparr>scopes := ss\<rparr> \<and> scopes_step base sc (scopes s) ss"
    by (simp add: grown_def)
  then show "\<exists>h ss. u\<lparr>ip := advance_ip 0 k (ip s)\<rparr> = (grown 0 k h s)\<lparr>scopes := ss\<rparr> \<and> scopes_step base sc (scopes s) ss"
    by blast
qed

lemma in_block_back:
  "in_block base u sc e d \<Longrightarrow> length (bytecode (m_data i)) < 2 ^ 32 \<Longrightarrow> in_block base (u\<lparr>ip := i\<rparr>) sc e d"
  by (simp add: in_block_def)

definition node_case :: "bool \<Rightarrow> env \<Rightarrow> ast \<Rightarrow> u8 list \<Rightarrow> effect \<Rightarrow> bool" where
  "node_case lp e a bs w \<longleftrightarrow> (case w of (e', r, f, k, m) \<Rightarrow>
    \<exists>t xs j. bs = be32 (node_code t) @ xs \<and> k = Suc j \<and>
      (\<forall>base s n sc. size a + m \<le> n \<longrightarrow> in_block base s sc e False \<longrightarrow> get_depth (scopes s) sc + int (loop_depth a) < 128 \<longrightarrow>
         ahead xs (m_data (ip s)) \<longrightarrow> room j (ip s) \<longrightarrow>
         case_runs_to base sc s (length xs) j w lp (exec_node n (exec n) (Some t) sc (loop_of lp))))"

lemma node_caseI:
  assumes "bs = be32 (node_code t) @ xs" and "k = Suc j"
    and "\<And>base s n sc. size a + m \<le> n \<Longrightarrow> in_block base s sc e False \<Longrightarrow> get_depth (scopes s) sc + int (loop_depth a) < 128 \<Longrightarrow>
      ahead xs (m_data (ip s)) \<Longrightarrow> room j (ip s) \<Longrightarrow>
      case_runs_to base sc s (length xs) j (e', r, f, k, m) lp (exec_node n (exec n) (Some t) sc (loop_of lp))"
  shows "node_case lp e a bs (e', r, f, k, m)"
  using assms unfolding node_case_def prod.case by blast

lemma stmt_runsI:
  assumes "jumps lp f" and "\<And>bs. encode a = Inr bs \<Longrightarrow> length bs < 2 ^ 32 \<Longrightarrow> node_case lp e a bs (e', r, f, k, m)"
  shows "stmt_runs lp e a (e', r, f, k, m)"
  unfolding stmt_runs_def prod.case
proof (intro conjI allI impI)
  show "jumps lp f" by (rule assms(1))
  fix bs base s n sc
  assume a: "encode a = Inr bs" "length bs < 2 ^ 32" "size a + m < n" "in_block base s sc e False"
    "get_depth (scopes s) sc + int (loop_depth a) < 128" "ahead bs (m_data (ip s))" "room k (ip s)"
  from assms(2) [OF a(1,2)] obtain t xs j where bs: "bs = be32 (node_code t) @ xs" and k: "k = Suc j"
    and run: "\<And>s n. size a + m \<le> n \<Longrightarrow> in_block base s sc e False \<Longrightarrow> get_depth (scopes s) sc + int (loop_depth a) < 128 \<Longrightarrow>
      ahead xs (m_data (ip s)) \<Longrightarrow> room j (ip s) \<Longrightarrow>
      case_runs_to base sc s (length xs) j (e', r, f, k, m) lp (exec_node n (exec n) (Some t) sc (loop_of lp))"
    unfolding node_case_def prod.case by blast
  obtain l where n: "n = Suc l" "size a + m \<le> l" using a(3) by (cases n) auto
  let ?t = "grown 4 1 [] s"
  have ahead: "ahead (be32 (node_code t)) (m_data (ip s))" "ahead xs (m_data (ip ?t))"
    using a(6) by (simp_all add: bs ahead_append)
  have room: "room 1 (ip s)" "room j (ip ?t)"
    using a(7) room_mono [of "Suc j" "ip s" 1] room_advance [of 1 j "ip s"] by (simp_all add: k)
  have depth: "get_depth (scopes s) sc \<noteq> 0" and short: "length (bytecode (m_data (ip s))) < 2 ^ 32"
    using a(4) by (simp_all add: in_block_def)
  have "case_runs_to base sc ?t (length xs) j (e', r, f, k, m) lp (exec_node l (exec l) (Some t) sc (loop_of lp))"
    by (rule run) (use n(2) a(4,5) ahead(2) room(2) in simp_all)
  then obtain p u i where u: "exec_node l (exec l) (Some t) sc (loop_of lp) ?t = (Inr (p, state_after (loop_of lp) f), u)"
      "reaches base sc ?t i j u" "(\<forall>l. f \<noteq> Jump l) \<longrightarrow> i = length xs" "result_of (heap u) p r"
      "in_block base u sc e' (f = Done)"
    unfolding case_runs_to_def prod.case by blast
  have su: "reaches base sc s (4 + i) (1 + j) u" by (rule reaches_trans [OF reaches_grown u(2)])
  show "\<exists>p s'. exec n sc (loop_of lp) s = (Inr (p, state_after (loop_of lp) f), s') \<and>
      reaches base sc s (bytes_after (length bs) f) k s' \<and> result_of (heap s') p r \<and> in_block base s' sc e' (f = Done)"
  proof (cases "\<exists>l. f = Jump l")
    case True
    then obtain c where f: "f = Jump c" "c \<noteq> LS_None \<and> c \<noteq> LS_Normal" using assms(1) by (auto simp: jumps_def)
    let ?v = "u\<lparr>ip := advance_ip 0 (1 + j) (ip s)\<rparr>"
    have "exec n sc (loop_of lp) s = (Inr (p, c), ?v)"
      unfolding n(1) using u(1) f
      by (intro exec_node_jump [OF _ room(1) short depth _ f(2) reaches_ip [OF su]])
        (use a(6) in \<open>simp_all add: bs\<close>)
    moreover have "reaches base sc s 0 k ?v" using reaches_back [OF su] by (simp add: k)
    moreover have "in_block base ?v sc e' (f = Done)" using u(5) short by (intro in_block_back) (simp_all add: skip_bytes_def)
    ultimately show ?thesis using u(4) f by auto
  next
    case False
    then have f: "state_after (loop_of lp) f = loop_of lp" "bytes_after (length bs) f = length bs" "i = length xs"
      using u(3) by (cases f; simp)+
    have "exec n sc (loop_of lp) s = (Inr (p, loop_of lp), u)"
      using exec_node_result [OF ahead(1) room(1) _ u(1)] depth by (simp add: n(1) f(1))
    then show ?thesis using su u(4,5) f by (intro exI [of _ p] exI [of _ u]) (simp add: bs k)
  qed
qed

text \<open>Cases that leave the loop state alone.\<close>

lemma case_runs_same:
  assumes "m s = (Inr p, s')" and "reaches base sc s n j s'" and "result_of (heap s') p r"
    and "in_block base s' sc e' d" and "f = (if d then Done else Next)"
  shows "case_runs_to base sc s n j (e', r, f, k, c) lp (same_state (loop_of lp) m)"
  unfolding case_runs_to_def prod.case
  by (rule exI [of _ p], rule exI [of _ s'], rule exI [of _ n])
    (use assms in \<open>simp add: same_state_run split: if_splits\<close>)

section \<open>Simple statements\<close>

lemma runs_return:
  assumes v: "Option.bind p (expr_value e) = Some v"
  shows "stmt_runs lp e (AstReturn p) (e, Some v, Done, Suc (ptr_sum expr_cost p), 0)"
proof (rule stmt_runsI)
  fix bs assume "encode (AstReturn p) = Inr bs" "length bs < 2 ^ 32"
  then obtain bp where p: "encode_ptr encode p = Inr bp" "bs = be32 (node_code NT_Return) @ bp" "length bp < 2 ^ 32"
    by (auto simp: cat_eq_Inr node_bytes_eq)
  show "node_case lp e (AstReturn p) bs (e, Some v, Done, Suc (ptr_sum expr_cost p), 0)"
  proof (rule node_caseI [OF p(2) refl])
    fix base s n sc
    assume b: "size (AstReturn p) + 0 \<le> n" "in_block base s sc e False" "ahead bp (m_data (ip s))"
      "room (ptr_sum expr_cost p) (ip s)"
    obtain q h where q: "exec n sc LS_None s = (Inr (q, LS_None), grown (length bp) (ptr_sum expr_cost p) h s)"
        "points_to (heap s @ h) q v"
      by (rule expr_step [OF p(1,3) v _ b(2,3), of n 0 LS_None]) (use b in auto)
    let ?t = "grown (length bp) (ptr_sum expr_cost p) h s"
    let ?u = "?t\<lparr>scopes := terminate (scopes ?t) sc\<rparr>"
    have block: "in_block base ?t sc e False" using b(2) by simp
    have run: "node_return (exec n) sc s = (Inr q, ?u)"
      by (simp add: node_return_def bnd_eval [OF q(1)] bnd_terminate ret_def)
    have "reaches base sc s (length bp) (ptr_sum expr_cost p) ?u"
      using reaches_trans [OF reaches_grown terminate_block(2) [OF block]] by simp
    from case_runs_same [where m = "node_return (exec n) sc" and d = True, OF run this _ terminate_block(1) [OF block]]
    show "case_runs_to base sc s (length bp) (ptr_sum expr_cost p) (e, Some v, Done, Suc (ptr_sum expr_cost p), 0) lp
        (exec_node n (exec n) (Some NT_Return) sc (loop_of lp))"
      using q(2) by (simp add: exec_node_def result_of_def)
  qed
qed (simp add: jumps_def)

lemma runs_expr:
  assumes v: "Option.bind p (expr_value e) = Some v"
  shows "stmt_runs lp e (AstExpressionStatement p) (e, Some v, Next, ptr_sum expr_cost p, 0)"
  unfolding stmt_runs_def prod.case
proof (intro conjI allI impI)
  fix bs base s n sc
  assume a: "encode (AstExpressionStatement p) = Inr bs" "length bs < 2 ^ 32" "size (AstExpressionStatement p) + 0 < n"
    "in_block base s sc e False" "ahead bs (m_data (ip s))" "room (ptr_sum expr_cost p) (ip s)"
  obtain q h where q: "exec n sc (loop_of lp) s = (Inr (q, loop_of lp), grown (length bs) (ptr_sum expr_cost p) h s)"
      "points_to (heap s @ h) q v"
    by (rule expr_step [of p bs e v n base s sc 0 "loop_of lp"]) (use a v in auto)
  then show "\<exists>q s'. exec n sc (loop_of lp) s = (Inr (q, state_after (loop_of lp) Next), s') \<and>
      reaches base sc s (bytes_after (length bs) Next) (ptr_sum expr_cost p) s' \<and> result_of (heap s') q (Some v) \<and>
      in_block base s' sc e (Next = Done)"
    using a(4) by (auto simp: result_of_def)
qed (simp add: jumps_def)

lemma runs_pass: "stmt_runs lp e AstPass (e, None, Next, Suc 0, 0)"
proof (rule stmt_runsI)
  fix bs assume "encode AstPass = Inr bs"
  then have bs: "bs = be32 (node_code NT_Pass) @ []" by (simp add: node_bytes_eq)
  show "node_case lp e AstPass bs (e, None, Next, Suc 0, 0)"
    by (rule node_caseI [OF bs refl]) (auto simp: exec_node_def case_runs_to_def ret_def)
qed (simp add: jumps_def)

lemma runs_break: "stmt_runs True e AstBreak (e, None, Jump LS_Break, Suc 0, 0)"
proof (rule stmt_runsI)
  fix bs assume "encode AstBreak = Inr bs"
  then have bs: "bs = be32 (node_code NT_Break) @ []" by (simp add: node_bytes_eq)
  show "node_case True e AstBreak bs (e, None, Jump LS_Break, Suc 0, 0)"
    by (rule node_caseI [OF bs refl]) (auto simp: exec_node_def case_runs_to_def node_break_def loop_of_def ret_def intro: exI [of _ 0])
qed (simp add: jumps_def)

lemma runs_continue: "stmt_runs True e AstContinue (e, None, Jump LS_Continue, Suc 0, 0)"
proof (rule stmt_runsI)
  fix bs assume "encode AstContinue = Inr bs"
  then have bs: "bs = be32 (node_code NT_Continue) @ []" by (simp add: node_bytes_eq)
  show "node_case True e AstContinue bs (e, None, Jump LS_Continue, Suc 0, 0)"
    by (rule node_caseI [OF bs refl]) (auto simp: exec_node_def case_runs_to_def node_continue_def loop_of_def ret_def intro: exI [of _ 0])
qed (simp add: jumps_def)

text \<open>Reading the name in front of the position.\<close>

lemma eats_names: "length n < 2 ^ 32 \<Longrightarrow> eats read_names (be32 (node_code NT_Name) @ enc_string n) 0 [n]"
  unfolding read_names_def using eats_bnd_ret [OF eats_string, of n "\<lambda>str. [str]"]
  by (intro eats_u32_then) simp

lemma assign_runs:
  assumes "encode_ptr encode p = Inr bs" and "length (bs @ be32 1 @ be32 (node_code NT_Name) @ enc_string n) < 2 ^ 32"
    and "Option.bind p (expr_value e) = Some v" and "\<not> reserved n"
    and "size_option size p \<le> m" and "in_block base s sc e False"
    and "ahead (bs @ be32 1 @ be32 (node_code NT_Name) @ enc_string n) (m_data (ip s))"
    and "room (ptr_sum expr_cost p + 1) (ip s)"
  shows "\<exists>s'. node_assign (exec m) sc s = (Inr None, s') \<and>
    reaches base sc s (length (bs @ be32 1 @ be32 (node_code NT_Name) @ enc_string n)) (ptr_sum expr_cost p + 1) s' \<and>
    in_block base s' sc (e(n \<mapsto> v)) False"
proof -
  have len: "length bs < 2 ^ 32" "length n < 2 ^ 32" using assms(2) by simp_all
  have ahead: "ahead bs (m_data (ip s))" using assms(7) by (simp add: ahead_append)
  obtain q h where q: "exec m sc LS_None s = (Inr (q, LS_None), grown (length bs) (ptr_sum expr_cost p) h s)"
      "points_to (heap s @ h) q v" and room: "room 1 (ip (grown (length bs) (ptr_sum expr_cost p) h s))"
    using expr_step [OF assms(1) len(1) assms(3,5,6) ahead assms(8), of LS_None] by auto
  let ?t = "grown (length bs) (ptr_sum expr_cost p) h s"
  let ?u = "grown 4 1 [] ?t"
  let ?w = "grown (8 + length n) 0 [] ?u"
  let ?v = "?w\<lparr>scopes := set_value (scopes ?w) sc n q\<rparr>"
  have rest: "ahead (be32 1 @ be32 (node_code NT_Name) @ enc_string n) (m_data (ip ?t))"
    using assms(7) by (simp add: ahead_append)
  have count: "bnd (on_ip rd_u32) f ?t = f 1 (grown 4 0 [] ?t)" for f
    using bnd_eats [OF eats_u32, of 1 ?t f] rest room_mono [OF room] by (simp add: ahead_append)
  have charged: "bnd (on_ip charge) f (grown 4 0 [] ?t) = f () ?u" for f
    using bnd_charge [of "grown 4 0 [] ?t" f] room_advance [of 0 1 "ip ?t" 4] room by simp
  have room_u: "room 0 (ip ?u)" using room room_advance [of 1 0 "ip ?t" 4] by simp
  have "ahead (be32 (node_code NT_Name)) (m_data (ip ?u))" using rest by (simp add: ahead_append)
  then have peek: "bnd (on_ip (on_data peek_u32)) f ?u = f (node_code NT_Name) ?u" for f
    by (rule bnd_peek)
  from bnd_eats [OF eats_names [OF len(2)], of ?u] rest room_u
  have names: "bnd (on_ip read_names) f ?u = f [n] ?w" for f by (simp add: ahead_append add.commute)
  have "node_assign (exec m) sc s = (Inr None, ?v)"
    using q(2)
    by (auto simp: node_assign_def eval_ptr_def bnd_eval [OF q(1)] assert_ptr_def points_to_def count
        exec_times_def charged [simplified] peek [simplified] assign_names_def names [simplified] scope_set_def
        on_scopes_def bnd_modify bnd_times_0 ret_def split: option.splits)
  moreover have block: "in_block base ?w sc e False" using assms(6) by simp
  have q': "points_to (heap ?w) q v" using q(2) by simp
  have "reaches base sc s (length bs + (12 + length n)) (ptr_sum expr_cost p + 1) ?w"
    using reaches_grown [of base sc s "length bs + (12 + length n)" "ptr_sum expr_cost p + 1" h]
    by (simp add: add.left_commute)
  from reaches_trans [OF this assign_block(2) [OF block q' assms(4)]]
  have "reaches base sc s (length (bs @ be32 1 @ be32 (node_code NT_Name) @ enc_string n)) (ptr_sum expr_cost p + 1) ?v"
    by (simp add: add.commute add.left_commute)
  moreover have "in_block base ?v sc (e(n \<mapsto> v)) False"
    by (rule assign_block(1) [OF block q' assms(4)])
  ultimately show ?thesis by blast
qed

lemma runs_assign:
  assumes v: "Option.bind p (expr_value e) = Some v" and m: "\<not> reserved (c_str m)"
  shows "stmt_runs lp e (AstAssign [Some (AstName m)] p)
    (e(c_str m \<mapsto> v), None, Next, Suc (Suc (ptr_sum expr_cost p)), 0)"
proof (rule stmt_runsI)
  let ?n = "c_str m"
  fix bs assume a: "encode (AstAssign [Some (AstName m)] p) = Inr bs" "length bs < 2 ^ 32"
  then obtain bp where p: "encode_ptr encode p = Inr bp"
      "bs = be32 (node_code NT_Assign) @ bp @ be32 1 @ be32 (node_code NT_Name) @ enc_string ?n"
    by (auto simp: cat_eq_Inr node_bytes_eq string_bytes_def word_bytes_def encode_list_def encode_item_def)
  let ?xs = "bp @ be32 1 @ be32 (node_code NT_Name) @ enc_string ?n"
  have len: "length ?xs < 2 ^ 32" using a(2) p(2) by simp
  show "node_case lp e (AstAssign [Some (AstName m)] p) bs
      (e(?n \<mapsto> v), None, Next, Suc (Suc (ptr_sum expr_cost p)), 0)"
  proof (rule node_caseI [OF p(2) refl])
    fix base s n sc
    assume b: "size (AstAssign [Some (AstName m)] p) + 0 \<le> n" "in_block base s sc e False" "ahead ?xs (m_data (ip s))"
      "room (Suc (ptr_sum expr_cost p)) (ip s)"
    have "size_option size p \<le> n" using b(1) by simp
    from assign_runs [OF p(1) len v m this b(2,3)] b(4) obtain s' where s': "node_assign (exec n) sc s = (Inr None, s')"
        "reaches base sc s (length ?xs) (Suc (ptr_sum expr_cost p)) s'" "in_block base s' sc (e(?n \<mapsto> v)) False" by auto
    from case_runs_same [where m = "node_assign (exec n) sc" and d = False, OF s'(1,2) _ s'(3)]
    show "case_runs_to base sc s (length ?xs) (Suc (ptr_sum expr_cost p))
        (e(?n \<mapsto> v), None, Next, Suc (Suc (ptr_sum expr_cost p)), 0) lp (exec_node n (exec n) (Some NT_Assign) sc (loop_of lp))"
      by (simp add: exec_node_def)
  qed
qed (simp add: jumps_def)

section \<open>Branches\<close>

lemma truthy_value: "points_to (heap s) p v \<Longrightarrow> bnd (truthy p) f s = f (truth v) s"
  by (cases v) (auto simp: truthy_def bnd_gets points_to_def deref_def signed_eq_0_iff split: option.splits)

text \<open>The node of an \<open>if\<close>, up to the end of its condition.\<close>

lemma if_condition:
  assumes "encode_ptr encode t = Inr bt" and "length bt < 2 ^ 32" and "Option.bind t (expr_value e) = Some v"
    and "size_option size t \<le> n" and "in_block base s sc e False" and "ahead (bt @ rest) (m_data (ip s))"
    and "room (ptr_sum expr_cost t + k) (ip s)"
  obtains u where "reaches base sc s (length bt) (ptr_sum expr_cost t) u" and "in_block base u sc e False"
    and "ahead rest (m_data (ip u))" and "room k (ip u)" and "get_depth (scopes u) sc = get_depth (scopes s) sc"
    and "node_if (exec n) sc (loop_of lp) s =
      (if truth v then exec n sc (loop_of lp) else bnd (on_ip skip_next) (\<lambda>_. ret (None, loop_of lp))) u"
    and "\<And>c. v = PBool c \<Longrightarrow> node_if_else (exec n) sc (loop_of lp) s =
      (if c then bnd (exec n sc (loop_of lp)) (\<lambda>r'. bnd (on_ip skip_next) (\<lambda>_. ret r'))
       else bnd (on_ip skip_next) (\<lambda>_. exec n sc (loop_of lp))) u"
proof -
  have ahead: "ahead bt (m_data (ip s))" using assms(6) by (simp add: ahead_append)
  obtain q h where q: "exec n sc (loop_of lp) s = (Inr (q, loop_of lp), grown (length bt) (ptr_sum expr_cost t) h s)"
      "points_to (heap s @ h) q v" and room: "room k (ip (grown (length bt) (ptr_sum expr_cost t) h s))"
    using expr_step [OF assms(1-5) ahead assms(7) quiet_loop_of] .
  let ?u = "grown (length bt) (ptr_sum expr_cost t) h s"
  show ?thesis
  proof (rule that [of ?u])
    show "node_if (exec n) sc (loop_of lp) s =
        (if truth v then exec n sc (loop_of lp) else bnd (on_ip skip_next) (\<lambda>_. ret (None, loop_of lp))) ?u"
      using q(2) by (simp add: node_if_def bnd_exec [OF q(1)] truthy_value [where v = v])
    show "node_if_else (exec n) sc (loop_of lp) s =
        (if c then bnd (exec n sc (loop_of lp)) (\<lambda>r'. bnd (on_ip skip_next) (\<lambda>_. ret r'))
         else bnd (on_ip skip_next) (\<lambda>_. exec n sc (loop_of lp))) ?u" if "v = PBool c" for c
      using points_to_deref [OF q(2)] that
      by (auto simp: node_if_else_def bnd_exec [OF q(1)] bnd_gets)
  qed (use assms(5,6) room in \<open>simp_all add: ahead_append\<close>)
qed

lemma runs_if:
  assumes t: "Option.bind t (expr_value e) = Some v" "truth v" and b: "stmt_runs lp e b (e', r, f, k, m)"
  shows "stmt_runs lp e (AstIf t (Some b) None) (e', r, f, Suc (ptr_sum expr_cost t + k), m)"
proof (rule stmt_runsI)
  show "jumps lp f" using b by (simp add: stmt_runs_def)
  fix bs assume a: "encode (AstIf t (Some b) None) = Inr bs" "length bs < 2 ^ 32"
  then obtain bt bb where enc: "encode_ptr encode t = Inr bt" "encode b = Inr bb"
      "bs = be32 (node_code NT_If) @ bt @ bb" and len: "length (bt @ bb) < 2 ^ 32"
    by (auto simp: cat_eq_Inr node_bytes_eq encode_ptr_def)
  show "node_case lp e (AstIf t (Some b) None) bs (e', r, f, Suc (ptr_sum expr_cost t + k), m)"
  proof (rule node_caseI [OF enc(3) refl])
    fix base s n sc
    assume a: "size (AstIf t (Some b) None) + m \<le> n" "in_block base s sc e False"
      "get_depth (scopes s) sc + int (loop_depth (AstIf t (Some b) None)) < 128" "ahead (bt @ bb) (m_data (ip s))"
      "room (ptr_sum expr_cost t + k) (ip s)"
    have lt: "length bt < 2 ^ 32" and st: "size_option size t \<le> n" using len a(1) by simp_all
    obtain u where u: "reaches base sc s (length bt) (ptr_sum expr_cost t) u" "in_block base u sc e False"
        "ahead bb (m_data (ip u))" "room k (ip u)" "get_depth (scopes u) sc = get_depth (scopes s) sc"
        "node_if (exec n) sc (loop_of lp) s =
           (if truth v then exec n sc (loop_of lp) else bnd (on_ip skip_next) (\<lambda>_. ret (None, loop_of lp))) u"
      by (rule if_condition [OF enc(1) lt t(1) st a(2,4,5), of lp]) blast
    obtain p s' where p: "exec n sc (loop_of lp) u = (Inr (p, state_after (loop_of lp) f), s')"
        "reaches base sc u (bytes_after (length bb) f) k s'" "result_of (heap s') p r" "in_block base s' sc e' (f = Done)"
      by (rule stmt_runsD [OF b enc(2), of n base u sc]) (use u a len in auto)
    have "reaches base sc s (length bt + bytes_after (length bb) f) (ptr_sum expr_cost t + k) s'"
      by (rule reaches_trans [OF u(1) p(2)])
    then show "case_runs_to base sc s (length (bt @ bb)) (ptr_sum expr_cost t + k) (e', r, f, Suc (ptr_sum expr_cost t + k), m) lp
        (exec_node n (exec n) (Some NT_If) sc (loop_of lp))"
      using p u(6) t(2) unfolding case_runs_to_def prod.case exec_node_def
      by (intro exI [of _ p] exI [of _ s'] exI [of _ "length bt + bytes_after (length bb) f"])
        (auto simp: bytes_after_def split: flow.split)
  qed
qed

lemma runs_if_not:
  assumes t: "Option.bind t (expr_value e) = Some v" "\<not> truth v" and b: "ptr_ok skippable b"
  shows "stmt_runs lp e (AstIf t b None) (e, None, Next, Suc (ptr_sum expr_cost t + ptr_sum skip_cost b), 0)"
proof (rule stmt_runsI)
  fix bs assume a: "encode (AstIf t b None) = Inr bs" "length bs < 2 ^ 32"
  then obtain bt bb where enc: "encode_ptr encode t = Inr bt" "encode_ptr encode b = Inr bb"
      "bs = be32 (node_code NT_If) @ bt @ bb" and len: "length bt < 2 ^ 32" "length bb < 2 ^ 32"
    by (auto simp: cat_eq_Inr node_bytes_eq)
  show "node_case lp e (AstIf t b None) bs (e, None, Next, Suc (ptr_sum expr_cost t + ptr_sum skip_cost b), 0)"
  proof (rule node_caseI [OF enc(3) refl])
    fix base s n sc
    assume a: "size (AstIf t b None) + 0 \<le> n" "in_block base s sc e False"
      "ahead (bt @ bb) (m_data (ip s))" "room (ptr_sum expr_cost t + ptr_sum skip_cost b) (ip s)"
    have st: "size_option size t \<le> n" using a(1) by simp
    obtain u where u: "reaches base sc s (length bt) (ptr_sum expr_cost t) u" "in_block base u sc e False"
        "ahead bb (m_data (ip u))" "room (ptr_sum skip_cost b) (ip u)"
        "node_if (exec n) sc (loop_of lp) s =
           (if truth v then exec n sc (loop_of lp) else bnd (on_ip skip_next) (\<lambda>_. ret (None, loop_of lp))) u"
      by (rule if_condition [OF enc(1) len(1) t(1) st a(2-4), of lp]) blast
    have room: "room (ptr_sum skip_cost b + 0) (ip u)" using u(4) by simp
    let ?w = "grown (length bb) (ptr_sum skip_cost b) [] u"
    have "node_if (exec n) sc (loop_of lp) s = (Inr (None, loop_of lp), ?w)"
      by (simp add: u(5) t(2) skip_step_run(1) [OF enc(2) len(2) b u(3) room] ret_def)
    moreover have "reaches base sc s (length (bt @ bb)) (ptr_sum expr_cost t + ptr_sum skip_cost b) ?w"
      using reaches_then_grown [OF u(1)] by simp
    ultimately show "case_runs_to base sc s (length (bt @ bb)) (ptr_sum expr_cost t + ptr_sum skip_cost b)
        (e, None, Next, Suc (ptr_sum expr_cost t + ptr_sum skip_cost b), 0) lp (exec_node n (exec n) (Some NT_If) sc (loop_of lp))"
      using u(2) unfolding case_runs_to_def prod.case exec_node_def
      by (intro exI [of _ None] exI [of _ ?w] exI [of _ "length (bt @ bb)"]) simp
  qed
qed (simp add: jumps_def)

lemma runs_then:
  assumes t: "Option.bind t (expr_value e) = Some (PBool True)" and b: "stmt_runs lp e b (e', r, f, k, m)"
    and y: "y = (case f of Jump j \<Rightarrow> b | _ \<Rightarrow> x)" "skippable y"
  shows "stmt_runs lp e (AstIf t (Some b) (Some x)) (e', r, f, Suc (ptr_sum expr_cost t + (k + skip_cost y)), m)"
proof (rule stmt_runsI)
  let ?j = "ptr_sum expr_cost t + (k + skip_cost y)"
  show "jumps lp f" using b by (simp add: stmt_runs_def)
  fix bs assume a: "encode (AstIf t (Some b) (Some x)) = Inr bs" "length bs < 2 ^ 32"
  then obtain bt bb bx where enc: "encode_ptr encode t = Inr bt" "encode b = Inr bb" "encode x = Inr bx"
      "bs = be32 (node_code NT_IfElse) @ bt @ bb @ bx" and len: "length (bt @ bb @ bx) < 2 ^ 32"
    by (auto simp: cat_eq_Inr node_bytes_eq encode_ptr_def)
  show "node_case lp e (AstIf t (Some b) (Some x)) bs (e', r, f, Suc ?j, m)"
  proof (rule node_caseI [OF enc(4) refl])
    fix base s n sc
    assume a: "size (AstIf t (Some b) (Some x)) + m \<le> n" "in_block base s sc e False"
      "get_depth (scopes s) sc + int (loop_depth (AstIf t (Some b) (Some x))) < 128"
      "ahead (bt @ bb @ bx) (m_data (ip s))" "room ?j (ip s)"
    have lt: "length bt < 2 ^ 32" and st: "size_option size t \<le> n" using len a(1) by simp_all
    obtain u where u: "reaches base sc s (length bt) (ptr_sum expr_cost t) u" "in_block base u sc e False"
        "ahead (bb @ bx) (m_data (ip u))" "room (k + skip_cost y) (ip u)" "get_depth (scopes u) sc = get_depth (scopes s) sc"
        "\<And>c. PBool True = PBool c \<Longrightarrow> node_if_else (exec n) sc (loop_of lp) s =
           (if c then bnd (exec n sc (loop_of lp)) (\<lambda>r'. bnd (on_ip skip_next) (\<lambda>_. ret r'))
            else bnd (on_ip skip_next) (\<lambda>_. exec n sc (loop_of lp))) u"
      by (rule if_condition [OF enc(1) lt t(1) st a(2,4,5), of lp]) blast
    have bb: "ahead bb (m_data (ip u))" using u(3) by (simp add: ahead_append)
    obtain p v where p: "exec n sc (loop_of lp) u = (Inr (p, state_after (loop_of lp) f), v)"
        "reaches base sc u (bytes_after (length bb) f) k v" "result_of (heap v) p r" "in_block base v sc e' (f = Done)"
      by (rule stmt_runsD [OF b enc(2), of n base u sc]) (use u(2,5) bb a len room_mono [OF u(4)] in auto)
    obtain bz where bz: "encode_ptr encode (Some y) = Inr bz" "length bz < 2 ^ 32" "ahead bz (m_data (ip v))"
        "(\<forall>j. f \<noteq> Jump j) \<longrightarrow> bz = bx"
    proof (cases "\<exists>j. f = Jump j")
      case True
      then have "ip v = advance_ip 0 k (ip u)" "y = b" using reaches_ip [OF p(2)] y(1) by auto
      then show ?thesis using that [of bb] enc(2) len bb True by (auto simp: encode_ptr_def)
    next
      case False
      then have "bytes_after (length bb) f = length bb" "y = x" using y(1) by (cases f; simp)+
      then show ?thesis using that [of bx] enc(3) len reaches_ahead [of base sc u bb k v] p(2) u(3) by (simp add: encode_ptr_def)
    qed
    have room: "room (ptr_sum skip_cost (Some y) + 0) (ip v)" using reaches_room [OF p(2) u(4)] by simp
    have ok: "ptr_ok skippable (Some y)" using y(2) by simp
    let ?w = "grown (length bz) (skip_cost y) [] v"
    have "node_if_else (exec n) sc (loop_of lp) s = (Inr (p, state_after (loop_of lp) f), ?w)"
      by (simp add: u(6) [OF refl] bnd_exec [OF p(1)] skip_step_run(1) [OF bz(1,2) ok bz(3) room] ret_def)
    moreover have "reaches base sc s (length bt + (bytes_after (length bb) f + length bz)) ?j ?w"
      using reaches_trans [OF u(1) reaches_then_grown [OF p(2)]] .
    moreover have "in_block base ?w sc e' (f = Done)" "result_of (heap ?w) p r"
      using p(3,4) by simp_all
    ultimately show "case_runs_to base sc s (length (bt @ bb @ bx)) ?j (e', r, f, Suc ?j, m) lp
        (exec_node n (exec n) (Some NT_IfElse) sc (loop_of lp))"
      using bz(4) unfolding case_runs_to_def prod.case exec_node_def
      by (intro exI [of _ p] exI [of _ ?w] exI [of _ "length bt + (bytes_after (length bb) f + length bz)"])
        (auto simp: bytes_after_def split: flow.split)
  qed
qed

lemma runs_else:
  assumes t: "Option.bind t (expr_value e) = Some (PBool False)" and b: "ptr_ok skippable b"
    and x: "stmt_runs lp e x (e', r, f, k, m)"
  shows "stmt_runs lp e (AstIf t b (Some x)) (e', r, f, Suc (ptr_sum expr_cost t + (k + ptr_sum skip_cost b)), m)"
proof (rule stmt_runsI)
  let ?j = "ptr_sum expr_cost t + (k + ptr_sum skip_cost b)"
  show "jumps lp f" using x by (simp add: stmt_runs_def)
  fix bs assume a: "encode (AstIf t b (Some x)) = Inr bs" "length bs < 2 ^ 32"
  then obtain bt bb bx where enc: "encode_ptr encode t = Inr bt" "encode_ptr encode b = Inr bb" "encode x = Inr bx"
      "bs = be32 (node_code NT_IfElse) @ bt @ bb @ bx" and len: "length (bt @ bb @ bx) < 2 ^ 32"
    by (auto simp: cat_eq_Inr node_bytes_eq encode_ptr_def)
  show "node_case lp e (AstIf t b (Some x)) bs (e', r, f, Suc ?j, m)"
  proof (rule node_caseI [OF enc(4) refl])
    fix base s n sc
    assume a: "size (AstIf t b (Some x)) + m \<le> n" "in_block base s sc e False"
      "get_depth (scopes s) sc + int (loop_depth (AstIf t b (Some x))) < 128"
      "ahead (bt @ bb @ bx) (m_data (ip s))" "room ?j (ip s)"
    have lt: "length bt < 2 ^ 32" "length bb < 2 ^ 32" and st: "size_option size t \<le> n" using len a(1) by simp_all
    obtain u where u: "reaches base sc s (length bt) (ptr_sum expr_cost t) u" "in_block base u sc e False"
        "ahead (bb @ bx) (m_data (ip u))" "room (k + ptr_sum skip_cost b) (ip u)"
        "get_depth (scopes u) sc = get_depth (scopes s) sc"
        "\<And>c. PBool False = PBool c \<Longrightarrow> node_if_else (exec n) sc (loop_of lp) s =
           (if c then bnd (exec n sc (loop_of lp)) (\<lambda>r'. bnd (on_ip skip_next) (\<lambda>_. ret r'))
            else bnd (on_ip skip_next) (\<lambda>_. exec n sc (loop_of lp))) u"
      by (rule if_condition [OF enc(1) lt(1) t(1) st a(2,4,5), of lp]) blast
    have bb: "ahead bb (m_data (ip u))" using u(3) by (simp add: ahead_append)
    have room: "room (ptr_sum skip_cost b + k) (ip u)" using u(4) by (simp add: add.commute)
    let ?v = "grown (length bb) (ptr_sum skip_cost b) [] u"
    note skip = skip_step_run [OF enc(2) lt(2) b bb room]
    have v: "ahead bx (m_data (ip ?v))" "in_block base ?v sc e False" using u(2,3) by (simp_all add: ahead_append)
    obtain p w where p: "exec n sc (loop_of lp) ?v = (Inr (p, state_after (loop_of lp) f), w)"
        "reaches base sc ?v (bytes_after (length bx) f) k w" "result_of (heap w) p r" "in_block base w sc e' (f = Done)"
      by (rule stmt_runsD [OF x enc(3), of n base ?v sc]) (use v u(5) skip(2) a len in auto)
    have "node_if_else (exec n) sc (loop_of lp) s = (Inr (p, state_after (loop_of lp) f), w)"
      by (simp add: u(6) [OF refl] skip(1) p(1))
    moreover have "reaches base sc s (length bt + length bb + bytes_after (length bx) f) ?j w"
      using reaches_trans [OF reaches_then_grown [OF u(1)] p(2)] by (simp add: ac_simps)
    ultimately show "case_runs_to base sc s (length (bt @ bb @ bx)) ?j (e', r, f, Suc ?j, m) lp
        (exec_node n (exec n) (Some NT_IfElse) sc (loop_of lp))"
      using p(3,4) unfolding case_runs_to_def prod.case exec_node_def
      by (intro exI [of _ p] exI [of _ w] exI [of _ "length bt + length bb + bytes_after (length bx) f"])
        (auto simp: bytes_after_def split: flow.split)
  qed
qed

end
