(* ===== verification/Compiled_Suites.thy ===== *)
theory Compiled_Suites
  imports Compiled_Statements
begin

text \<open>
  Lists of statements: as long as the function has not returned and the round of the loop goes
  on they run, behind that they are skipped.
\<close>

section \<open>Rounds\<close>

text \<open>One round of \<open>NT_StatementList\<close>.\<close>

definition stmt_round :: "recursion \<Rightarrow> nat \<Rightarrow> valueptr \<times> loop_state \<Rightarrow> (valueptr \<times> loop_state) exec" where
  "stmt_round rec sc = (\<lambda>a. bnd (on_ip charge) (\<lambda>_. (case a of (final, ls) \<Rightarrow>
       bnd (terminated sc) (\<lambda>done.
         if done \<or> ls = LS_Break \<or> ls = LS_Continue then bnd (on_ip skip_next) (\<lambda>_. ret (final, ls))
         else
           bnd (rec sc (if ls = LS_TopLevel then LS_Normal else ls)) (\<lambda>r.
           ret (fst r, if ls \<noteq> LS_None \<and> snd r \<noteq> LS_Normal then snd r else ls))))))"

lemma node_statement_list_rounds:
  "node_statement_list rec sc ls =
     bnd (on_ip rd_u32) (\<lambda>size. times (unat size) (stmt_round rec sc) (None, ls))"
  by (simp add: node_statement_list_def stmt_round_def exec_times_def)

lemma stmt_round_run:
  assumes "room 1 (ip s)" and "is_terminated (scopes s) sc = d"
  shows "stmt_round rec sc (p, ls) s =
    (if d \<or> ls = LS_Break \<or> ls = LS_Continue then bnd (on_ip skip_next) (\<lambda>_. ret (p, ls))
     else bnd (rec sc (if ls = LS_TopLevel then LS_Normal else ls))
       (\<lambda>r. ret (fst r, if ls \<noteq> LS_None \<and> snd r \<noteq> LS_Normal then snd r else ls))) (grown 0 1 [] s)"
  using assms by (simp add: stmt_round_def bnd_charge terminated_def bnd_gets)

text \<open>The code of the statements of a list.\<close>

definition code_of :: "ast option \<Rightarrow> u8 list" where
  "code_of p = projr (encode_ptr encode p)"

definition codes :: "ast option list \<Rightarrow> u8 list" where
  "codes ps = concat (map code_of ps)"

definition coded :: "ast option list \<Rightarrow> bool" where
  "coded ps \<longleftrightarrow> list_all (\<lambda>p. encode_ptr encode p = Inr (code_of p)) ps \<and> length (codes ps) < 2 ^ 32"

lemma codes_simps [simp]: "codes [] = []" "codes (p # ps) = code_of p @ codes ps" "codes (ps @ qs) = codes ps @ codes qs"
  by (simp_all add: codes_def)

lemma coded_Cons: "coded (p # ps) \<Longrightarrow> encode_ptr encode p = Inr (code_of p) \<and> length (code_of p) < 2 ^ 32 \<and> coded ps"
  by (simp add: coded_def)

lemma coded_butlast: "coded ps \<Longrightarrow> coded (butlast ps) \<and> (\<exists>xs. codes ps = codes (butlast ps) @ xs)"
proof (cases ps rule: rev_cases)
  case (snoc qs q)
  assume "coded ps"
  then show ?thesis by (simp add: snoc coded_def)
qed (simp add: coded_def)

lemma encode_codes:
  assumes "encode_list (encode_ptr encode) ps = Inr bs" and "length bs < 2 ^ 32"
  shows "bs = be32 (of_nat (length ps)) @ codes ps" and "coded ps" and "unat (of_nat (length ps) :: u32) = length ps"
proof -
  show bs: "bs = be32 (of_nat (length ps)) @ codes ps"
    using encode_list_Inr(1) [OF assms(1)] by (simp add: codes_def code_of_def [abs_def])
  show "coded ps"
    using encode_list_Inr(2) [OF assms(1)] assms(2) by (simp add: coded_def list_all_iff code_of_def bs)
  show "unat (of_nat (length ps) :: u32) = length ps"
    using encode_list_short [OF assms(1) encode_ptr_long assms(2)] by (simp add: unat_of_nat take_bit_nat_eq_self)
qed

lemma skipped_rounds:
  assumes "coded ps" and "list_all (ptr_ok skippable) ps"
    and "is_terminated (scopes s) sc \<or> ls = LS_Break \<or> ls = LS_Continue"
    and "ahead (codes ps) (m_data (ip s))" and "room (skip_costs ps + k) (ip s)"
  shows "times (length ps) (stmt_round rec sc) (q, ls) s =
    (Inr (q, ls), grown (length (codes ps)) (skip_costs ps) [] s)"
  using assms
proof (induction ps arbitrary: s)
  case Nil
  have "s = grown 0 0 [] s" by (simp add: grown_def)
  then show ?case by (simp add: skip_costs_def ret_def)
next
  case (Cons p ps)
  let ?t = "grown 0 1 [] s"
  let ?u = "grown (length (code_of p)) (ptr_sum skip_cost p) [] ?t"
  have enc: "encode_ptr encode p = Inr (code_of p)" "length (code_of p) < 2 ^ 32" "coded ps"
    using coded_Cons [OF Cons.prems(1)] by simp_all
  have ok: "ptr_ok skippable p" and ahead: "ahead (code_of p) (m_data (ip ?t))"
    using Cons.prems by (simp_all add: ahead_append)
  have room: "room 1 (ip s)" "room (ptr_sum skip_cost p + (skip_costs ps + k)) (ip ?t)"
    using Cons.prems(5) room_mono [OF Cons.prems(5), of 1]
      room_advance [of 1 "ptr_sum skip_cost p + (skip_costs ps + k)" "ip s" 0]
    by (simp_all add: skip_costs_def add.assoc)
  note skip = skip_step_run [OF enc(1,2) ok ahead room(2)]
  have "stmt_round rec sc (q, ls) s = bnd (on_ip skip_next) (\<lambda>_. ret (q, ls)) ?t"
    using Cons.prems(3) by (auto simp: stmt_round_run [OF room(1) refl])
  also have "\<dots> = (Inr (q, ls), ?u)"
    by (simp only: skip(1) ret_def)
  finally have "times (length (p # ps)) (stmt_round rec sc) (q, ls) s = times (length ps) (stmt_round rec sc) (q, ls) ?u"
    by (simp add: bnd_def)
  also have "\<dots> = (Inr (q, ls), grown (length (codes ps)) (skip_costs ps) [] ?u)"
    by (rule Cons.IH [OF enc(3)]) (use Cons.prems skip(2) in \<open>simp_all add: ahead_append\<close>)
  finally show ?case by (simp add: skip_costs_def)
qed

section \<open>What is shown of a list\<close>

definition list_depth :: "ast option list \<Rightarrow> nat" where
  "list_depth ps = foldr (\<lambda>p. max (ptr_sum loop_depth p)) ps 0"

lemma list_depth_simps [simp]:
  "list_depth [] = 0" "list_depth (p # ps) = max (ptr_sum loop_depth p) (list_depth ps)"
  by (simp_all add: list_depth_def)

lemma loop_depth_suite [simp]: "loop_depth (AstSuite ps) = list_depth ps"
  by (simp add: list_depth_def)

declare loop_depth.simps(2) [simp del]

text \<open>The state in which a list may be entered: that of its statements, or as the body of a loop.\<close>

definition list_state :: "bool \<Rightarrow> loop_state \<Rightarrow> bool" where
  "list_state lp ls \<longleftrightarrow> ls = loop_of lp \<or> lp \<and> ls = LS_TopLevel"

definition list_reaches :: "nat \<Rightarrow> nat \<Rightarrow> vm \<Rightarrow> loop_state \<Rightarrow> nat \<Rightarrow> effect \<Rightarrow> (exn + valueptr \<times> loop_state) \<times> vm \<Rightarrow> bool" where
  "list_reaches base sc s ls n w res \<longleftrightarrow> (case w of (e', r, f, k, m) \<Rightarrow>
     \<exists>p s' i. res = (Inr (p, state_after ls f), s') \<and> reaches base sc s i k s' \<and>
       ((\<forall>j. f \<noteq> Jump j) \<longrightarrow> i = n) \<and> result_of (heap s') p r \<and> in_block base s' sc e' (f = Done))"

lemma list_reachesI:
  "res = (Inr (p, state_after ls f), s') \<Longrightarrow> reaches base sc s i k s' \<Longrightarrow> (\<forall>j. f \<noteq> Jump j) \<longrightarrow> i = n \<Longrightarrow>
   result_of (heap s') p r \<Longrightarrow> in_block base s' sc e' (f = Done) \<Longrightarrow> list_reaches base sc s ls n (e', r, f, k, m) res"
  unfolding list_reaches_def by blast

definition list_runs :: "bool \<Rightarrow> env \<Rightarrow> pyval option \<Rightarrow> ast option list \<Rightarrow> effect \<Rightarrow> bool" where
  "list_runs lp e r ps w \<longleftrightarrow> (case w of (e', r', f, k, m) \<Rightarrow> jumps lp f \<and>
     (\<forall>base s n sc ls q. coded ps \<longrightarrow> (\<forall>a. Some a \<in> set ps \<longrightarrow> size a + m < n) \<longrightarrow> in_block base s sc e False \<longrightarrow>
        get_depth (scopes s) sc + int (list_depth ps) < 128 \<longrightarrow> ahead (codes ps) (m_data (ip s)) \<longrightarrow>
        room k (ip s) \<longrightarrow> result_of (heap s) q r \<longrightarrow> list_state lp ls \<longrightarrow>
        list_reaches base sc s ls (length (codes ps)) w (times (length ps) (stmt_round (exec n) sc) (q, ls) s)))"

lemma list_runsI:
  assumes "jumps lp f"
    and "\<And>base s n sc ls q. coded ps \<Longrightarrow> (\<And>a. Some a \<in> set ps \<Longrightarrow> size a + m < n) \<Longrightarrow> in_block base s sc e False \<Longrightarrow>
      get_depth (scopes s) sc + int (list_depth ps) < 128 \<Longrightarrow> ahead (codes ps) (m_data (ip s)) \<Longrightarrow>
      room k (ip s) \<Longrightarrow> result_of (heap s) q r \<Longrightarrow> list_state lp ls \<Longrightarrow>
      list_reaches base sc s ls (length (codes ps)) (e', r', f, k, m) (times (length ps) (stmt_round (exec n) sc) (q, ls) s)"
  shows "list_runs lp e r ps (e', r', f, k, m)"
  using assms unfolding list_runs_def prod.case by blast

lemma list_runsD:
  assumes "list_runs lp e r ps (e', r', f, k, m)" and "coded ps" and "\<And>a. Some a \<in> set ps \<Longrightarrow> size a + m < n"
    and "in_block base s sc e False" and "get_depth (scopes s) sc + int (list_depth ps) < 128"
    and "ahead (codes ps) (m_data (ip s))" and "room k (ip s)" and "result_of (heap s) q r" and "list_state lp ls"
  obtains p s' i where "times (length ps) (stmt_round (exec n) sc) (q, ls) s = (Inr (p, state_after ls f), s')"
    and "reaches base sc s i k s'" and "(\<forall>j. f \<noteq> Jump j) \<longrightarrow> i = length (codes ps)"
    and "result_of (heap s') p r'" and "in_block base s' sc e' (f = Done)"
  using assms unfolding list_runs_def list_reaches_def prod.case by blast

lemma list_runs_Nil: "list_runs lp e r [] (e, r, Next, 0, 0)"
  by (rule list_runsI) (auto simp: jumps_def ret_def list_reaches_def)

text \<open>The first statement of a list.\<close>

lemma first_round:
  assumes a: "stmt_runs lp e a (e1, r1, f1, k1, m1)" and "coded (Some a # ps)" and "size a + m1 < n"
    and "in_block base s sc e False" and "get_depth (scopes s) sc + int (loop_depth a) < 128"
    and "ahead (code_of (Some a) @ xs) (m_data (ip s))" and "room (Suc (k1 + k)) (ip s)" and "list_state lp ls"
  obtains q1 u where "stmt_round (exec n) sc (q, ls) s = (Inr (q1, state_after ls f1), u)"
    and "reaches base sc s (bytes_after (length (code_of (Some a))) f1) (Suc k1) u" and "result_of (heap u) q1 r1"
    and "in_block base u sc e1 (f1 = Done)" and "room k (ip u)" and "get_depth (scopes u) sc = get_depth (scopes s) sc"
proof -
  let ?t = "grown 0 1 [] s"
  have room: "room 1 (ip s)" "room (k1 + k) (ip ?t)"
    using assms(7) room_mono [OF assms(7), of 1] room_advance [of 1 "k1 + k" "ip s" 0] by simp_all
  have enc: "encode a = Inr (code_of (Some a))" "length (code_of (Some a)) < 2 ^ 32"
    using coded_Cons [OF assms(2)] by (auto simp: encode_ptr_def)
  obtain q1 u where u: "exec n sc (loop_of lp) ?t = (Inr (q1, state_after (loop_of lp) f1), u)"
      "reaches base sc ?t (bytes_after (length (code_of (Some a))) f1) k1 u"
      "result_of (heap u) q1 r1" "in_block base u sc e1 (f1 = Done)"
    by (rule stmt_runsD [OF a enc assms(3), of base ?t sc])
      (use assms(4-6) room_mono [OF room(2)] in \<open>simp_all add: ahead_append\<close>)
  have su: "reaches base sc s (bytes_after (length (code_of (Some a))) f1) (Suc k1) u"
    using reaches_trans [OF reaches_grown [of base sc s 0 1 "[]"] u(2)] by simp
  have jumps: "jumps lp f1" using a by (simp add: stmt_runs_def)
  have ls: "ls \<noteq> LS_Break" "ls \<noteq> LS_Continue" "(if ls = LS_TopLevel then LS_Normal else ls) = loop_of lp"
    using assms(8) by (auto simp: list_state_def loop_of_def split: if_splits)
  have after: "(if ls \<noteq> LS_None \<and> state_after (loop_of lp) f1 \<noteq> LS_Normal then state_after (loop_of lp) f1 else ls) =
      state_after ls f1"
    using assms(8) jumps by (cases f1) (auto simp: list_state_def loop_of_def jumps_def)
  have "stmt_round (exec n) sc (q, ls) s = (Inr (q1, state_after ls f1), u)"
    using assms(4) ls(1,2) after
    by (auto simp: stmt_round_run [OF room(1) refl] ls(3) bnd_exec [OF u(1) [unfolded One_nat_def]] ret_def in_block_def
        split: if_splits)
  then show ?thesis
    by (rule that [OF _ su u(3,4) reaches_room [OF u(2) room(2)]])
      (use reaches_depth [OF su] assms(4) in \<open>simp add: in_block_def\<close>)
qed

lemma list_runs_Next:
  assumes a: "stmt_runs lp e a (e1, r1, Next, k1, m1)" and rest: "list_runs lp e1 r1 ps (e', r', f, k, m)"
  shows "list_runs lp e r (Some a # ps) (e', r', f, Suc (k1 + k), m1 + m)"
proof (rule list_runsI)
  show "jumps lp f" using rest by (simp add: list_runs_def)
  fix base s n sc ls q
  assume b: "coded (Some a # ps)" "\<And>b. Some b \<in> set (Some a # ps) \<Longrightarrow> size b + (m1 + m) < n" "in_block base s sc e False"
    "get_depth (scopes s) sc + int (list_depth (Some a # ps)) < 128" "ahead (codes (Some a # ps)) (m_data (ip s))"
    "room (Suc (k1 + k)) (ip s)" "list_state lp ls"
  have fuel: "size a + m1 < n" and ahead: "ahead (code_of (Some a) @ codes ps) (m_data (ip s))"
    and depth: "get_depth (scopes s) sc + int (loop_depth a) < 128" using b(2) [of a] b(4,5) by simp_all
  obtain q1 u where u: "stmt_round (exec n) sc (q, ls) s = (Inr (q1, ls), u)"
      "reaches base sc s (length (code_of (Some a))) (Suc k1) u" "result_of (heap u) q1 r1" "in_block base u sc e1 False"
      "room k (ip u)" "get_depth (scopes u) sc = get_depth (scopes s) sc"
    by (rule first_round [OF a b(1) fuel b(3) depth ahead b(6,7)]) simp
  have ahead_u: "ahead (codes ps) (m_data (ip u))" by (rule reaches_ahead [OF u(2) ahead])
  have coded: "coded ps" using coded_Cons [OF b(1)] by simp
  have fuels: "size c + m < n" if "Some c \<in> set ps" for c using b(2) [of c] that by simp
  have depth': "get_depth (scopes u) sc + int (list_depth ps) < 128" using u(6) b(4) by simp
  obtain p s' i where p: "times (length ps) (stmt_round (exec n) sc) (q1, ls) u = (Inr (p, state_after ls f), s')"
      "reaches base sc u i k s'" "(\<forall>j. f \<noteq> Jump j) \<longrightarrow> i = length (codes ps)" "result_of (heap s') p r'"
      "in_block base s' sc e' (f = Done)"
    by (rule list_runsD [OF rest coded fuels u(4) depth' ahead_u u(5,3) b(7)])
  have "times (length (Some a # ps)) (stmt_round (exec n) sc) (q, ls) s = (Inr (p, state_after ls f), s')"
    using u(1) p(1) by (simp add: bnd_def)
  moreover have "reaches base sc s (length (code_of (Some a)) + i) (Suc (k1 + k)) s'"
    using reaches_trans [OF u(2) p(2)] by simp
  ultimately show "list_reaches base sc s ls (length (codes (Some a # ps))) (e', r', f, Suc (k1 + k), m1 + m)
      (times (length (Some a # ps)) (stmt_round (exec n) sc) (q, ls) s)"
    using p(3-5) by (intro list_reachesI [where i = "length (code_of (Some a)) + i"]) auto
qed

lemma list_runs_stop:
  assumes a: "stmt_runs lp e a (e1, r1, f, k1, m1)" and f: "f = Done \<and> qs = ps \<or> f = Jump j \<and> qs = butlast (Some a # ps)"
    and qs: "list_all (ptr_ok skippable) qs"
  shows "list_runs lp e r (Some a # ps) (e1, r1, f, Suc (k1 + skip_costs qs), m1)"
proof (rule list_runsI)
  show jumps: "jumps lp f" using a by (simp add: stmt_runs_def)
  fix base s n sc ls q
  assume b: "coded (Some a # ps)" "\<And>b. Some b \<in> set (Some a # ps) \<Longrightarrow> size b + m1 < n" "in_block base s sc e False"
    "get_depth (scopes s) sc + int (list_depth (Some a # ps)) < 128" "ahead (codes (Some a # ps)) (m_data (ip s))"
    "room (Suc (k1 + skip_costs qs)) (ip s)" "list_state lp ls"
  have fuel: "size a + m1 < n" and ahead: "ahead (code_of (Some a) @ codes ps) (m_data (ip s))"
    and depth: "get_depth (scopes s) sc + int (loop_depth a) < 128" using b(2) [of a] b(4,5) by simp_all
  obtain q1 u where u: "stmt_round (exec n) sc (q, ls) s = (Inr (q1, state_after ls f), u)"
      "reaches base sc s (bytes_after (length (code_of (Some a))) f) (Suc k1) u" "result_of (heap u) q1 r1"
      "in_block base u sc e1 (f = Done)" "room (skip_costs qs) (ip u)"
    by (rule first_round [OF a b(1) fuel b(3) depth ahead b(6,7)])
  have qs': "coded qs" "length qs = length ps" "ahead (codes qs) (m_data (ip u))" "f = Done \<longrightarrow> qs = ps"
  proof -
    have "coded qs \<and> length qs = length ps \<and> ahead (codes qs) (m_data (ip u))"
    proof (cases "f = Done")
      case True
      then have "reaches base sc s (length (code_of (Some a))) (Suc k1) u" using u(2) by simp
      from reaches_ahead [OF this ahead] show ?thesis using True f coded_Cons [OF b(1)] by auto
    next
      case False
      then have q: "qs = butlast (Some a # ps)" and "ip u = advance_ip 0 (Suc k1) (ip s)"
        using f reaches_ip [OF u(2)] by auto
      moreover obtain xs where "codes (Some a # ps) = codes (butlast (Some a # ps)) @ xs" "coded qs"
        using coded_butlast [OF b(1)] q by auto
      ultimately show ?thesis using b(5) by (simp add: ahead_append)
    qed
    then show "coded qs" "length qs = length ps" "ahead (codes qs) (m_data (ip u))" "f = Done \<longrightarrow> qs = ps"
      using f by auto
  qed
  have stop: "is_terminated (scopes u) sc \<or> state_after ls f = LS_Break \<or> state_after ls f = LS_Continue"
    using f jumps u(4) by (auto simp: in_block_def jumps_def)
  have room: "room (skip_costs qs + 0) (ip u)" using u(5) by simp
  let ?w = "grown (length (codes qs)) (skip_costs qs) [] u"
  have "times (length ps) (stmt_round (exec n) sc) (q1, state_after ls f) u = (Inr (q1, state_after ls f), ?w)"
    using skipped_rounds [OF qs'(1) qs stop qs'(3) room] qs'(2) by simp
  then have "times (length (Some a # ps)) (stmt_round (exec n) sc) (q, ls) s = (Inr (q1, state_after ls f), ?w)"
    using u(1) by (simp add: bnd_def)
  moreover have "reaches base sc s (bytes_after (length (code_of (Some a))) f + length (codes qs)) (Suc (k1 + skip_costs qs)) ?w"
    using reaches_then_grown [OF u(2)] by simp
  ultimately show "list_reaches base sc s ls (length (codes (Some a # ps))) (e1, r1, f, Suc (k1 + skip_costs qs), m1)
      (times (length (Some a # ps)) (stmt_round (exec n) sc) (q, ls) s)"
    using u(3,4) qs'(4) f
    by (intro list_reachesI [where i = "bytes_after (length (code_of (Some a))) f + length (codes qs)"
          and s' = ?w and p = q1]) auto
qed

section \<open>Suites\<close>

lemma size_suite: "Some a \<in> set ps \<Longrightarrow> size a + m < n" if "size (AstSuite ps) + m \<le> n"
proof -
  assume "Some a \<in> set ps"
  then have "size_option size (Some a) \<le> size_list (size_option size) ps" by (rule size_list_estimation') simp
  then show ?thesis using that by simp
qed

lemma suite_runs:
  assumes ps: "list_runs lp e None ps (e', r, f, k, m)" and "encode_list (encode_ptr encode) ps = Inr bs"
    and "length bs < 2 ^ 32" and "size (AstSuite ps) + m \<le> n" and "in_block base s sc e False"
    and "get_depth (scopes s) sc + int (list_depth ps) < 128" and "ahead bs (m_data (ip s))" and "room k (ip s)"
    and "list_state lp ls"
  shows "list_reaches base sc s ls (length bs) (e', r, f, k, m) (node_statement_list (exec n) sc ls s)"
proof -
  note bs = encode_codes [OF assms(2,3)]
  let ?t = "grown 4 0 [] s"
  have ahead: "ahead (codes ps) (m_data (ip ?t))" and room: "room k (ip ?t)"
    using assms(7,8) room_advance [of 0 k "ip s" 4] by (simp_all add: bs(1) ahead_append)
  have count: "bnd (on_ip rd_u32) f s = f (of_nat (length ps)) ?t" for f
    using bnd_eats [OF eats_u32, of "of_nat (length ps)" s f] assms(7) room_mono [OF assms(8)]
    by (simp add: bs(1) ahead_append)
  have rounds: "node_statement_list (exec n) sc ls s = times (length ps) (stmt_round (exec n) sc) (None, ls) ?t"
    by (simp add: node_statement_list_rounds count bs(3))
  have block: "in_block base ?t sc e False" "get_depth (scopes ?t) sc + int (list_depth ps) < 128"
    "result_of (heap ?t) None None" using assms(5,6) by simp_all
  obtain p s' i where p: "times (length ps) (stmt_round (exec n) sc) (None, ls) ?t = (Inr (p, state_after ls f), s')"
      "reaches base sc ?t i k s'" "(\<forall>j. f \<noteq> Jump j) \<longrightarrow> i = length (codes ps)" "result_of (heap s') p r"
      "in_block base s' sc e' (f = Done)"
    by (rule list_runsD [OF ps bs(2) size_suite [OF assms(4)] block(1,2) ahead room block(3) assms(9)])
  have "reaches base sc s (4 + i) k s'"
    using reaches_trans [OF reaches_grown [of base sc s 4 0 "[]"] p(2)] by simp
  then show ?thesis
    using p by (intro list_reachesI [where i = "4 + i"]) (auto simp: rounds bs(1))
qed

lemma runs_suite:
  assumes ps: "list_runs lp e None ps (e', r, f, k, m)"
  shows "stmt_runs lp e (AstSuite ps) (e', r, f, Suc k, m)"
proof (rule stmt_runsI)
  show "jumps lp f" using ps by (simp add: list_runs_def)
  fix bs assume a: "encode (AstSuite ps) = Inr bs" "length bs < 2 ^ 32"
  then obtain bp where p: "encode_list (encode_ptr encode) ps = Inr bp" "bs = be32 (node_code NT_StatementList) @ bp"
      "length bp < 2 ^ 32"
    by (auto simp: cat_eq_Inr node_bytes_eq)
  show "node_case lp e (AstSuite ps) bs (e', r, f, Suc k, m)"
  proof (rule node_caseI [OF p(2) refl])
    fix base s n sc
    assume b: "size (AstSuite ps) + m \<le> n" "in_block base s sc e False"
      "get_depth (scopes s) sc + int (loop_depth (AstSuite ps)) < 128" "ahead bp (m_data (ip s))" "room k (ip s)"
    have depth: "get_depth (scopes s) sc + int (list_depth ps) < 128" using b(3) by simp
    have ls: "list_state lp (loop_of lp)" by (simp add: list_state_def)
    from suite_runs [OF ps p(1,3) b(1,2) depth b(4,5) ls]
    show "case_runs_to base sc s (length bp) k (e', r, f, Suc k, m) lp
        (exec_node n (exec n) (Some NT_StatementList) sc (loop_of lp))"
      by (simp add: exec_node_def case_runs_to_def list_reaches_def)
  qed
qed

end
