(* ===== verification/Compiled_Loops.thy ===== *)
theory Compiled_Loops
  imports Compiled_Suites Container_Laws
begin

text \<open>
  Loops: the body of a round runs in a scope of its own, the read position is put back for the
  next round, and the variables the body made are dropped with its scope.
\<close>

section \<open>The scope of a round\<close>

definition body_scope :: "nat \<Rightarrow> vm \<Rightarrow> scope" where
  "body_scope sc s = root_scope\<lparr>m_parent := Some sc, depth := depth (scopes s ! sc) + 1\<rparr>"

definition pushed :: "nat \<Rightarrow> vm \<Rightarrow> vm" where
  "pushed sc s = s\<lparr>scopes := scopes s @ [body_scope sc s]\<rparr>"

lemma pushed_simps [simp]:
  "heap (pushed sc s) = heap s" "ip (pushed sc s) = ip s" "scopes (pushed sc s) = scopes s @ [body_scope sc s]"
  by (simp_all add: pushed_def)

lemma body_scope_simps [simp]:
  "m_parent (body_scope sc s) = Some sc" "m_values (body_scope sc s) = Map.empty" "\<not> m_require_global (body_scope sc s)"
  "\<not> m_terminated (body_scope sc s)" "depth (body_scope sc s) = get_depth (scopes s) sc + 1"
  by (simp_all add: body_scope_def root_scope_def get_depth_def)

lemma push_child_run:
  "get_depth (scopes s) sc + 1 < 128 \<Longrightarrow> push_child sc s = (Inr (length (scopes s)), pushed sc s)"
  by (simp add: push_child_def bnd_gets child_scope_def Let_def get_depth_def lift_sum_def push_scope_def pushed_def
      body_scope_def bnd_def gets_def)

lemma local_scope_run:
  assumes "get_depth (scopes s) sc + 1 < 128" and "f (length (scopes s)) (pushed sc s) = (r, s')"
  shows "local_scope sc f s = (r, s'\<lparr>scopes := take (length (scopes s)) (scopes s')\<rparr>)"
  using assms by (simp add: local_scope_def bnd_Inr [where m = "push_child sc", OF push_child_run])

lemma in_block_pushed:
  assumes "in_block base s sc e False"
  shows "in_block base (pushed sc s) (length (scopes s)) e False"
    and "get_depth (scopes (pushed sc s)) (length (scopes s)) = get_depth (scopes s) sc + 1"
proof -
  have a: "block_scope (scopes s) base sc" "sc < length (scopes s)" using assms by (simp_all add: in_block_def)
  note push = block_scope_push [of "scopes s" base sc "body_scope sc s", OF a]
  have "scope_knows (scopes s @ [body_scope sc s]) (heap s) (length (scopes s)) e"
    using assms push(2) by (simp add: in_block_def scope_knows_def)
  then show "in_block base (pushed sc s) (length (scopes s)) e False"
    using assms push(1) by (simp add: in_block_def get_depth_def is_terminated_def)
  show "get_depth (scopes (pushed sc s)) (length (scopes s)) = get_depth (scopes s) sc + 1"
    by (simp add: get_depth_def)
qed

text \<open>Leaving it: the variables from before are kept, with the values they have now.\<close>

definition popped :: "vm \<Rightarrow> vm \<Rightarrow> vm" where
  "popped s w = w\<lparr>scopes := take (length (scopes s)) (scopes w)\<rparr>"

lemma popped_simps [simp]:
  "heap (popped s w) = heap w" "ip (popped s w) = ip w" "scopes (popped s w) = take (length (scopes s)) (scopes w)"
  by (simp_all add: popped_def)

lemma in_block_popped:
  assumes s: "in_block base s sc e False" and w: "in_block base w (length (scopes s)) e1 d"
    and sw: "reaches base (length (scopes s)) (pushed sc s) n k w"
  shows "in_block base (popped s w) sc (e1 |` dom e) False" and "reaches base sc s n k (popped s w)"
proof -
  let ?b = "length (scopes s)"
  have sc: "sc < ?b" and base: "base < ?b" using s in_block_base [OF s] by (simp_all add: in_block_def)
  obtain h ss where ws: "w = (grown n k h (pushed sc s))\<lparr>scopes := ss\<rparr>"
      "scopes_step base ?b (scopes s @ [body_scope sc s]) ss"
    using sw by (auto simp: reaches_def)
  have shape: "same_shape (scopes s @ [body_scope sc s]) ss" and len: "length ss = Suc ?b"
    using ws(2) same_shape_length by (auto simp: scopes_step_def)
  have step: "scopes_step base sc (scopes s) (take ?b ss)"
    using scopes_step_block [OF ws(2)] base by simp
  have "popped s w = (grown n k h s)\<lparr>scopes := take ?b ss\<rparr>"
    by (simp add: popped_def ws(1) grown_def pushed_def)
  then show r: "reaches base sc s n k (popped s w)"
    unfolding reaches_def using step by blast
  have parent: "m_parent (ss ! ?b) = Some sc"
    using same_shape_nth [OF shape, of ?b] by simp
  have b: "block_scope ss base ?b" "?b = length (take ?b ss)" using w len by (simp_all add: in_block_def ws(1))
  note pop = block_scope_pop [OF b base parent]
  have "is_terminated (take ?b ss) sc = is_terminated (scopes s) sc"
    using ws(2) sc by (auto simp: scopes_step_def is_terminated_def nth_append)
  moreover have "scope_knows (take ?b ss) (heap w) sc (e1 |` dom e)"
    unfolding scope_knows_def
  proof (intro allI impI)
    fix m v assume "(e1 |` dom e) m = Some v"
    then have m: "e1 m = Some v" "m \<in> dom e" by (auto simp: restrict_map_def split: if_splits)
    then have "has_value (scopes s) sc m"
      using s find_value_bound by (fastforce simp: in_block_def scope_knows_def)
    then have "has_value (scopes s @ [body_scope sc s]) sc m"
      using has_value_cong [of sc "scopes s @ [body_scope sc s]" "scopes s" m] sc by (simp add: nth_append)
    then have "has_value ss sc m"
      by (rule has_value_mono [OF shape, rotated 2]) (use sc ws(2) in \<open>auto simp: scopes_step_def\<close>)
    from pop(2) [OF this] show "m \<noteq> ''None'' \<and> builtin_of m = None \<and> (\<exists>p. find_value (take ?b ss) sc m = Inr p \<and> points_to (heap w) p v)"
      using w m(1) by (auto simp: in_block_def scope_knows_def ws(1))
  qed
  ultimately show "in_block base (popped s w) sc (e1 |` dom e) False"
    using s w pop(1) sc len reaches_depth [OF r sc] by (simp add: in_block_def ws(1) get_depth_def)
qed

text \<open>What the loop does with a body that returned.\<close>

lemma after_body_popped:
  assumes s: "in_block base s sc e False" and w: "in_block base w (length (scopes s)) e1 (f = Done)"
    and sw: "reaches base (length (scopes s)) (pushed sc s) n k w"
  obtains w' where "after_body sc (length (scopes s)) rv (p, ls) w = (Inr (ls, if f = Done then p else rv), w')"
    and "in_block base (popped s w') sc (e1 |` dom e) (f = Done)" and "reaches base sc s n k (popped s w')"
    and "heap w' = heap w"
proof (cases "f = Done")
  case False
  show ?thesis
    by (rule that [of w]) (use in_block_popped [OF s w sw] w False in
        \<open>simp_all add: after_body_def terminated_def bnd_gets in_block_def ret_def\<close>)
next
  case True
  let ?w = "w\<lparr>scopes := terminate (scopes w) sc\<rparr>"
  have pop: "popped s ?w = (popped s w)\<lparr>scopes := terminate (scopes (popped s w)) sc\<rparr>"
    using s by (simp add: popped_def terminate_def take_update_swap in_block_def)
  note popped = in_block_popped [OF s w sw]
  show ?thesis
  proof (rule that [of ?w])
    show "after_body sc (length (scopes s)) rv (p, ls) w = (Inr (ls, if f = Done then p else rv), ?w)"
      using w True by (simp add: after_body_def terminated_def bnd_gets in_block_def bnd_terminate ret_def)
    show "in_block base (popped s ?w) sc (e1 |` dom e) (f = Done)"
      using terminate_block(1) [OF popped(1)] True by (simp add: pop)
    show "reaches base sc s n k (popped s ?w)"
      using reaches_trans [OF popped(2) terminate_block(2) [OF popped(1)]] by (simp add: pop)
  qed simp
qed

section \<open>The body of a round\<close>

lemma node_ahead: "ahead (be32 (node_code t) @ xs) (m_data (ip s)) \<Longrightarrow> ahead xs (m_data (ip (grown 4 k h s)))"
  by (simp add: ahead_append)

text \<open>It is entered as \<open>LS_TopLevel\<close>, so when it ends the position is back at its beginning.\<close>

lemma body_runs:
  assumes ps: "list_runs True e None ps (e', r, f, k, m)" and code: "encode (AstSuite ps) = Inr bs" "length bs < 2 ^ 32"
    and fuel: "size (AstSuite ps) + m < n" and s: "in_block base s sc e False"
    and depth: "get_depth (scopes s) sc + int (list_depth ps) < 128" and ahead: "ahead bs (m_data (ip s))"
    and room: "room (Suc k) (ip s)"
  obtains p s' where "exec n sc LS_TopLevel s = (Inr (p, state_after LS_TopLevel f), s')"
    and "reaches base sc s 0 (Suc k) s'" and "result_of (heap s') p r" and "in_block base s' sc e' (f = Done)"
proof -
  obtain bp where p: "encode_list (encode_ptr encode) ps = Inr bp" "bs = be32 (node_code NT_StatementList) @ bp"
      "length bp < 2 ^ 32"
    using code by (auto simp: cat_eq_Inr node_bytes_eq)
  obtain l where n: "n = Suc l" "size (AstSuite ps) + m \<le> l" using fuel by (cases n) auto
  let ?t = "grown 4 1 [] s"
  have t: "in_block base ?t sc e False" "get_depth (scopes ?t) sc + int (list_depth ps) < 128" "ahead bp (m_data (ip ?t))"
    and room': "room k (ip ?t)" "room 1 (ip s)"
    using s depth node_ahead [of NT_StatementList bp] ahead room_advance [of 1 k "ip s" 4] room room_mono [OF room, of 1]
    by (simp_all add: p(2))
  have ls: "list_state True LS_TopLevel" by (simp add: list_state_def)
  obtain q u i where u: "node_statement_list (exec l) sc LS_TopLevel ?t = (Inr (q, state_after LS_TopLevel f), u)"
      "reaches base sc ?t i k u" "result_of (heap u) q r" "in_block base u sc e' (f = Done)"
    using suite_runs [OF ps p(1,3) n(2) t room'(1) ls] unfolding list_reaches_def prod.case by blast
  have su: "reaches base sc s (4 + i) (1 + k) u" by (rule reaches_trans [OF reaches_grown u(2)])
  have short: "length (bytecode (m_data (ip s))) < 2 ^ 32" and deep: "get_depth (scopes s) sc \<noteq> 0"
    using s by (simp_all add: in_block_def)
  have "jumps True f" using ps by (simp add: list_runs_def)
  then have left: "state_after LS_TopLevel f \<noteq> LS_None \<and> state_after LS_TopLevel f \<noteq> LS_Normal"
    by (cases f) (auto simp: jumps_def)
  have node: "exec_node l (exec l) (Some NT_StatementList) sc LS_TopLevel ?t = (Inr (q, state_after LS_TopLevel f), u)"
    using u(1) by (simp add: exec_node_def)
  let ?v = "u\<lparr>ip := advance_ip 0 (1 + k) (ip s)\<rparr>"
  have "exec n sc LS_TopLevel s = (Inr (q, state_after LS_TopLevel f), ?v)"
    unfolding n(1)
    by (rule exec_node_jump [OF ahead [unfolded p(2)] room'(2) short deep node left reaches_ip [OF su]])
  moreover have "reaches base sc s 0 (Suc k) ?v" using reaches_back [OF su] by simp
  moreover have "in_block base ?v sc e' (f = Done)" using u(4) short by (intro in_block_back) (simp_all add: skip_bytes_def)
  ultimately show ?thesis using u(3) by (intro that) auto
qed

text \<open>Behind a \<open>continue\<close> it is skipped, statement by statement.\<close>

lemma body_idle:
  assumes code: "encode (AstSuite ps) = Inr bs" "length bs < 2 ^ 32" and ok: "list_all (ptr_ok skippable) ps"
    and fuel: "0 < n" and s: "in_block base s sc e False" and ahead: "ahead bs (m_data (ip s))"
    and room: "room (Suc (skip_costs ps)) (ip s)"
  shows "exec n sc LS_Continue s = (Inr (None, LS_Continue), grown 0 (Suc (skip_costs ps)) [] s)"
proof -
  obtain bp where p: "encode_list (encode_ptr encode) ps = Inr bp" "bs = be32 (node_code NT_StatementList) @ bp"
      "length bp < 2 ^ 32"
    using code by (auto simp: cat_eq_Inr node_bytes_eq)
  note bp = encode_codes [OF p(1,3)]
  obtain l where n: "n = Suc l" using fuel by (cases n) auto
  let ?t = "grown 4 1 [] s"
  let ?u = "grown 4 0 [] ?t"
  let ?w = "grown (length (codes ps)) (skip_costs ps) [] ?u"
  have t: "ahead bp (m_data (ip ?t))" and room': "room (skip_costs ps) (ip ?t)" "room 1 (ip s)"
    using node_ahead [of NT_StatementList bp] ahead room_advance [of 1 "skip_costs ps" "ip s" 4] room room_mono [OF room, of 1]
    by (simp_all add: p(2))
  have count: "bnd (on_ip rd_u32) f ?t = f (of_nat (length ps)) ?u" for f
    using bnd_eats [OF eats_u32, of "of_nat (length ps)" ?t f] t room_mono [OF room'(1)]
    by (simp add: bp(1) ahead_append del: grown_grown grown_simps)
  have u: "ahead (codes ps) (m_data (ip ?u))" and room_u: "room (skip_costs ps + 0) (ip ?u)"
    using t room'(1) room_advance [of 0 "skip_costs ps" "ip ?t" 4] by (simp_all add: bp(1) ahead_append)
  have "exec_node l (exec l) (Some NT_StatementList) sc LS_Continue ?t =
      times (length ps) (stmt_round (exec l) sc) (None, LS_Continue) ?u"
    by (simp add: exec_node_def node_statement_list_rounds count [unfolded One_nat_def] bp(3) del: grown_grown)
  also have "\<dots> = (Inr (None, LS_Continue), ?w)"
    by (rule skipped_rounds [OF bp(2) ok _ u room_u]) simp
  finally have node: "exec_node l (exec l) (Some NT_StatementList) sc LS_Continue ?t = (Inr (None, LS_Continue), ?w)" .
  have ip: "ip ?w = advance_ip (4 + (4 + length (codes ps))) (1 + skip_costs ps) (ip s)" by simp
  have short: "length (bytecode (m_data (ip s))) < 2 ^ 32" and deep: "get_depth (scopes s) sc \<noteq> 0"
    using s by (simp_all add: in_block_def)
  show ?thesis
    unfolding n
    using exec_node_jump [OF ahead [unfolded p(2)] room'(2) short deep node _ ip] by (simp add: grown_def)
qed

section \<open>\<open>while\<close>\<close>

lemma bnd_terminated: "bnd (terminated sc) f s = f (is_terminated (scopes s) sc) s"
  by (simp add: terminated_def bnd_gets)

text \<open>
  A round starts in a state \<open>u\<close> reached from the state \<open>s\<close> in front of the condition: the position
  is put back to that of \<open>s\<close>.
\<close>

definition loop_at :: "nat \<Rightarrow> vm \<Rightarrow> vm \<Rightarrow> nat \<Rightarrow> env \<Rightarrow> ast option \<Rightarrow> u8 list \<Rightarrow> ast option list \<Rightarrow> u8 list \<Rightarrow> nat \<Rightarrow> bool" where
  "loop_at base s u sc e t bt ps bb n \<longleftrightarrow>
     (\<exists>i j. reaches base sc s i j u) \<and> in_block base u sc e False \<and> get_depth (scopes u) sc + int (Suc (list_depth ps)) < 128 \<and>
     ahead (bt @ bb) (m_data (ip s)) \<and> encode_ptr encode t = Inr bt \<and> encode (AstSuite ps) = Inr bb \<and>
     length (bt @ bb) < 2 ^ 32 \<and> size_option size t \<le> n"

lemma while_test:
  assumes "loop_at base s u sc e t bt ps bb n" and "reaches base sc s i j u" and v: "Option.bind t (expr_value e) = Some v"
    and room: "room (j + (Suc (ptr_sum expr_cost t) + k)) (ip s)" and ls: "ls \<noteq> LS_Break"
  obtains w where "reaches base sc s (length bt) (j + Suc (ptr_sum expr_cost t)) w" and "in_block base w sc e False"
    and "ahead bb (m_data (ip w))" and "room k (ip w)" and "get_depth (scopes w) sc = get_depth (scopes u) sc"
    and "while_step (exec n) sc (bs_pos (m_data (ip s))) (ls, None) u =
      (if \<not> truth v then ret (Inr None)
       else bnd (local_scope sc (\<lambda>body. bnd (exec n body ls) (after_body sc body None))) (\<lambda>st. ret (Inl st))) w"
proof -
  have u: "in_block base u sc e False" and ahead: "ahead (bt @ bb) (m_data (ip s))" "ahead bt (m_data (ip s))"
    and code: "encode_ptr encode t = Inr bt" "length bt < 2 ^ 32" and fuel: "size_option size t \<le> n"
    using assms(1) by (simp_all add: loop_at_def ahead_append)
  have ip: "ip u = advance_ip i j (ip s)" by (rule reaches_ip [OF assms(2)])
  have short: "length (bytecode (m_data (ip s))) < 2 ^ 32" using u by (simp add: in_block_def ip skip_bytes_def)
  have room_u: "room 1 (ip u)"
    using reaches_room [OF assms(2) room] room_mono [of "Suc (ptr_sum expr_cost t) + k" "ip u" 1] by simp
  let ?c = "grown 0 1 [] u"
  let ?b = "u\<lparr>ip := advance_ip 0 (j + 1) (ip s)\<rparr>"
  have "reaches base sc s (i + 0) (j + 1) ?c" by (rule reaches_then_grown [OF assms(2)])
  from reaches_back [OF this] have sb: "reaches base sc s 0 (j + 1) ?b" by (simp add: grown_def)
  have cip: "ip ?c = advance_ip i (j + 1) (ip s)" by (simp add: ip)
  have moved: "bnd (on_ip (move_to (bs_pos (m_data (ip s))))) f ?c = f () ?b" for f
    using move_back [OF ahead(2) short cip, of f] by (simp add: grown_def)
  have b: "in_block base ?b sc e False" using in_block_back [OF u] short by (simp add: skip_bytes_def)
  have "room (j + 1 + (ptr_sum expr_cost t + k)) (ip s)" using room by simp
  from reaches_room [OF sb this] have room_b: "room (ptr_sum expr_cost t + k) (ip ?b)" .
  have "ahead bt (m_data (ip ?b))" using ahead(2) by simp
  then obtain q h where q: "exec n sc LS_None ?b = (Inr (q, LS_None), grown (length bt) (ptr_sum expr_cost t) h ?b)"
      "points_to (heap ?b @ h) q v" "room k (ip (grown (length bt) (ptr_sum expr_cost t) h ?b))"
    using expr_step [OF code v fuel b _ room_b quiet_simps(1)] by blast
  let ?w = "grown (length bt) (ptr_sum expr_cost t) h ?b"
  have sw: "reaches base sc s (length bt) (j + Suc (ptr_sum expr_cost t)) ?w"
    using reaches_then_grown [OF sb, of "length bt" "ptr_sum expr_cost t" h] by simp
  have qv: "points_to (heap ?w) q v" using q(2) by simp
  show ?thesis
  proof (rule that [OF sw _ reaches_ahead [OF sw ahead(1)] q(3)])
    show "while_step (exec n) sc (bs_pos (m_data (ip s))) (ls, None) u =
      (if \<not> truth v then ret (Inr None)
       else bnd (local_scope sc (\<lambda>body. bnd (exec n body ls) (after_body sc body None))) (\<lambda>st. ret (Inl st))) ?w"
      using u ls unfolding while_step_def bnd_terminated
      by (simp only: in_block_def bnd_charge [OF room_u] moved bnd_eval [OF q(1)] truthy_value [OF qv] fst_conv snd_conv
          simp_thms if_False)
  qed (use b in simp_all)
qed

lemma while_round:
  assumes at: "loop_at base s u sc e t bt ps bb n" and su: "reaches base sc s i j u"
    and t: "Option.bind t (expr_value e) = Some v" "truth v" and ps: "list_runs True e None ps (e1, r1, f1, k1, m1)"
    and fuel: "size (AstSuite ps) + m1 < n" and room: "room (j + (Suc (ptr_sum expr_cost t + Suc k1) + k)) (ip s)"
  obtains p w where "while_step (exec n) sc (bs_pos (m_data (ip s))) (LS_TopLevel, None) u =
      (Inr (Inl (state_after LS_TopLevel f1, if f1 = Done then p else None)), w)"
    and "reaches base sc s (length bt) (j + Suc (ptr_sum expr_cost t + Suc k1)) w" and "result_of (heap w) p r1"
    and "in_block base w sc (e1 |` dom e) (f1 = Done)" and "get_depth (scopes w) sc = get_depth (scopes u) sc"
proof -
  have room': "room (j + (Suc (ptr_sum expr_cost t) + (Suc k1 + k))) (ip s)" using room by (simp add: ac_simps)
  obtain x where x: "reaches base sc s (length bt) (j + Suc (ptr_sum expr_cost t)) x" "in_block base x sc e False"
      "ahead bb (m_data (ip x))" "room (Suc k1 + k) (ip x)" "get_depth (scopes x) sc = get_depth (scopes u) sc"
      "while_step (exec n) sc (bs_pos (m_data (ip s))) (LS_TopLevel, None) u =
        (if \<not> truth v then ret (Inr None)
         else bnd (local_scope sc (\<lambda>body. bnd (exec n body LS_TopLevel) (after_body sc body None))) (\<lambda>st. ret (Inl st))) x"
    by (rule while_test [OF at su t(1) room', of LS_TopLevel]) simp_all
  have code: "encode (AstSuite ps) = Inr bb" "length bb < 2 ^ 32" and deep: "get_depth (scopes x) sc + int (Suc (list_depth ps)) < 128"
    using at x(5) by (simp_all add: loop_at_def)
  let ?y = "pushed sc x"
  let ?b = "length (scopes x)"
  have y: "in_block base ?y ?b e False" "get_depth (scopes ?y) ?b + int (list_depth ps) < 128"
      "ahead bb (m_data (ip ?y))" "room (Suc k1) (ip ?y)"
    using in_block_pushed [OF x(2)] deep x(3) room_mono [OF x(4), of "Suc k1"] by simp_all
  obtain p z where z: "exec n ?b LS_TopLevel ?y = (Inr (p, state_after LS_TopLevel f1), z)"
      "reaches base ?b ?y 0 (Suc k1) z" "result_of (heap z) p r1" "in_block base z ?b e1 (f1 = Done)"
    by (rule body_runs [OF ps code fuel y])
  obtain w where w: "after_body sc ?b None (p, state_after LS_TopLevel f1) z =
        (Inr (state_after LS_TopLevel f1, if f1 = Done then p else None), w)"
      "in_block base (popped x w) sc (e1 |` dom e) (f1 = Done)" "reaches base sc x 0 (Suc k1) (popped x w)" "heap w = heap z"
    by (rule after_body_popped [OF x(2) z(4,2)])
  have "bnd (exec n ?b LS_TopLevel) (after_body sc ?b None) ?y =
      (Inr (state_after LS_TopLevel f1, if f1 = Done then p else None), w)"
    by (simp only: bnd_exec [OF z(1)] w(1))
  from local_scope_run [of x sc "\<lambda>body. bnd (exec n body LS_TopLevel) (after_body sc body None)", OF _ this] deep
  have "local_scope sc (\<lambda>body. bnd (exec n body LS_TopLevel) (after_body sc body None)) x =
      (Inr (state_after LS_TopLevel f1, if f1 = Done then p else None), popped x w)"
    by (simp add: popped_def)
  then have "while_step (exec n) sc (bs_pos (m_data (ip s))) (LS_TopLevel, None) u =
      (Inr (Inl (state_after LS_TopLevel f1, if f1 = Done then p else None)), popped x w)"
    unfolding x(6) using t(2) by (simp add: bnd_def ret_def)
  moreover have sw: "reaches base sc s (length bt) (j + Suc (ptr_sum expr_cost t + Suc k1)) (popped x w)"
    using reaches_trans [OF x(1) w(3)] by (simp add: add.assoc)
  moreover have "get_depth (scopes (popped x w)) sc = get_depth (scopes u) sc"
    using reaches_depth [OF w(3)] x(2,5) by (simp add: in_block_def)
  ultimately show ?thesis using w(2) z(3) by (intro that [of p "popped x w"]) (simp_all add: w(4))
qed

text \<open>All rounds.\<close>

definition while_runs :: "loop_state \<Rightarrow> env \<Rightarrow> ast option \<Rightarrow> ast option list \<Rightarrow> effect \<Rightarrow> bool" where
  "while_runs ls e t ps w \<longleftrightarrow> (case w of (e', r, f, k, m) \<Rightarrow> jumps False f \<and>
     (\<forall>base s u n l sc i j bt bb. loop_at base s u sc e t bt ps bb n \<longrightarrow> reaches base sc s i j u \<longrightarrow> ls \<noteq> LS_Break \<longrightarrow>
        size (AstSuite ps) + m < n \<longrightarrow> m \<le> l \<longrightarrow> room (j + k) (ip s) \<longrightarrow>
        (\<exists>p v. loop_fuel l (while_step (exec n) sc (bs_pos (m_data (ip s)))) (ls, None) u = (Inr p, v) \<and>
           reaches base sc s (length bt) (j + k) v \<and> result_of (heap v) p r \<and> in_block base v sc e' (f = Done))))"

lemma while_runsI:
  assumes "jumps False f"
    and "\<And>base s u n l sc i j bt bb. loop_at base s u sc e t bt ps bb n \<Longrightarrow> reaches base sc s i j u \<Longrightarrow> ls \<noteq> LS_Break \<Longrightarrow>
      size (AstSuite ps) + m < n \<Longrightarrow> m \<le> Suc l \<Longrightarrow> room (j + k) (ip s) \<Longrightarrow>
      \<exists>p v. loop_fuel (Suc l) (while_step (exec n) sc (bs_pos (m_data (ip s)))) (ls, None) u = (Inr p, v) \<and>
        reaches base sc s (length bt) (j + k) v \<and> result_of (heap v) p r \<and> in_block base v sc e' (f = Done)"
    and "0 < m"
  shows "while_runs ls e t ps (e', r, f, k, m)"
  unfolding while_runs_def prod.case
proof (intro conjI allI impI)
  fix base s u n l sc i j bt bb
  assume "loop_at base s u sc e t bt ps bb n" "reaches base sc s i j u" "ls \<noteq> LS_Break" "size (AstSuite ps) + m < n"
    "m \<le> l" "room (j + k) (ip s)"
  with assms(2) [of base s u sc bt bb n i j "l - 1"] assms(3)
  show "\<exists>p v. loop_fuel l (while_step (exec n) sc (bs_pos (m_data (ip s)))) (ls, None) u = (Inr p, v) \<and>
      reaches base sc s (length bt) (j + k) v \<and> result_of (heap v) p r \<and> in_block base v sc e' (f = Done)"
    by simp
qed (rule assms(1))

lemma loop_fuel_next: "f a s = (Inr (Inl a'), s') \<Longrightarrow> loop_fuel (Suc n) f a s = loop_fuel n f a' s'"
  by (simp add: bnd_def)

lemma loop_fuel_end: "f a s = (Inr (Inr x), s') \<Longrightarrow> loop_fuel (Suc n) f a s = (Inr x, s')"
  by (simp add: bnd_def ret_def)

declare loop_fuel.simps [simp del]

lemmas while_fuel =
  loop_fuel_next [where f = "while_step rec sc start"] loop_fuel_end [where f = "while_step rec sc start"]
  for rec sc start

lemma while_runs_end:
  assumes "Option.bind t (expr_value e) = Some v" and "\<not> truth v"
  shows "while_runs ls e t ps (e, None, Next, Suc (ptr_sum expr_cost t), Suc 0)"
proof (rule while_runsI)
  fix base s u n l sc i j bt bb
  assume a: "loop_at base s u sc e t bt ps bb n" "reaches base sc s i j u" "ls \<noteq> LS_Break"
    "room (j + Suc (ptr_sum expr_cost t)) (ip s)"
  have room: "room (j + (Suc (ptr_sum expr_cost t) + 0)) (ip s)" using a(4) by simp
  obtain w where w: "reaches base sc s (length bt) (j + Suc (ptr_sum expr_cost t)) w" "in_block base w sc e False"
      "while_step (exec n) sc (bs_pos (m_data (ip s))) (ls, None) u = (Inr (Inr None), w)"
    by (rule while_test [OF a(1,2) assms(1) room a(3)]) (use assms(2) in \<open>simp add: ret_def\<close>)
  then show "\<exists>p v. loop_fuel (Suc l) (while_step (exec n) sc (bs_pos (m_data (ip s)))) (ls, None) u = (Inr p, v) \<and>
      reaches base sc s (length bt) (j + Suc (ptr_sum expr_cost t)) v \<and> result_of (heap v) p None \<and>
      in_block base v sc e (Next = Done)"
    using while_fuel(2) [OF w(3)] by simp
qed (simp_all add: jumps_def)

text \<open>Leaving the loop at the beginning of the round behind a \<open>break\<close> or a \<open>return\<close>.\<close>

lemma while_left: "is_terminated (scopes s) sc \<or> ls = LS_Break \<Longrightarrow> while_step rec sc start (ls, rv) s = (Inr (Inr rv), s)"
  by (auto simp: while_step_def bnd_terminated ret_def)

lemma while_runs_last:
  assumes t: "Option.bind t (expr_value e) = Some v" "truth v" and ps: "list_runs True e None ps (e1, r1, f1, k1, m1)"
    and f: "f1 = Done \<and> f = Done \<and> r = r1 \<or> f1 = Jump LS_Break \<and> f = Next \<and> r = None"
  shows "while_runs LS_TopLevel e t ps (e1 |` dom e, r, f, Suc (ptr_sum expr_cost t + Suc k1), Suc (Suc m1))"
proof (rule while_runsI)
  let ?k = "Suc (ptr_sum expr_cost t + Suc k1)"
  fix base s u n l sc i j bt bb
  assume a: "loop_at base s u sc e t bt ps bb n" "reaches base sc s i j u" "size (AstSuite ps) + Suc (Suc m1) < n"
    "Suc (Suc m1) \<le> Suc l" "room (j + ?k) (ip s)"
  have fuel: "size (AstSuite ps) + m1 < n" and room: "room (j + (?k + 0)) (ip s)" using a(3,5) by simp_all
  obtain p w where w: "while_step (exec n) sc (bs_pos (m_data (ip s))) (LS_TopLevel, None) u =
        (Inr (Inl (state_after LS_TopLevel f1, if f1 = Done then p else None)), w)"
      "reaches base sc s (length bt) (j + ?k) w" "result_of (heap w) p r1" "in_block base w sc (e1 |` dom e) (f1 = Done)"
    by (rule while_round [OF a(1,2) t ps fuel room])
  obtain l' where l: "l = Suc l'" using a(4) by (cases l) auto
  have stop: "is_terminated (scopes w) sc \<or> state_after LS_TopLevel f1 = LS_Break"
    using f w(4) by (auto simp: in_block_def)
  have "loop_fuel (Suc l) (while_step (exec n) sc (bs_pos (m_data (ip s)))) (LS_TopLevel, None) u =
      (Inr (if f1 = Done then p else None), w)"
    unfolding l while_fuel(1) [OF w(1)]
    by (rule while_fuel(2)) (rule while_left [OF stop])
  then show "\<exists>p v. loop_fuel (Suc l) (while_step (exec n) sc (bs_pos (m_data (ip s)))) (LS_TopLevel, None) u = (Inr p, v) \<and>
      reaches base sc s (length bt) (j + ?k) v \<and> result_of (heap v) p r \<and> in_block base v sc (e1 |` dom e) (f = Done)"
    using w(2-4) f by auto
qed (use f in \<open>auto simp: jumps_def\<close>)

lemma while_runs_next:
  assumes t: "Option.bind t (expr_value e) = Some v" "truth v" and ps: "list_runs True e None ps (e1, r1, f1, k1, m1)"
    and f: "f1 = Next \<and> ls = LS_TopLevel \<or> f1 = Jump LS_Continue \<and> ls = LS_Continue"
    and rest: "while_runs ls (e1 |` dom e) t ps (e', r, f, k, m)"
  shows "while_runs LS_TopLevel e t ps (e', r, f, Suc (ptr_sum expr_cost t + Suc k1 + k), Suc (m1 + m))"
proof (rule while_runsI)
  let ?k = "Suc (ptr_sum expr_cost t + Suc k1)"
  fix base s u n l sc i j bt bb
  assume a: "loop_at base s u sc e t bt ps bb n" "reaches base sc s i j u" "size (AstSuite ps) + Suc (m1 + m) < n"
    "Suc (m1 + m) \<le> Suc l" "room (j + Suc (ptr_sum expr_cost t + Suc k1 + k)) (ip s)"
  have fuel: "size (AstSuite ps) + m1 < n" and room: "room (j + (?k + k)) (ip s)" using a(3,5) by simp_all
  obtain p w where w: "while_step (exec n) sc (bs_pos (m_data (ip s))) (LS_TopLevel, None) u =
        (Inr (Inl (state_after LS_TopLevel f1, if f1 = Done then p else None)), w)"
      "reaches base sc s (length bt) (j + ?k) w" "result_of (heap w) p r1" "in_block base w sc (e1 |` dom e) (f1 = Done)"
      "get_depth (scopes w) sc = get_depth (scopes u) sc"
    by (rule while_round [OF a(1,2) t ps fuel room])
  have f1: "f1 \<noteq> Done" "state_after LS_TopLevel f1 = ls" "ls \<noteq> LS_Break" using f by auto
  have "loop_at base s w sc (e1 |` dom e) t bt ps bb n"
    using a(1) w(2,4,5) f1(1) by (auto simp: loop_at_def)
  moreover have "size (AstSuite ps) + m < n" "m \<le> l" "room (j + ?k + k) (ip s)" using a(3,4) room by (simp_all add: ac_simps)
  ultimately obtain p v where "loop_fuel l (while_step (exec n) sc (bs_pos (m_data (ip s)))) (ls, None) w = (Inr p, v)"
      "reaches base sc s (length bt) (j + ?k + k) v" "result_of (heap v) p r" "in_block base v sc e' (f = Done)"
    using rest w(2) f1(3) unfolding while_runs_def prod.case by blast
  moreover have "reaches base sc s (length bt) (j + Suc (ptr_sum expr_cost t + Suc k1 + k)) v"
    using calculation(2) by (simp add: add.assoc)
  ultimately show "\<exists>p v. loop_fuel (Suc l) (while_step (exec n) sc (bs_pos (m_data (ip s)))) (LS_TopLevel, None) u = (Inr p, v) \<and>
      reaches base sc s (length bt) (j + Suc (ptr_sum expr_cost t + Suc k1 + k)) v \<and> result_of (heap v) p r \<and>
      in_block base v sc e' (f = Done)"
    using while_fuel(1) [OF w(1)] f1(1,2) by auto
qed (use rest in \<open>simp_all add: while_runs_def\<close>)

lemma runs_while:
  assumes rounds: "while_runs LS_TopLevel e t ps (e', r, f, k, m)" and ok: "list_all (ptr_ok skippable) ps"
  shows "stmt_runs lp e (AstWhile t (Some (AstSuite ps))) (e', r, f, Suc (k + skip_costs ps), m)"
proof (rule stmt_runsI)
  let ?a = "AstWhile t (Some (AstSuite ps))"
  let ?j = "k + skip_costs ps"
  have f: "jumps False f" using rounds by (simp add: while_runs_def)
  then show "jumps lp f" by (auto simp: jumps_def)
  fix bs assume a: "encode ?a = Inr bs" "length bs < 2 ^ 32"
  then obtain bt bb where enc: "encode_ptr encode t = Inr bt" "encode (AstSuite ps) = Inr bb"
      "bs = be32 (node_code NT_WhileLoop) @ bt @ bb" and len: "length (bt @ bb) < 2 ^ 32"
    by (auto simp: cat_eq_Inr node_bytes_eq encode_ptr_def)
  show "node_case lp e ?a bs (e', r, f, Suc ?j, m)"
  proof (rule node_caseI [OF enc(3) refl])
    fix base s n sc
    assume b: "size ?a + m \<le> n" "in_block base s sc e False" "get_depth (scopes s) sc + int (loop_depth ?a) < 128"
      "ahead (bt @ bb) (m_data (ip s))" "room ?j (ip s)"
    have at: "loop_at base s s sc e t bt ps bb n"
      using b enc(1,2) len reaches_refl [of base sc s] unfolding loop_at_def by (auto simp del: reaches_refl)
    have fuel: "size (AstSuite ps) + m < n" "m \<le> n" and room: "room (0 + k) (ip s)"
      using b(1) room_mono [OF b(5)] by simp_all
    obtain p v where p: "loop_fuel n (while_step (exec n) sc (bs_pos (m_data (ip s)))) (LS_TopLevel, None) s = (Inr p, v)"
        "reaches base sc s (length bt) (0 + k) v" "result_of (heap v) p r" "in_block base v sc e' (f = Done)"
      using rounds at fuel room reaches_refl [of base sc s] unfolding while_runs_def prod.case by blast
    have code: "encode_ptr encode (Some (AstSuite ps)) = Inr bb" "length bb < 2 ^ 32" "ptr_ok skippable (Some (AstSuite ps))"
      using enc(2) len ok by (simp_all add: encode_ptr_def)
    have v: "ahead bb (m_data (ip v))" "room (ptr_sum skip_cost (Some (AstSuite ps)) + 0) (ip v)"
      using reaches_ahead [OF p(2) b(4)] reaches_room [OF p(2), of "skip_costs ps"] b(5) by (simp_all add: skip_costs_def)
    let ?w = "grown (length bb) (skip_costs ps) [] v"
    have "node_while n (exec n) sc s = (Inr p, ?w)"
      by (simp add: node_while_def bnd_data_pos skip_step_run(1) [OF code v] ret_def skip_costs_def
          bnd_Inr [where m = "loop_fuel n (while_step (exec n) sc (bs_pos (m_data (ip s)))) (LS_TopLevel, None)", OF p(1)])
    moreover have "reaches base sc s (length (bt @ bb)) ?j ?w" using reaches_then_grown [OF p(2)] by simp
    ultimately show "case_runs_to base sc s (length (bt @ bb)) ?j (e', r, f, Suc ?j, m) lp
        (exec_node n (exec n) (Some NT_WhileLoop) sc (loop_of lp))"
      using p(3,4) f unfolding exec_node_def
      by (simp, intro case_runs_same [where s' = ?w and d = "f = Done"]) (cases f; auto simp: jumps_def)+
  qed
qed

section \<open>\<open>for\<close> over a range\<close>

text \<open>
  The iterator is an object made by the loop, changed in every round; nothing else changes it.
\<close>

definition iterates :: "vm \<Rightarrow> vm \<Rightarrow> addr \<Rightarrow> int \<Rightarrow> int \<Rightarrow> bool" where
  "iterates s u it a b \<longleftrightarrow> length (heap s) \<le> it \<and> it < length (heap u) \<and>
     (\<exists>x st y. heap u ! it = RangeIterator x st y 1 \<and> sint x = a \<and> sint y = b)"

lemma iterates_append: "iterates s u it a b \<Longrightarrow> heap w = heap u @ h \<Longrightarrow> iterates s w it a b"
  by (auto simp: iterates_def nth_append)

definition stepped :: "addr \<Rightarrow> obj \<Rightarrow> obj \<Rightarrow> vm \<Rightarrow> vm" where
  "stepped it x y u = u\<lparr>heap := (heap u @ [y])[it := x]\<rparr>"

lemma stepped_simps [simp]:
  "heap (stepped it x y u) = (heap u @ [y])[it := x]" "scopes (stepped it x y u) = scopes u" "ip (stepped it x y u) = ip u"
  by (simp_all add: stepped_def)

lemma points_to_stepped:
  "points_to h p v \<Longrightarrow> \<forall>v. \<not> is_value (h ! it) v \<Longrightarrow> points_to ((h @ ys)[it := x]) p v"
  by (cases "p = Some it") (auto simp: points_to_def nth_append nth_list_update split: option.splits)

lemma in_block_stepped:
  assumes "in_block base u sc e d" and "\<forall>v. \<not> is_value (heap u ! it) v"
  shows "in_block base (stepped it x y u) sc e d"
  using assms(1) points_to_stepped [OF _ assms(2)] by (fastforce simp: in_block_def scope_knows_def)

lemma reaches_stepped:
  assumes "reaches base sc s i j u" and "length (heap s) \<le> it"
  shows "reaches base sc s i j (stepped it x y u)"
proof -
  obtain h ss where u: "u = (grown i j h s)\<lparr>scopes := ss\<rparr>" "scopes_step base sc (scopes s) ss"
    using assms(1) by (auto simp: reaches_def)
  have "stepped it x y u = (grown i j ((h @ [y])[it - length (heap s) := x]) s)\<lparr>scopes := ss\<rparr>"
    using assms(2) by (simp add: u(1) stepped_def grown_def list_update_append1 list_update_append)
  then show ?thesis unfolding reaches_def using u(2) by blast
qed

lemma advance_more:
  assumes "iterates s u it a b" and "a < b"
  obtains x y where "advance it u = (Inr (Some (Some (length (heap u)))), stepped it x y u)"
    and "is_value y (PInt a)" and "iterates s (stepped it x y u) it (a + 1) b" and "\<forall>v. \<not> is_value (heap u ! it) v"
proof -
  obtain p st q where it: "heap u ! it = RangeIterator p st q 1" "sint p = a" "sint q = b" "it < length (heap u)"
      "length (heap s) \<le> it"
    using assms(1) by (auto simp: iterates_def)
  have "a < 2 ^ 31 - 1" using assms(2) sint_lt [of q] it(3) by simp
  moreover have "- (2 ^ 31) \<le> a" using sint_ge [of p] it(2) by simp
  ultimately have next_pos: "sint (p + 1) = a + 1"
    using it(2) by (simp add: sint_word_ariths signed_take_bit_int_eq_self_iff)
  have int: "sint (scast p :: i64) = a" using it(2) by (simp add: sint_scast_up)
  show ?thesis
  proof (rule that [of "RangeIterator (p + 1) st q 1" "IntVal (scast p)"])
    show "advance it u = (Inr (Some (Some (length (heap u)))), stepped it (RangeIterator (p + 1) st q 1) (IntVal (scast p)) u)"
      using it assms(2)
      by (simp add: advance_def catch_def on_heap_def on_part_def iter_next_def range_next_def bnd_def hget_def gets_def
          hnew_def halloc_def hset_def modify_def ret_def stepped_def)
    show "iterates s (stepped it (RangeIterator (p + 1) st q 1) (IntVal (scast p)) u) it (a + 1) b"
      using it next_pos by (auto simp: iterates_def)
  qed (use it int in simp_all)
qed

lemma advance_end:
  assumes "iterates s u it a b" and "b \<le> a"
  shows "advance it u = (Inr None, u)"
  using assms
  by (auto simp: iterates_def advance_def catch_def on_heap_def on_part_def iter_next_def range_next_def bnd_def hget_def
      gets_def throw_def ret_def)

lemma advance_scopes: "advance it s = (Inr r, s') \<Longrightarrow> advance it (s\<lparr>scopes := ss\<rparr>) = (Inr r, s'\<lparr>scopes := ss\<rparr>)"
  by (auto simp: advance_def catch_def on_heap_def on_part_def bnd_def ret_def throw_def
      split: prod.splits sum.splits if_splits)

lemma pushed_stepped: "pushed sc (stepped it x y s) = stepped it x y (pushed sc s)"
  by (simp add: pushed_def stepped_def body_scope_def)

definition for_at :: "nat \<Rightarrow> vm \<Rightarrow> vm \<Rightarrow> nat \<Rightarrow> env \<Rightarrow> addr \<Rightarrow> int \<Rightarrow> int \<Rightarrow> ast option list \<Rightarrow> u8 list \<Rightarrow> bool" where
  "for_at base s u sc e it a b ps bb \<longleftrightarrow>
     in_block base u sc e False \<and> get_depth (scopes u) sc + int (Suc (list_depth ps)) < 128 \<and>
     ahead bb (m_data (ip u)) \<and> encode (AstSuite ps) = Inr bb \<and> length bb < 2 ^ 32 \<and> iterates s u it a b"

text \<open>A round, given what the body does in it.\<close>

lemma for_round:
  assumes at: "for_at base s u sc e it a b ps bb" and su: "reaches base sc s i j u" and ab: "a < b" and ls: "ls \<noteq> LS_Break"
    and name: "\<not> reserved m" and room: "room (Suc k1 + k) (ip u)"
    and body: "\<And>y. in_block base y (length (scopes u)) (e(m \<mapsto> PInt a)) False \<Longrightarrow>
      get_depth (scopes y) (length (scopes u)) + int (list_depth ps) < 128 \<Longrightarrow> ahead bb (m_data (ip y)) \<Longrightarrow>
      room k1 (ip y) \<Longrightarrow>
      \<exists>p z. exec n (length (scopes u)) ls y = (Inr (p, ls'), z) \<and> reaches base (length (scopes u)) y 0 k1 z \<and>
        result_of (heap z) p r1 \<and> in_block base z (length (scopes u)) e1 (f = Done)"
  obtains p w where "for_step (exec n) sc [m] it (ls, None) u = (Inr (Inl (ls', if f = Done then p else None)), w)"
    and "reaches base sc s i (j + Suc k1) w" and "result_of (heap w) p r1" and "in_block base w sc (e1 |` dom e) (f = Done)"
    and "f \<noteq> Done \<longrightarrow> for_at base s w sc (e1 |` dom e) it (a + 1) b ps bb" and "room k (ip w)"
proof -
  have u: "in_block base u sc e False" "ahead bb (m_data (ip u))" "iterates s u it a b"
    and deep: "get_depth (scopes u) sc + int (Suc (list_depth ps)) < 128" using at by (simp_all add: for_at_def)
  have room_u: "room 1 (ip u)" using room_mono [OF room, of 1] by simp
  let ?t = "grown 0 1 [] u"
  have t: "in_block base ?t sc e False" "iterates s ?t it a b" "reaches base sc s i (j + 1) ?t"
    using u(1) iterates_append [OF u(3), of ?t "[]"] reaches_then_grown [OF su, of 0 1 "[]"] by simp_all
  obtain x y where adv: "is_value y (PInt a)" "iterates s (stepped it x y ?t) it (a + 1) b" "\<forall>v. \<not> is_value (heap ?t ! it) v"
      "advance it ?t = (Inr (Some (Some (length (heap ?t)))), stepped it x y ?t)"
    by (rule advance_more [OF t(2) ab])
  have it: "length (heap s) \<le> it" "it < length (heap u)" using u(3) by (simp_all add: iterates_def)
  let ?c = "stepped it x y ?t"
  have c: "in_block base ?c sc e False" "reaches base sc s i (j + 1) ?c"
    using in_block_stepped [OF t(1) adv(3)] reaches_stepped [OF t(3) it(1)] .
  let ?b = "length (scopes u)"
  let ?q = "Some (length (heap u))"
  let ?p = "pushed sc ?c"
  have p: "in_block base ?p ?b e False" "get_depth (scopes ?p) ?b = get_depth (scopes u) sc + 1"
    using in_block_pushed [OF c(1)] by simp_all
  have int: "points_to (heap ?p) ?q (PInt a)"
    using adv(1) it(2) by (simp add: points_to_def nth_append)
  let ?y = "?p\<lparr>scopes := set_value (scopes ?p) ?b m ?q\<rparr>"
  note set = assign_block [OF p(1) int name]
  have "get_depth (scopes ?y) ?b + int (list_depth ps) < 128"
    using reaches_depth [OF set(2)] p deep by (simp add: in_block_def)
  moreover have "ahead bb (m_data (ip ?y))" "room k1 (ip ?y)"
    using u(2) room_advance [of 1 "k1 + k" "ip u" 0] room room_mono [of "k1 + k" "advance_ip 0 1 (ip u)" k1] by simp_all
  ultimately obtain q z where z: "exec n ?b ls ?y = (Inr (q, ls'), z)" "reaches base ?b ?y 0 k1 z" "result_of (heap z) q r1"
      "in_block base z ?b e1 (f = Done)"
    using body [OF set(1)] by blast
  have pz: "reaches base ?b ?p 0 k1 z" using reaches_trans [OF set(2) z(2)] by simp
  have len: "length (scopes ?c) = ?b" by simp
  obtain w where w: "after_body sc (length (scopes ?c)) None (q, ls') z = (Inr (ls', if f = Done then q else None), w)"
      "in_block base (popped ?c w) sc (e1 |` dom e) (f = Done)" "reaches base sc ?c 0 k1 (popped ?c w)" "heap w = heap z"
    by (rule after_body_popped [OF c(1), of z e1 f 0 k1 None q ls']) (use z(4) pz in simp_all)
  let ?w = "popped ?c w"
  have sw: "reaches base sc s i (j + Suc k1) ?w" using reaches_trans [OF c(2) w(3)] by simp
  have run: "for_step (exec n) sc [m] it (ls, None) u = (Inr (Inl (ls', if f = Done then q else None)), ?w)"
  proof -
    let ?f = "\<lambda>body. bnd (advance it) (\<lambda>more. case more of
        None \<Rightarrow> ret (Inr None)
      | Some v \<Rightarrow> bnd (bind_targets body [m] v) (\<lambda>_. bnd (exec n body ls) (\<lambda>r.
          bnd (after_body sc body None r) (\<lambda>st. ret (Inl st)))))"
    have more: "advance it (pushed sc ?t) = (Inr (Some ?q), ?p)"
      using advance_scopes [OF adv(4), of "scopes (pushed sc ?t)"] by (simp add: pushed_stepped) (simp add: pushed_def stepped_def)
    have "?f (length (scopes ?t)) (pushed sc ?t) = (Inr (Inl (ls', if f = Done then q else None)), w)"
      by (simp only: grown_simps bnd_Inr [where m = "advance it", OF more [unfolded grown_simps]] option.case bind_targets_def list.case bnd_scope_set bnd_exec [OF z(1)]
          bnd_Inr [where m = "after_body sc ?b None (q, ls')", OF w(1) [unfolded len]] ret_def)
    from local_scope_run [where f = ?f, OF _ this] deep
    have "local_scope sc ?f ?t = (Inr (Inl (ls', if f = Done then q else None)), ?w)" by (simp add: popped_def)
    then show ?thesis
      using u(1) ls by (simp add: for_step_def bnd_terminated in_block_def bnd_charge [OF room_u])
  qed
  have "iterates s ?w it (a + 1) b"
    using iterates_append [OF adv(2), of ?w] reaches_heap [OF w(3)] by auto
  moreover have "ahead bb (m_data (ip ?w))" using reaches_ip [OF w(3)] u(2) by simp
  moreover have "get_depth (scopes ?w) sc = get_depth (scopes u) sc"
    using reaches_depth [OF w(3)] u(1) by (simp add: in_block_def)
  ultimately have "f \<noteq> Done \<longrightarrow> for_at base s ?w sc (e1 |` dom e) it (a + 1) b ps bb"
    using at w(2) by (auto simp: for_at_def)
  moreover have "room k (ip ?w)" using reaches_room [OF w(3), of k] room room_advance [of 1 "k1 + k" "ip u" 0] by simp
  ultimately show ?thesis
    using that [OF run sw _ w(2)] z(3) by (simp add: w(4))
qed

text \<open>All rounds.\<close>

definition for_runs :: "loop_state \<Rightarrow> env \<Rightarrow> string \<Rightarrow> int \<Rightarrow> int \<Rightarrow> ast option list \<Rightarrow> effect \<Rightarrow> bool" where
  "for_runs ls e m a b ps w \<longleftrightarrow> (case w of (e', r, f, k, c) \<Rightarrow> jumps False f \<and>
     (\<forall>base s u n l sc i j bb it. for_at base s u sc e it a b ps bb \<longrightarrow> reaches base sc s i j u \<longrightarrow> ls \<noteq> LS_Break \<longrightarrow>
        size (AstSuite ps) + c < n \<longrightarrow> c \<le> l \<longrightarrow> room k (ip u) \<longrightarrow>
        (\<exists>p v. loop_fuel l (for_step (exec n) sc [m] it) (ls, None) u = (Inr p, v) \<and> reaches base sc s i (j + k) v \<and>
           result_of (heap v) p r \<and> in_block base v sc e' (f = Done))))"

lemma for_runsI:
  assumes "jumps False f" and "0 < c"
    and "\<And>base s u n l sc i j bb it. for_at base s u sc e it a b ps bb \<Longrightarrow> reaches base sc s i j u \<Longrightarrow> ls \<noteq> LS_Break \<Longrightarrow>
      size (AstSuite ps) + c < n \<Longrightarrow> c \<le> Suc l \<Longrightarrow> room k (ip u) \<Longrightarrow>
      \<exists>p v. loop_fuel (Suc l) (for_step (exec n) sc [m] it) (ls, None) u = (Inr p, v) \<and> reaches base sc s i (j + k) v \<and>
        result_of (heap v) p r \<and> in_block base v sc e' (f = Done)"
  shows "for_runs ls e m a b ps (e', r, f, k, c)"
  unfolding for_runs_def prod.case
proof (intro conjI allI impI)
  fix base s u n l sc i j bb it
  assume "for_at base s u sc e it a b ps bb" "reaches base sc s i j u" "ls \<noteq> LS_Break" "size (AstSuite ps) + c < n"
    "c \<le> l" "room k (ip u)"
  with assms(3) [of base s u sc it bb i j n "l - 1"] assms(2)
  show "\<exists>p v. loop_fuel l (for_step (exec n) sc [m] it) (ls, None) u = (Inr p, v) \<and> reaches base sc s i (j + k) v \<and>
      result_of (heap v) p r \<and> in_block base v sc e' (f = Done)"
    by simp
qed (rule assms(1))

lemma for_runsD:
  assumes "for_runs ls e m a b ps (e', r, f, k, c)" and "for_at base s u sc e it a b ps bb" and "reaches base sc s i j u"
    and "ls \<noteq> LS_Break" and "size (AstSuite ps) + c < n" and "c \<le> l" and "room k (ip u)"
  obtains p v where "loop_fuel l (for_step (exec n) sc [m] it) (ls, None) u = (Inr p, v)" and "reaches base sc s i (j + k) v"
    and "result_of (heap v) p r" and "in_block base v sc e' (f = Done)"
  using assms unfolding for_runs_def prod.case by blast

lemmas for_fuel =
  loop_fuel_next [where f = "for_step rec sc names it"] loop_fuel_end [where f = "for_step rec sc names it"]
  for rec sc names it

lemma for_left: "is_terminated (scopes s) sc \<or> ls = LS_Break \<Longrightarrow> for_step rec sc ns it (ls, rv) s = (Inr (Inr rv), s)"
  by (auto simp: for_step_def bnd_terminated ret_def)

lemma for_runs_end:
  assumes "b \<le> a"
  shows "for_runs ls e m a b ps (e, None, Next, Suc 0, Suc 0)"
proof (rule for_runsI)
  fix base s u n l sc i j bb it
  assume at: "for_at base s u sc e it a b ps bb" "reaches base sc s i j u" "ls \<noteq> LS_Break" "room (Suc 0) (ip u)"
  let ?t = "grown 0 1 [] u"
  have u: "in_block base u sc e False" "iterates s u it a b" and deep: "get_depth (scopes u) sc + 1 < 128"
    using at(1) by (simp_all add: for_at_def)
  have room: "room 1 (ip u)" using at(4) by simp
  have "iterates s (pushed sc ?t) it a b" using iterates_append [OF u(2), of _ "[]"] by simp
  note adv = advance_end [OF this assms]
  let ?f = "\<lambda>body. bnd (advance it) (\<lambda>more. case more of
      None \<Rightarrow> ret (Inr None)
    | Some v \<Rightarrow> bnd (bind_targets body [m] v) (\<lambda>_. bnd (exec n body ls) (\<lambda>r.
        bnd (after_body sc body None r) (\<lambda>st. ret (Inl st)))))"
  have "?f (length (scopes ?t)) (pushed sc ?t) = (Inr (Inr None), pushed sc ?t)"
    by (simp only: bnd_Inr [where m = "advance it", OF adv] option.case ret_def)
  from local_scope_run [where f = ?f, OF _ this] deep
  have "local_scope sc ?f ?t = (Inr (Inr None), ?t)" by (simp add: pushed_def grown_def)
  then have "for_step (exec n) sc [m] it (ls, None) u = (Inr (Inr None), ?t)"
    using u(1) at(3) by (simp add: for_step_def bnd_terminated in_block_def bnd_charge [OF room])
  from for_fuel(2) [OF this] u(1) reaches_then_grown [OF at(2), of 0 1 "[]"]
  show "\<exists>p v. loop_fuel (Suc l) (for_step (exec n) sc [m] it) (ls, None) u = (Inr p, v) \<and>
      reaches base sc s i (j + Suc 0) v \<and> result_of (heap v) p None \<and> in_block base v sc e (Next = Done)"
    by simp
qed (simp_all add: jumps_def)

text \<open>A round whose body runs, and one behind a \<open>continue\<close>.\<close>

lemma for_round_runs:
  assumes at: "for_at base s u sc e it a b ps bb" and su: "reaches base sc s i j u" and ab: "a < b"
    and name: "\<not> reserved m" and ps: "list_runs True (e(m \<mapsto> PInt a)) None ps (e1, r1, f1, k1, m1)"
    and fuel: "size (AstSuite ps) + m1 < n" and room: "room (Suc (Suc k1) + k) (ip u)"
  obtains p w where "for_step (exec n) sc [m] it (LS_TopLevel, None) u =
      (Inr (Inl (state_after LS_TopLevel f1, if f1 = Done then p else None)), w)"
    and "reaches base sc s i (j + Suc (Suc k1)) w" and "result_of (heap w) p r1" and "in_block base w sc (e1 |` dom e) (f1 = Done)"
    and "f1 \<noteq> Done \<longrightarrow> for_at base s w sc (e1 |` dom e) it (a + 1) b ps bb" and "room k (ip w)"
proof -
  have code: "encode (AstSuite ps) = Inr bb" "length bb < 2 ^ 32" using at by (simp_all add: for_at_def)
  show ?thesis
  proof (rule for_round [OF at su ab _ name room, of LS_TopLevel n "state_after LS_TopLevel f1" r1 e1 f1])
    fix y assume "in_block base y (length (scopes u)) (e(m \<mapsto> PInt a)) False"
      "get_depth (scopes y) (length (scopes u)) + int (list_depth ps) < 128" "ahead bb (m_data (ip y))" "room (Suc k1) (ip y)"
    then show "\<exists>p z. exec n (length (scopes u)) LS_TopLevel y = (Inr (p, state_after LS_TopLevel f1), z) \<and>
        reaches base (length (scopes u)) y 0 (Suc k1) z \<and> result_of (heap z) p r1 \<and>
        in_block base z (length (scopes u)) e1 (f1 = Done)"
      by (rule body_runs [OF ps code fuel]) blast
  qed (simp, rule that)
qed

lemma for_runs_last:
  assumes ab: "a < b" and name: "\<not> reserved m" and ps: "list_runs True (e(m \<mapsto> PInt a)) None ps (e1, r1, f1, k1, m1)"
    and f: "f1 = Done \<and> f = Done \<and> r = r1 \<or> f1 = Jump LS_Break \<and> f = Next \<and> r = None"
  shows "for_runs LS_TopLevel e m a b ps (e1 |` dom e, r, f, Suc (Suc k1), Suc (Suc m1))"
proof (rule for_runsI)
  fix base s u n l sc i j bb it
  assume at: "for_at base s u sc e it a b ps bb" "reaches base sc s i j u" "size (AstSuite ps) + Suc (Suc m1) < n"
    "Suc (Suc m1) \<le> Suc l" "room (Suc (Suc k1)) (ip u)"
  have fuel: "size (AstSuite ps) + m1 < n" and room: "room (Suc (Suc k1) + 0) (ip u)" using at(3,5) by simp_all
  obtain p w where w: "for_step (exec n) sc [m] it (LS_TopLevel, None) u =
        (Inr (Inl (state_after LS_TopLevel f1, if f1 = Done then p else None)), w)"
      "reaches base sc s i (j + Suc (Suc k1)) w" "result_of (heap w) p r1" "in_block base w sc (e1 |` dom e) (f1 = Done)"
    by (rule for_round_runs [OF at(1,2) ab name ps fuel room])
  obtain l' where l: "l = Suc l'" using at(4) by (cases l) auto
  have stop: "is_terminated (scopes w) sc \<or> state_after LS_TopLevel f1 = LS_Break"
    using f w(4) by (auto simp: in_block_def)
  have "loop_fuel (Suc l) (for_step (exec n) sc [m] it) (LS_TopLevel, None) u = (Inr (if f1 = Done then p else None), w)"
    unfolding l for_fuel(1) [OF w(1)]
    by (rule for_fuel(2)) (rule for_left [OF stop])
  then show "\<exists>p v. loop_fuel (Suc l) (for_step (exec n) sc [m] it) (LS_TopLevel, None) u = (Inr p, v) \<and>
      reaches base sc s i (j + Suc (Suc k1)) v \<and> result_of (heap v) p r \<and> in_block base v sc (e1 |` dom e) (f = Done)"
    using w(2-4) f by auto
qed (use f in \<open>auto simp: jumps_def\<close>)

lemma for_runs_next:
  assumes ab: "a < b" and name: "\<not> reserved m" and ps: "list_runs True (e(m \<mapsto> PInt a)) None ps (e1, r1, f1, k1, m1)"
    and f: "f1 = Next \<and> ls = LS_TopLevel \<or> f1 = Jump LS_Continue \<and> ls = LS_Continue"
    and rest: "for_runs ls (e1 |` dom e) m (a + 1) b ps (e', r, f, k, c)"
  shows "for_runs LS_TopLevel e m a b ps (e', r, f, Suc (Suc k1 + k), Suc (m1 + c))"
proof (rule for_runsI)
  fix base s u n l sc i j bb it
  assume at: "for_at base s u sc e it a b ps bb" "reaches base sc s i j u" "size (AstSuite ps) + Suc (m1 + c) < n"
    "Suc (m1 + c) \<le> Suc l" "room (Suc (Suc k1 + k)) (ip u)"
  have fuel: "size (AstSuite ps) + m1 < n" "size (AstSuite ps) + c < n" "c \<le> l" and room: "room (Suc (Suc k1) + k) (ip u)"
    using at(3-5) by simp_all
  obtain p w where w: "for_step (exec n) sc [m] it (LS_TopLevel, None) u =
        (Inr (Inl (state_after LS_TopLevel f1, if f1 = Done then p else None)), w)"
      "reaches base sc s i (j + Suc (Suc k1)) w" "f1 \<noteq> Done \<longrightarrow> for_at base s w sc (e1 |` dom e) it (a + 1) b ps bb" "room k (ip w)"
    by (rule for_round_runs [OF at(1,2) ab name ps fuel(1) room])
  have f1: "f1 \<noteq> Done" "state_after LS_TopLevel f1 = ls" "ls \<noteq> LS_Break" using f by auto
  have "for_at base s w sc (e1 |` dom e) it (a + 1) b ps bb" using w(3) f1(1) by simp
  from for_runsD [OF rest this w(2) f1(3) fuel(2,3) w(4)]
  obtain p' v where v: "loop_fuel l (for_step (exec n) sc [m] it) (ls, None) w = (Inr p', v)"
      "reaches base sc s i (j + Suc (Suc k1) + k) v" "result_of (heap v) p' r" "in_block base v sc e' (f = Done)" by blast
  show "\<exists>p v. loop_fuel (Suc l) (for_step (exec n) sc [m] it) (LS_TopLevel, None) u = (Inr p, v) \<and>
      reaches base sc s i (j + Suc (Suc k1 + k)) v \<and> result_of (heap v) p r \<and> in_block base v sc e' (f = Done)"
    using for_fuel(1) [OF w(1)] v f1(1,2) by (auto simp: add.assoc)
qed (use rest in \<open>simp_all add: for_runs_def\<close>)

lemma for_runs_idle:
  assumes ab: "a < b" and name: "\<not> reserved m" and ok: "list_all (ptr_ok skippable) ps"
    and rest: "for_runs LS_Continue ((e(m \<mapsto> PInt a)) |` dom e) m (a + 1) b ps (e', r, f, k, c)"
  shows "for_runs LS_Continue e m a b ps (e', r, f, Suc (Suc (skip_costs ps) + k), Suc c)"
proof (rule for_runsI)
  fix base s u n l sc i j bb it
  assume at: "for_at base s u sc e it a b ps bb" "reaches base sc s i j u" "size (AstSuite ps) + Suc c < n" "Suc c \<le> Suc l"
    "room (Suc (Suc (skip_costs ps) + k)) (ip u)"
  have fuel: "0 < n" "size (AstSuite ps) + c < n" "c \<le> l" and room: "room (Suc (Suc (skip_costs ps)) + k) (ip u)"
    using at(3-5) by simp_all
  have code: "encode (AstSuite ps) = Inr bb" "length bb < 2 ^ 32" using at by (simp_all add: for_at_def)
  obtain p w where w: "for_step (exec n) sc [m] it (LS_Continue, None) u = (Inr (Inl (LS_Continue, None)), w)"
      "reaches base sc s i (j + Suc (Suc (skip_costs ps))) w" "for_at base s w sc ((e(m \<mapsto> PInt a)) |` dom e) it (a + 1) b ps bb"
      "room k (ip w)"
  proof (rule for_round [OF at(1,2) ab _ name room, of LS_Continue n LS_Continue None "e(m \<mapsto> PInt a)" Next])
    fix y assume y: "in_block base y (length (scopes u)) (e(m \<mapsto> PInt a)) False" "ahead bb (m_data (ip y))"
      "room (Suc (skip_costs ps)) (ip y)"
    from body_idle [OF code ok fuel(1) y] y(1)
    show "\<exists>p z. exec n (length (scopes u)) LS_Continue y = (Inr (p, LS_Continue), z) \<and>
        reaches base (length (scopes u)) y 0 (Suc (skip_costs ps)) z \<and> result_of (heap z) p None \<and>
        in_block base z (length (scopes u)) (e(m \<mapsto> PInt a)) (Next = Done)"
      by simp
  qed (simp, simp)
  from for_runsD [OF rest w(3,2) _ fuel(2,3) w(4)]
  obtain p' v where v: "loop_fuel l (for_step (exec n) sc [m] it) (LS_Continue, None) w = (Inr p', v)"
      "reaches base sc s i (j + Suc (Suc (skip_costs ps)) + k) v" "result_of (heap v) p' r" "in_block base v sc e' (f = Done)"
    by blast
  show "\<exists>p v. loop_fuel (Suc l) (for_step (exec n) sc [m] it) (LS_Continue, None) u = (Inr p, v) \<and>
      reaches base sc s i (j + Suc (Suc (skip_costs ps) + k)) v \<and> result_of (heap v) p r \<and> in_block base v sc e' (f = Done)"
    using for_fuel(1) [OF w(1)] v by (auto simp: add.assoc)
qed (use rest in \<open>simp_all add: for_runs_def\<close>)

end
