(* ===== verification/Compiled_Range.thy ===== *)
theory Compiled_Range
  imports Compiled_Loops
begin

text \<open>
  The call of \<open>range\<close> in the head of a \<open>for\<close>, and the whole loop.
\<close>

section \<open>Arguments\<close>

definition item_of :: "ast option \<Rightarrow> u8 list" where
  "item_of p = projr (encode_item encode p)"

text \<open>One round of the loop over the arguments.\<close>

definition arg_round :: "recursion \<Rightarrow> nat \<Rightarrow> valueptr list \<Rightarrow> valueptr list exec" where
  "arg_round rec sc = (\<lambda>args. bnd (on_ip charge) (\<lambda>_. bnd (eval rec sc) (\<lambda>arg. ret (args @ [arg]))))"

lemma args_run:
  assumes "list_all2 (\<lambda>p v. Option.bind p (expr_value e) = Some v) ps vs"
    and "\<And>p. p \<in> set ps \<Longrightarrow> encode_item encode p = Inr (item_of p) \<and> size_option size p \<le> n"
    and "length (concat (map item_of ps)) < 2 ^ 32" and "in_block base s sc e False"
    and "ahead (concat (map item_of ps)) (m_data (ip s))" and "room (args_cost ps + k) (ip s)"
  shows "\<exists>qs h. times (length ps) (arg_round (exec n) sc) acc s =
      (Inr (acc @ qs), grown (length (concat (map item_of ps))) (args_cost ps) h s) \<and>
    list_all2 (points_to (heap s @ h)) qs vs"
  using assms
proof (induction arbitrary: s acc rule: list_all2_induct)
  case Nil
  have "s = grown 0 0 [] s" by (simp add: grown_def)
  then show ?case by (intro exI [of _ "[]"]) (simp add: args_cost_def ret_def)
next
  case (Cons p ps v vs)
  let ?t = "grown 0 1 [] s"
  have enc: "encode_ptr encode p = Inr (item_of p)" "length (item_of p) < 2 ^ 32" "size_option size p \<le> n"
    using Cons.hyps(1) Cons.prems(1) [of p] Cons.prems(2)
    by (auto simp: encode_item_def encode_ptr_def bind_eq_Some_conv)
  have room: "room 1 (ip s)" "room (ptr_sum expr_cost p + (args_cost ps + k)) (ip ?t)"
    using Cons.prems(5) room_mono [OF Cons.prems(5), of 1]
      room_advance [of 1 "ptr_sum expr_cost p + (args_cost ps + k)" "ip s" 0]
    by (simp_all add: args_cost_def add.assoc)
  have t: "in_block base ?t sc e False" "ahead (item_of p) (m_data (ip ?t))"
    using Cons.prems(3,4) by (simp_all add: ahead_append)
  obtain q h where q: "exec n sc LS_None ?t = (Inr (q, LS_None), grown (length (item_of p)) (ptr_sum expr_cost p) h ?t)"
      "points_to (heap ?t @ h) q v" "room (args_cost ps + k) (ip (grown (length (item_of p)) (ptr_sum expr_cost p) h ?t))"
    by (rule expr_step [OF enc(1,2) Cons.hyps(1) enc(3) t(1,2) room(2) quiet_simps(1)])
  let ?u = "grown (length (item_of p)) (ptr_sum expr_cost p) h ?t"
  have u: "in_block base ?u sc e False" "ahead (concat (map item_of ps)) (m_data (ip ?u))"
    using Cons.prems(3,4) by (simp_all add: ahead_append)
  have len: "length (concat (map item_of ps)) < 2 ^ 32" using Cons.prems(2) by simp
  obtain qs h' where qs: "times (length ps) (arg_round (exec n) sc) (acc @ [q]) ?u =
        (Inr ((acc @ [q]) @ qs), grown (length (concat (map item_of ps))) (args_cost ps) h' ?u)"
      "list_all2 (points_to (heap ?u @ h')) qs vs"
    using Cons.IH [OF _ len u q(3), of "acc @ [q]"] Cons.prems(1) by auto
  have one: "arg_round (exec n) sc acc s = (Inr (acc @ [q]), ?u)"
    by (simp only: arg_round_def bnd_charge [OF room(1)] bnd_eval [OF q(1)] ret_def)
  have "times (length (p # ps)) (arg_round (exec n) sc) acc s = (Inr (acc @ q # qs),
      grown (length (concat (map item_of (p # ps)))) (args_cost (p # ps)) (h @ h') s)"
    using qs(1) by (simp add: bnd_Inr [where m = "arg_round (exec n) sc acc", OF one] args_cost_def)
  moreover have "points_to (heap s @ h @ h') q v" using points_to_append [OF q(2), of h'] by simp
  ultimately show ?case using qs(2) by (intro exI [of _ "q # qs"] exI [of _ "h @ h'"]) simp
qed

lemma wrap32_ucast: "sint (ucast (i :: i64) :: u32) = wrap32 (sint i)"
  using wrap32_literal [of i] by (simp add: sint_scast_up)

lemma unpack_points: "points_to h p (PInt i) \<Longrightarrow> \<exists>w. unpack_integer h p = Inr w \<and> sint w = i"
  by (auto simp: points_to_def unpack_integer_def deref_def split: option.splits)

lemma range_values:
  assumes "range_bounds e ps = Some (a, b)"
  shows "(\<exists>j. list_all2 (\<lambda>p v. Option.bind p (expr_value e) = Some v) ps [PInt j] \<and> a = 0 \<and> b = wrap32 j) \<or>
    (\<exists>i j. list_all2 (\<lambda>p v. Option.bind p (expr_value e) = Some v) ps [PInt i, PInt j] \<and> a = wrap32 i \<and> b = wrap32 j)"
  using assms by (auto simp: range_bounds_def list_all2_Cons2 map_eq_Cons_conv split: list.splits option.splits pyval.splits)

lemma builtin_range_run:
  assumes "range_bounds e ps = Some (a, b)"
    and "list_all2 (\<lambda>p v. Option.bind p (expr_value e) = Some v) ps vs" and "list_all2 (points_to (heap s)) qs vs"
  shows "\<exists>x y. builtin_call BT_Range qs s = (Inr (Some (length (heap s))), grown 0 0 [RangeIterator x x y 1] s) \<and>
    sint x = a \<and> sint y = b"
proof -
  have "None \<notin> set qs" using assms(3) by (fastforce simp: list_all2_conv_all_nth in_set_conv_nth points_to_def)
  then have call: "builtin_call BT_Range qs s = builtin_range qs s" by (simp add: builtin_call_def)
  have new: "on_heap (hnew z) s = (Inr (Some (length (heap s))), grown 0 0 [z] s)" for z
    by (rule on_heap_run [where m = "hnew z", OF hnew_run])
  have vs: "vs = ws" if "list_all2 (\<lambda>p v. Option.bind p (expr_value e) = Some v) ps ws" for ws
    using assms(2) that by (auto simp: list_all2_conv_all_nth intro!: nth_equalityI)
  show ?thesis
    using range_values [OF assms(1)]
  proof (elim disjE exE conjE)
    fix j assume j: "list_all2 (\<lambda>p v. Option.bind p (expr_value e) = Some v) ps [PInt j]" "a = 0" "b = wrap32 j"
    obtain q where q: "qs = [q]" "points_to (heap s) q (PInt j)"
      using assms(3) vs [OF j(1)] by (auto simp: list_all2_Cons2)
    obtain w where "unpack_integer (heap s) q = Inr w" "sint w = j" using unpack_points [OF q(2)] by blast
    then show ?thesis
      unfolding call using j(2,3) by (intro exI [of _ 0] exI [of _ "ucast w"]) (auto simp: builtin_range_def q(1) with_int_def bnd_with_heap new wrap32_ucast)
  next
    fix i j assume j: "list_all2 (\<lambda>p v. Option.bind p (expr_value e) = Some v) ps [PInt i, PInt j]" "a = wrap32 i" "b = wrap32 j"
    obtain p q where q: "qs = [p, q]" "points_to (heap s) p (PInt i)" "points_to (heap s) q (PInt j)"
      using assms(3) vs [OF j(1)] by (auto simp: list_all2_Cons2)
    obtain w w' where "unpack_integer (heap s) p = Inr w" "sint w = i" "unpack_integer (heap s) q = Inr w'" "sint w' = j"
      using unpack_points [OF q(2)] unpack_points [OF q(3)] by blast
    then show ?thesis
      unfolding call using j(2,3) by (intro exI [of _ "ucast w"] exI [of _ "ucast w'"]) (auto simp: builtin_range_def q(1) with_int_def bnd_with_heap new wrap32_ucast)
  qed
qed

section \<open>The call\<close>

lemma range_name_run:
  assumes "0 < n" and "in_block base s sc e d" and "ahead (be32 (node_code NT_Name) @ enc_string ''range'') (m_data (ip s))"
    and "room 1 (ip s)"
  shows "exec n sc LS_None s = (Inr (Some (length (heap s)), LS_None), grown 13 1 [Builtin BT_Range] s)"
proof -
  obtain l where n: "n = Suc l" using assms(1) by (cases n) auto
  let ?t = "grown 4 1 [] s"
  have t: "ahead (enc_string ''range'') (m_data (ip ?t))" "room 0 (ip ?t)"
    using assms(3,4) room_advance [of 1 0 "ip s" 4] by (simp_all add: ahead_append)
  have name: "node_name sc ?t = scope_get sc ''range'' (grown 9 0 [] ?t)"
    using bnd_eats [OF eats_string t, where f = "\<lambda>str. if str = ''False'' then on_heap (create_boolean False)
        else if str = ''True'' then on_heap (create_boolean True) else scope_get sc str"]
    by (simp add: node_name_def)
  have "on_heap (hnew (Builtin BT_Range)) u = (Inr (Some (length (heap u))), grown 0 0 [Builtin BT_Range] u)" for u
    by (rule on_heap_run [where m = "hnew (Builtin BT_Range)", OF hnew_run])
  then have "node_name sc ?t = (Inr (Some (length (heap s))), grown 9 0 [Builtin BT_Range] ?t)"
    by (simp add: name [unfolded One_nat_def] scope_get_def bnd_gets get_value_def builtin_of_def)
  then have "exec_node l (exec l) (Some NT_Name) sc LS_None ?t =
      (Inr (Some (length (heap s)), LS_None), grown 13 1 [Builtin BT_Range] s)"
    by (simp add: exec_node_def same_state_run [where m = "node_name sc"])
  then show ?thesis
    using assms(2,3) unfolding n by (intro exec_node_result [OF _ assms(4)]) (simp_all add: in_block_def ahead_append)
qed

lemma range_call:
  assumes code: "encode (AstCall (Some (AstName g)) args) = Inr bs" "length bs < 2 ^ 32" and g: "c_str g = ''range''"
    and bounds: "range_bounds e args = Some (a, b)" and fuel: "size (AstCall (Some (AstName g)) args) < n"
    and s: "in_block base s sc e False" and ahead: "ahead bs (m_data (ip s))"
    and room: "room (Suc (Suc (args_cost args)) + k) (ip s)"
  obtains it h x y where "exec n sc LS_None s = (Inr (Some it, LS_None), grown (length bs) (Suc (Suc (args_cost args))) h s)"
    and "length (heap s) \<le> it" and "it < length (heap s @ h)" and "(heap s @ h) ! it = RangeIterator x x y 1"
    and "sint x = a" and "sint y = b" and "room k (ip (grown (length bs) (Suc (Suc (args_cost args))) h s))"
proof -
  let ?name = "be32 (node_code NT_Name) @ enc_string ''range''"
  let ?items = "concat (map item_of args)"
  obtain bl where bl: "encode_list (encode_item encode) args = Inr bl" "bs = be32 (node_code NT_Call) @ ?name @ bl"
    using code(1) g by (auto simp: cat_eq_Inr node_bytes_eq string_bytes_def encode_ptr_def)
  have items: "bl = be32 (of_nat (length args)) @ ?items"
    using encode_list_Inr(1) [OF bl(1)] by (simp add: item_of_def [abs_def])
  have len: "length ?items < 2 ^ 32" using code(2) by (simp add: bl(2) items)
  obtain l where n: "n = Suc l" "size (AstCall (Some (AstName g)) args) \<le> l" using fuel by (cases n) auto
  have item: "encode_item encode p = Inr (item_of p) \<and> size_option size p \<le> l" if "p \<in> set args" for p
  proof -
    have "size_option size p \<le> size_list (size_option size) args" using that by (rule size_list_estimation') simp
    then show ?thesis using encode_list_Inr(2) [OF bl(1) that] n(2) by (simp add: item_of_def)
  qed
  have short: "unat (of_nat (length args) :: u32) = length args"
    using range_values [OF bounds] by (auto dest!: list_all2_lengthD)
  obtain vs where vs: "list_all2 (\<lambda>p v. Option.bind p (expr_value e) = Some v) args vs"
    using range_values [OF bounds] by blast
  let ?t = "grown 4 1 [] s"
  let ?u = "grown 13 1 [Builtin BT_Range] ?t"
  let ?v = "grown 4 0 [] ?u"
  have t: "in_block base ?t sc e False" "ahead ?name (m_data (ip ?t))" "room 1 (ip ?t)"
    using s ahead room room_advance [of 1 1 "ip s" 4] room_mono [of _ "ip s" 2] by (simp_all add: bl(2) ahead_append numeral_2_eq_2)
  have "0 < l" using n(2) by simp
  note called = range_name_run [OF this t]
  have room_v: "room (args_cost args + k) (ip ?v)"
    using room room_advance [of 2 "args_cost args + k" "ip s" 21] by (simp add: numeral_2_eq_2)
  have v: "in_block base ?v sc e False" "ahead ?items (m_data (ip ?v))"
    using s ahead by (simp_all add: bl(2) items ahead_append)
  have u: "ahead (be32 (of_nat (length args))) (m_data (ip ?u))" "room 0 (ip ?u)"
    using ahead room_v room_advance [of 0 0 "ip ?u" 4] room room_advance [of 2 0 "ip s" 17] room_mono [OF room, of 2]
    by (simp_all add: bl(2) items ahead_append numeral_2_eq_2)
  obtain qs h where qs: "times (length args) (arg_round (exec l) sc) [] ?v = (Inr qs, grown (length ?items) (args_cost args) h ?v)"
      "list_all2 (points_to (heap ?v @ h)) qs vs"
    using args_run [OF vs item len v room_v, of "[]"] by auto
  let ?w = "grown (length ?items) (args_cost args) h ?v"
  have "list_all2 (points_to (heap ?w)) qs vs" using qs(2) by simp
  from builtin_range_run [OF bounds vs this] obtain x y where made: "builtin_call BT_Range qs ?w =
      (Inr (Some (length (heap ?w))), grown 0 0 [RangeIterator x x y 1] ?w)" "sint x = a" "sint y = b" by blast
  have builtin: "heap ?w ! length (heap s) = Builtin BT_Range" "heap ?u ! length (heap s) = Builtin BT_Range"
    by (simp_all add: nth_append)
  have invoked: "invoke (exec l) (length (heap s)) qs sc ?w =
      (Inr (Some (length (heap ?w))), grown 0 0 [RangeIterator x x y 1] ?w)"
    using builtin(1) made(1)
    by (simp add: invoke_def bnd_gets callable_call_def obj_at_def plain_call_def catch_def bnd_def ret_def gets_def)
  have "node_call (exec l) sc ?t = (Inr (Some (length (heap ?w))), grown 0 0 [RangeIterator x x y 1] ?w)"
  proof -
    have args: "exec_times (of_nat (length args)) (\<lambda>args. bnd (eval (exec l) sc) (\<lambda>arg. ret (args @ [arg]))) [] ?v = (Inr qs, ?w)"
      using qs(1) by (simp only: exec_times_def short arg_round_def)
    have callable: "obj_at (length (heap ?t)) ?u = (Inr (Builtin BT_Range), ?u)"
      using builtin(2) by (simp add: obj_at_def gets_def)
    have count: "bnd (on_ip rd_u32) f ?u = f (of_nat (length args)) ?v" for f
      using bnd_eats [OF eats_u32 u, of f] by simp
    have "node_call (exec l) sc ?t = invoke (exec l) (length (heap ?t)) qs sc ?w"
      by (simp only: node_call_def eval_ptr_def bnd_simps bnd_eval [OF called] assert_ptr_def option.case
          bnd_Inr [where m = "obj_at (length (heap ?t))", OF callable] is_callable.simps simp_thms throw_if_def if_False
          count bnd_Inr [where m = "exec_times (of_nat (length args))
            (\<lambda>args. bnd (eval (exec l) sc) (\<lambda>arg. ret (args @ [arg]))) []", OF args])
    then show ?thesis using invoked by simp
  qed
  then have "exec_node l (exec l) (Some NT_Call) sc LS_None ?t =
      (Inr (Some (length (heap ?w)), LS_None), grown 0 0 [RangeIterator x x y 1] ?w)"
    by (simp add: exec_node_def same_state_run [where m = "node_call (exec l) sc"])
  moreover have "ahead (be32 (node_code NT_Call)) (m_data (ip s))" "room 1 (ip s)"
    using ahead room_mono [OF room, of 1] by (simp_all add: bl(2) ahead_append)
  moreover have "get_depth (scopes s) sc \<noteq> 0" using s by (simp add: in_block_def)
  ultimately have "exec n sc LS_None s = (Inr (Some (length (heap ?w)), LS_None), grown 0 0 [RangeIterator x x y 1] ?w)"
    unfolding n(1) by (intro exec_node_result) simp_all
  moreover have "grown 0 0 [RangeIterator x x y 1] ?w =
      grown (length bs) (Suc (Suc (args_cost args))) (Builtin BT_Range # h @ [RangeIterator x x y 1]) s"
    by (simp add: bl(2) items)
  moreover have "room k (ip (grown (length bs) (Suc (Suc (args_cost args))) (Builtin BT_Range # h @ [RangeIterator x x y 1]) s))"
    by (rule room_grown [OF room])
  ultimately show ?thesis
    using made(2,3) by (intro that [of "length (heap ?w)" "Builtin BT_Range # h @ [RangeIterator x x y 1]" x y])
      (simp_all add: nth_append)
qed

section \<open>The loop\<close>

lemma runs_for:
  assumes bounds: "range_bounds e args = Some (a, b)" and g: "c_str g = ''range''" and m: "\<not> reserved (c_str m)"
    and rounds: "for_runs LS_TopLevel e (c_str m) a b ps (e', r, f, k, c)" and ok: "list_all (ptr_ok skippable) ps"
  shows "stmt_runs lp e (AstFor (Some (AstName m)) (Some (AstCall (Some (AstName g)) args)) (Some (AstSuite ps)))
    (e', r, f, Suc (Suc (Suc (args_cost args)) + k + skip_costs ps), c)"
proof (rule stmt_runsI)
  let ?a = "AstFor (Some (AstName m)) (Some (AstCall (Some (AstName g)) args)) (Some (AstSuite ps))"
  let ?call = "AstCall (Some (AstName g)) args"
  let ?n = "c_str m"
  let ?h = "Suc (Suc (args_cost args))"
  let ?j = "?h + k + skip_costs ps"
  have f: "jumps False f" using rounds by (simp add: for_runs_def)
  then show "jumps lp f" by (auto simp: jumps_def)
  fix bs assume a: "encode ?a = Inr bs" "length bs < 2 ^ 32"
  let ?name = "be32 (node_code NT_Name) @ enc_string ?n"
  obtain bc bb where enc: "encode ?call = Inr bc" "encode (AstSuite ps) = Inr bb"
      "bs = be32 (node_code NT_ForLoop) @ ?name @ bc @ bb"
    using a(1) by (auto simp: cat_eq_Inr node_bytes_eq encode_ptr_def string_bytes_def simp del: encode.simps(10)
        encode.simps(11))
  have len: "length ?n < 2 ^ 32" "length bc < 2 ^ 32" "length bb < 2 ^ 32" using a(2) by (simp_all add: enc(3))
  show "node_case lp e ?a bs (e', r, f, Suc ?j, c)"
  proof (rule node_caseI [OF enc(3) refl])
    fix base s n sc
    assume b: "size ?a + c \<le> n" "in_block base s sc e False" "get_depth (scopes s) sc + int (loop_depth ?a) < 128"
      "ahead (?name @ bc @ bb) (m_data (ip s))" "room ?j (ip s)"
    let ?t = "grown (8 + length ?n) 0 [] s"
    have names: "bnd (on_ip read_names) f s = f [?n] ?t" for f
      using bnd_eats [OF eats_names [OF len(1)], of s f] b(4) room_mono [OF b(5), of 0]
      by (simp add: ahead_append add.commute)
    have "room (0 + (?h + (k + skip_costs ps))) (ip s)" using b(5) by (simp add: add.assoc)
    then have t: "in_block base ?t sc e False" "ahead bc (m_data (ip ?t))" "room (?h + (k + skip_costs ps)) (ip ?t)"
      using b(2,4) room_advance by (simp_all add: ahead_append add.commute [of 8])
    have fuel: "size ?call < n" "size (AstSuite ps) + c < n" "c \<le> n" using b(1) by simp_all
    obtain it h x y where it: "exec n sc LS_None ?t = (Inr (Some it, LS_None), grown (length bc) ?h h ?t)"
        "length (heap ?t) \<le> it" "it < length (heap ?t @ h)" "(heap ?t @ h) ! it = RangeIterator x x y 1"
        "sint x = a" "sint y = b" "room (k + skip_costs ps) (ip (grown (length bc) ?h h ?t))"
      by (rule range_call [OF enc(1) len(2) g bounds fuel(1) t])
    let ?u = "grown (length bc) ?h h ?t"
    have su: "reaches base sc s (8 + length ?n + length bc) ?h ?u"
      using reaches_then_grown [OF reaches_grown [of base sc s "8 + length ?n" 0 "[]"], of "length bc" ?h h] by simp
    have at: "for_at base s ?u sc e it a b ps bb"
      using b(2-4) enc(2) len(3) it(2-6) by (auto simp: for_at_def iterates_def ahead_append add.commute)
    have room_u: "room k (ip ?u)" by (rule room_mono [OF it(7)]) simp
    obtain p v where p: "loop_fuel n (for_step (exec n) sc [?n] it) (LS_TopLevel, None) ?u = (Inr p, v)"
        "reaches base sc s (8 + length ?n + length bc) (?h + k) v" "result_of (heap v) p r" "in_block base v sc e' (f = Done)"
      by (rule for_runsD [OF rounds at su _ fuel(2,3) room_u]) simp
    have code: "encode_ptr encode (Some (AstSuite ps)) = Inr bb" "length bb < 2 ^ 32" "ptr_ok skippable (Some (AstSuite ps))"
      using enc(2) len ok by (simp_all add: encode_ptr_def)
    have "room (?h + k + skip_costs ps) (ip s)" using b(5) .
    from reaches_room [OF p(2) this]
    have v: "ahead bb (m_data (ip v))" "room (ptr_sum skip_cost (Some (AstSuite ps)) + 0) (ip v)"
      using reaches_ip [OF p(2)] b(4) by (simp_all add: skip_costs_def ahead_append add.commute)
    let ?w = "grown (length bb) (skip_costs ps) [] v"
    have iter: "bnd (obj_at it) f ?u = f (RangeIterator x x y 1) ?u" for f
      using it(4) by (simp add: obj_at_def bnd_gets)
    have "node_for n (exec n) sc s = (Inr p, ?w)"
      by (simp only: node_for_def names eval_ptr_def bnd_simps bnd_eval [OF it(1)] assert_ptr_def option.case iter
          is_generator_def obj_type.simps simp_thms if_True
          bnd_Inr [where m = "loop_fuel n (for_step (exec n) sc [?n] it) (LS_TopLevel, None)", OF p(1)])
        (simp add: skip_step_run(1) [OF code v] ret_def skip_costs_def)
    moreover have "reaches base sc s (length (?name @ bc @ bb)) ?j ?w"
      using reaches_then_grown [OF p(2), of "length bb" "skip_costs ps" "[]"] by (simp add: add.commute add.left_commute)
    ultimately show "case_runs_to base sc s (length (?name @ bc @ bb)) ?j (e', r, f, Suc ?j, c) lp
        (exec_node n (exec n) (Some NT_ForLoop) sc (loop_of lp))"
      using p(3,4) f unfolding exec_node_def
      by (simp, intro case_runs_same [where s' = ?w and d = "f = Done"]) (cases f; auto simp: jumps_def)+
  qed
qed

section \<open>Every statement\<close>

text \<open>What \<open>stmt_exec\<close> says of a statement, its compiled code does.\<close>

lemma statements_run:
  "stmt_exec lp e a w \<Longrightarrow> stmt_runs lp e a w"
  "stmts_exec lp e r ps w \<Longrightarrow> list_runs lp e r ps w"
  "while_exec ls e t ps w \<Longrightarrow> while_runs ls e t ps w"
  "for_exec ls e m i j ps w \<Longrightarrow> \<not> reserved m \<longrightarrow> for_runs ls e m i j ps w"
proof (induction rule: exec_induct)
  case (Exec_Done lp e a e1 r1 k1 m1 ps r)
  then show ?case using list_runs_stop [of lp e a e1 r1 Done k1 m1 ps ps undefined r] by simp
next
  case (Exec_Jump lp e a e1 r1 j k1 m1 qs ps r)
  then show ?case using list_runs_stop [of lp e a e1 r1 "Jump j" k1 m1 qs ps j r] by simp
next
  case (Exec_While_Break t e v ps e1 r1 k1 m1)
  then show ?case using while_runs_last [of t e v ps e1 r1 "Jump LS_Break" k1 m1 Next None] by simp
next
  case (Exec_While_Done t e v ps e1 r1 k1 m1)
  then show ?case using while_runs_last [of t e v ps e1 r1 Done k1 m1 Done r1] by simp
next
  case (Exec_For_Break a b e n ps e1 r1 k1 m1)
  show ?case
    by (intro impI for_runs_last [where ?f1.0 = "Jump LS_Break"]) (use Exec_For_Break in blast)+
next
  case (Exec_For_Done a b e n ps e1 r1 k1 m1)
  show ?case
    by (intro impI for_runs_last [where ?f1.0 = Done]) (use Exec_For_Done in blast)+
qed (blast intro: runs_return runs_expr runs_assign runs_pass runs_break runs_continue runs_if runs_if_not runs_then
  runs_else runs_suite runs_while runs_for list_runs_Nil list_runs_Next while_runs_end while_runs_next
  for_runs_end for_runs_next for_runs_idle)+

end
