(* ===== verification/Compiled_Functions.thy ===== *)
theory Compiled_Functions
  imports Compiled_Range
begin

text \<open>
  Calling a compiled function.  The interpreter runs the bytecode of the body in a scope of its
  own and with an interpreter of its own; the result is the one \<open>stmt_exec\<close> gives, the steps
  are reported to the caller, and apart from new objects the caller's state is unchanged.
\<close>

declare node_code.simps [simp del]

section \<open>Calling a function\<close>

definition bind_env :: "string list \<Rightarrow> pyval list \<Rightarrow> env \<Rightarrow> env" where
  "bind_env params vs e = fold (\<lambda>(n, v) e. e(n \<mapsto> v)) (zip params vs) e"

lemma bind_env_simps [simp]:
  "bind_env [] vs e = e" "bind_env (n # ns) (v # vs) e = bind_env ns vs (e(n \<mapsto> v))"
  by (simp_all add: bind_env_def)

lemma bind_loop:
  assumes "list_all2 (points_to (heap s)) args vs" and "length params = length args"
    and "list_all (\<lambda>n. \<not> reserved n) params" and "in_block base s sc e False"
  shows "\<exists>s'. for_each (zip params args) (\<lambda>pa. scope_set sc (fst pa) (snd pa)) s = (Inr (), s') \<and>
    reaches base sc s 0 0 s' \<and> in_block base s' sc (bind_env params vs e) False"
  using assms
proof (induction params arbitrary: args vs s e)
  case Nil
  then show ?case by (auto simp: ret_def)
next
  case (Cons n params)
  then obtain q args' v vs' where a: "args = q # args'" "vs = v # vs'" "points_to (heap s) q v"
      "list_all2 (points_to (heap s)) args' vs'" "length params = length args'"
    by (cases args; cases vs) auto
  let ?t = "s\<lparr>scopes := set_value (scopes s) sc n q\<rparr>"
  have name: "\<not> reserved n" using Cons.prems(3) by simp
  note t = assign_block [OF Cons.prems(4) a(3) name]
  have "\<exists>s'. for_each (zip params args') (\<lambda>pa. scope_set sc (fst pa) (snd pa)) ?t = (Inr (), s') \<and>
      reaches base sc ?t 0 0 s' \<and> in_block base s' sc (bind_env params vs' (e(n \<mapsto> v))) False"
    by (rule Cons.IH [OF _ _ _ t(1)]) (use a(4,5) Cons.prems(3) in simp_all)
  then obtain s' where s': "for_each (zip params args') (\<lambda>pa. scope_set sc (fst pa) (snd pa)) ?t = (Inr (), s')"
      "reaches base sc ?t 0 0 s'" "in_block base s' sc (bind_env params vs' (e(n \<mapsto> v))) False" by blast
  have "for_each (zip (n # params) args) (\<lambda>pa. scope_set sc (fst pa) (snd pa)) s = (Inr (), s')"
    using s'(1) by (simp add: a(1) scope_set_def on_scopes_def bnd_modify)
  then show ?case using s'(3) reaches_trans [OF t(2) s'(2)] a(2) by auto
qed

text \<open>Single steps, with their continuations.\<close>

lemma bnd_steps:
  "bnd (gets g) f0 s = f0 (g s) s"
  "bnd (modify m) f s = f () (m s)"
  "bnd (push_scope x) f' s = f' (length (scopes s)) (s\<lparr>scopes := scopes s @ [x]\<rparr>)"
  "bnd (on_heap (halloc z)) f' s = f' (length (heap s)) (s\<lparr>heap := heap s @ [z]\<rparr>)"
  "bnd (lift_sum (Inr y)) g' s = g' y s"
  "bnd (on_ip (modify n)) f s = f () (s\<lparr>ip := n (ip s)\<rparr>)"
  by (simp_all add: bnd_def gets_def modify_def push_scope_def on_heap_def on_part_def halloc_def lift_sum_def on_ip_def)

text \<open>What \<open>enter_function\<close> sets up.\<close>

definition entered :: "u8 list \<Rightarrow> nat \<Rightarrow> u32 \<Rightarrow> u32 \<Rightarrow> vm \<Rightarrow> vm" where
  "entered code sc cur lim s =
     s\<lparr>heap := heap s @ [PersistVal empty_persist],
       scopes := scopes s @
         [root_scope\<lparr>m_parent := Some sc, m_require_global := True, depth := depth (scopes s ! sc) + 1\<rparr>,
          root_scope\<lparr>m_values := [''store'' \<mapsto> Some (length (heap s))]\<rparr>],
       ip := \<lparr>m_data = bitstream_of code, m_num_execution_steps = cur, m_execution_step_limit = lim,
              m_loaded_modules = Map.empty, m_store = length (heap s), m_global_scope = Suc (length (scopes s))\<rparr>\<rparr>"

lemma enter_function_run:
  assumes "depth (scopes s ! sc) + 1 < 128" and "sc < length (scopes s)" and "lim \<noteq> 0"
  shows "enter_function code sc cur lim s = (Inr (length (scopes s)), entered code sc cur lim s)"
  using assms
proof -
  have limit: "set_execution_step_limit lim = modify (\<lambda>i. i\<lparr>m_execution_step_limit := lim\<rparr>)"
    using assms(3) by (simp add: set_execution_step_limit_def)
  have push: "bnd (push_child sc) f s = f (length (scopes s))
      (s\<lparr>scopes := scopes s @ [root_scope\<lparr>m_parent := Some sc, depth := depth (scopes s ! sc) + 1\<rparr>]\<rparr>)" for f
    using assms(1) by (simp add: push_child_def bnd_gets child_scope_def Let_def bnd_steps)
  show ?thesis
    by (simp add: enter_function_def push new_interpreter_def on_scopes_def require_global_def limit
        set_num_execution_steps_def bnd_steps scope_set_def set_value.simps [of _ "Suc (length (scopes s))"]
        entered_def ret_def nth_append list_update_append)
      (simp add: root_scope_def put_value_def nth_append list_update_append)
qed

lemma entered_state:
  assumes "0 \<le> depth (scopes s ! sc)" and "sc < length (scopes s)" and "length code < 2 ^ 32"
  shows "in_block (length (scopes s)) (entered code sc cur lim s) (length (scopes s)) Map.empty False"
proof -
  have "block_scope (scopes (entered code sc cur lim s)) (length (scopes s)) (length (scopes s))"
    by (rule block_scope.own) (simp_all add: entered_def nth_append root_scope_def)
  then show ?thesis
    using assms
    by (simp add: in_block_def scope_knows_def entered_def get_depth_def is_terminated_def nth_append root_scope_def bitstream_of_def)
qed

lemma no_defaults: "filter (\<lambda>pd. snd pd \<noteq> None) (zip params (replicate k (None :: valueptr))) = []"
  by (auto simp: filter_empty_conv dest: set_zip_rightD)

lemma all_required:
  "length (filter (\<lambda>pd. snd pd = None) (zip params (replicate (length params) (None :: valueptr)))) = length params"
proof -
  have "filter (\<lambda>pd. snd pd = None) (zip params (replicate (length params) (None :: valueptr))) =
      zip params (replicate (length params) None)"
    by (rule filter_True) (auto dest: set_zip_rightD)
  then show ?thesis by simp
qed

text \<open>What a call leaves behind: the heap has grown.\<close>

lemma entered_left:
  assumes "reaches (length (scopes s)) b (entered code sc cur lim s) n k w"
  obtains h where "w\<lparr>scopes := take (length (scopes s)) (scopes w), ip := ip s\<rparr> = s\<lparr>heap := heap s @ h\<rparr>"
proof -
  let ?t = "entered code sc cur lim s"
  obtain h ss where w: "w = (grown n k h ?t)\<lparr>scopes := ss\<rparr>" "scopes_step (length (scopes s)) b (scopes ?t) ss"
    using assms by (auto simp: reaches_def)
  have "length ss = length (scopes ?t)" using w(2) by (simp add: scopes_step_def same_shape_length)
  then have "take (length (scopes s)) ss = scopes s"
    using w(2) by (intro nth_equalityI) (auto simp: scopes_step_def entered_def nth_append)
  then have "w\<lparr>scopes := take (length (scopes s)) (scopes w), ip := ip s\<rparr> = s\<lparr>heap := heap s @ (PersistVal empty_persist # h)\<rparr>"
    by (simp add: w(1) grown_def entered_def)
  then show ?thesis by (rule that)
qed

text \<open>A call of a function all of whose parameters are required.\<close>

lemma vm_call_runs:
  assumes code: "encode b = Inr bs" "length bs < 2 ^ 32" and body: "stmt_exec False (bind_env params vs Map.empty) b (e', r, f, k, m)"
    and fuel: "size b + m < n" and args: "list_all2 (points_to (heap s)) args vs" "length params = length args"
    and names: "list_all (\<lambda>n. \<not> reserved n) params"
    and depth: "0 \<le> depth (scopes s ! sc)" "depth (scopes s ! sc) + 1 + int (loop_depth b) < 128" "sc < length (scopes s)"
    and room: "lim \<noteq> 0" "unat cur + k < unat lim"
  shows "\<exists>p h. vm_function_call (exec n) bs params (replicate (length params) None) args sc cur lim s =
      (Inr (Inr p, cur + of_nat k), s\<lparr>heap := heap s @ h\<rparr>) \<and> result_of (heap s @ h) p r"
proof -
  let ?b = "length (scopes s)"
  let ?t = "entered bs sc cur lim s"
  have heap: "heap ?t = heap s @ [PersistVal empty_persist]" and ip: "ahead bs (m_data (ip ?t))" "room k (ip ?t)"
    using room by (simp_all add: entered_def room_def) (simp add: ahead_def bitstream_of_def)
  have "list_all2 (points_to (heap ?t)) args vs"
    using args(1) unfolding heap by (rule list_all2_mono) (rule points_to_append)
  then obtain u where u: "for_each (zip params args) (\<lambda>pa. scope_set ?b (fst pa) (snd pa)) ?t = (Inr (), u)"
      "reaches ?b ?b ?t 0 0 u" "in_block ?b u ?b (bind_env params vs Map.empty) False"
    using bind_loop [OF _ args(2) names entered_state [OF depth(1,3) code(2)]] by blast
  have "get_depth (scopes u) ?b + int (loop_depth b) < 128"
    using reaches_depth [OF u(2)] depth(2) by (simp add: entered_def get_depth_def nth_append root_scope_def)
  moreover have "ahead bs (m_data (ip u))" "room k (ip u)" using ip reaches_ip [OF u(2)] by simp_all
  ultimately obtain p w where w: "exec n ?b (loop_of False) u = (Inr (p, state_after (loop_of False) f), w)"
      "reaches ?b ?b u (bytes_after (length bs) f) k w" "result_of (heap w) p r"
    by (rule stmt_runsD [OF statements_run(1) [OF body] code fuel u(3)])
  have "jumps False f" using statements_run(1) [OF body] by (simp add: stmt_runs_def)
  then have "state_after (loop_of False) f = LS_None" by (cases f) (auto simp: jumps_def loop_of_def)
  then have run: "exec n ?b LS_None u = (Inr (p, LS_None), w)" using w(1) by (simp add: loop_of_def)
  have "bind_arguments ?b params (replicate (length params) None) args ?t = (Inr (), u)"
    unfolding bind_arguments_def no_defaults all_required using u(1) args(2) by simp
  moreover have "depth (scopes s ! sc) + 1 < 128" using depth(2) by simp
  ultimately have "vm_function_body (exec n) bs params (replicate (length params) None) args sc cur lim s =
      (Inr (Inr p, m_num_execution_steps (ip w)), w)"
    using enter_function_run [OF _ depth(3) room(1), of bs cur] eval_exec [OF run]
    by (simp add: vm_function_body_def bnd_def catch_def gets_def ret_def)
  moreover have tw: "reaches ?b ?b ?t (bytes_after (length bs) f) k w" using reaches_trans [OF u(2) w(2)] by simp
  then have "m_num_execution_steps (ip w) = cur + of_nat k"
    by (simp add: reaches_ip entered_def advance_ip_def)
  moreover obtain h where h: "w\<lparr>scopes := take ?b (scopes w), ip := ip s\<rparr> = s\<lparr>heap := heap s @ h\<rparr>"
    by (rule entered_left [OF tw])
  moreover have "heap w = heap s @ h" using arg_cong [OF h, of heap] by simp
  ultimately show ?thesis
    using w(3) by (auto simp: vm_function_call_def own_interp_def bnd_def ret_def)
qed

section \<open>Properties\<close>

text \<open>
  C9: compiled functions mean what the source says.  Take a function whose body is made of
  assignments to names, \<open>if\<close>, \<open>else\<close>, \<open>while\<close>, \<open>for\<close> over a range, \<open>break\<close>, \<open>continue\<close>, \<open>return\<close>,
  \<open>pass\<close> and expressions, nested as one likes, and call it with as many arguments as it has
  parameters.  If by the source semantics \<open>stmt_exec\<close>, started with the parameters bound to the
  arguments' values, the body ends with the result \<open>r\<close> at a cost of \<open>k\<close> steps, then the
  interpreter's call, on the bytecode the compiler made of the body, ends, returns an object
  that holds \<open>r\<close> and reports \<open>k\<close> more steps; the caller's interpreter, scopes, chain state and
  output are as before, and the heap has only grown.  The fuel covers the size of the body and
  the rounds its loops run, and every level of nested loops needs a level of scopes.  Here a
  function without a \<open>return\<close> gives the value of its last statement, what is not executed costs
  what it takes to skip it, and names first assigned in the body of a loop last for the round.
\<close>

theorem compiled_functions_run:
  assumes "encode b = Inr bs" and "length bs < 2 ^ 32"
    and "stmt_exec False (bind_env params vs Map.empty) b (e', r, f, k, m)"
    and "size b + m < n" and "list_all2 (points_to (heap s)) args vs" and "length params = length args"
    and "list_all (\<lambda>m. \<not> reserved m) params"
    and "0 \<le> depth (scopes s ! sc)" and "depth (scopes s ! sc) + 1 + int (loop_depth b) < 128" and "sc < length (scopes s)"
    and "lim \<noteq> 0" and "unat cur + k < unat lim"
  shows "\<exists>p h. vm_function_call (exec n) bs params (replicate (length params) None) args sc cur lim s =
      (Inr (Inr p, cur + of_nat k), s\<lparr>heap := heap s @ h\<rparr>) \<and> result_of (heap s @ h) p r"
  using assms by (rule vm_call_runs)

text \<open>
  \<^verbatim>\<open>def f(x): t = 0; for i in range(x): if i > 1: break; t = t + i; while t < 2: t = t + t; return t\<close>
\<close>

definition demo_body :: ast where
  "demo_body = AstSuite
    [Some (AstAssign [Some (AstName ''t'')] (Some (AstNumber NumInteger 0))),
     Some (AstFor (Some (AstName ''i'')) (Some (AstCall (Some (AstName ''range'')) [Some (AstName ''x'')]))
       (Some (AstSuite
         [Some (AstIf (Some (AstCompare (Some (AstName ''i'')) [(Cmp_More, Some (AstNumber NumInteger 1))]))
            (Some AstBreak) None),
          Some (AstAssign [Some (AstName ''t'')] (Some (AstBinOp (Some (AstName ''t'')) Bin_Add (Some (AstName ''i'')))))]))),
     Some (AstWhile (Some (AstCompare (Some (AstName ''t'')) [(Cmp_Less, Some (AstNumber NumInteger 2))]))
       (Some (AstSuite
         [Some (AstAssign [Some (AstName ''t'')] (Some (AstBinOp (Some (AstName ''t'')) Bin_Add (Some (AstName ''t'')))))]))),
     Some (AstReturn (Some (AstName ''t'')))]"

lemma demo_body_value:
  "\<exists>e'. stmt_exec False (bind_env [''x''] [PInt 5] Map.empty) demo_body (e', Some (PInt 2), Done, 78, 6)"
proof -
  have "\<exists>e'. stmt_value 12 False (bind_env [''x''] [PInt 5] Map.empty) demo_body = Some (e', Some (PInt 2), Done, 78, 6)"
    by (simp add: demo_body_def eval_nat_numeral value_steps c_str_def name_value_def compare_value_def cost_more_def
        round_more_def round_value_def skip_costs_def range_bounds_def args_cost_def reserved_def builtin_of_def
        binary_value_def arith_value_def wrap32_def signed_take_bit_int_eq_self_iff restrict_map_def Let_def domIff
        del: dom_fun_upd)
  then show ?thesis using value_exec [THEN conjunct1] by blast
qed

lemma demo_body_code: "\<exists>bs. encode demo_body = Inr bs \<and> length bs < 2 ^ 32"
  by (simp add: demo_body_def node_bytes_eq word_bytes_def string_bytes_def encode_ptr_def encode_list_def
      encode_item_def c_str_def)

theorem compiled_functions_run_witness:
  "\<exists>bs s p s'. vm_function_call (exec 99) bs [''x''] [None] [Some 0] 0 1 150 s = (Inr (Inr p, 79), s') \<and>
     points_to (heap s') p (PInt 2)"
proof -
  obtain bs where bs: "encode demo_body = Inr bs" "length bs < 2 ^ 32" using demo_body_code by blast
  obtain e' where e': "stmt_exec False (bind_env [''x''] [PInt 5] Map.empty) demo_body (e', Some (PInt 2), Done, 78, 6)"
    using demo_body_value by blast
  let ?s = "(demo_vm [] 150)\<lparr>heap := [IntVal 5]\<rparr>"
  have "\<exists>p h. vm_function_call (exec 99) bs [''x''] (replicate (length [''x'']) None) [Some 0] 0 1 150 ?s =
      (Inr (Inr p, 1 + of_nat 78), ?s\<lparr>heap := heap ?s @ h\<rparr>) \<and> result_of (heap ?s @ h) p (Some (PInt 2))"
    by (rule compiled_functions_run [OF bs e'])
      (simp_all add: demo_body_def points_to_def reserved_def builtin_of_def demo_vm_def root_scope_def)
  then obtain p h where run: "vm_function_call (exec 99) bs [''x''] [None] [Some 0] 0 1 150 ?s =
      (Inr (Inr p, 79), ?s\<lparr>heap := heap ?s @ h\<rparr>)" and val: "points_to (heap ?s @ h) p (PInt 2)"
    by (auto simp: result_of_def)
  show ?thesis by (intro exI conjI, rule run) (use val in simp)
qed

end
