(* ===== verification/Compiled_Contract.thy ===== *)
theory Compiled_Contract
  imports Compiled_Functions Contract
begin

text \<open>
  From source to answer: what running a compiled function definition does, and the whole way of
  a contract, a module of functions, through the compiler, \<open>execute\<close>, which binds the function, and
  \<open>calldata\<close>, which decodes the arguments and calls it.
\<close>

declare node_code.simps [simp del]

section \<open>Function definitions\<close>

definition function_def :: "string \<Rightarrow> string list \<Rightarrow> ast \<Rightarrow> ast" where
  "function_def f params body =
     AstFunctionDef (Some (AstName f)) (map (\<lambda>n. Some (AstName n)) params) (replicate (length params) None) (Some body)"

definition name_code :: "string \<Rightarrow> u8 list" where
  "name_code n = be32 (node_code NT_Name) @ enc_string (c_str n)"

definition function_code :: "string \<Rightarrow> string list \<Rightarrow> u8 list \<Rightarrow> u8 list" where
  "function_code f params stub =
     name_code f @ be32 (of_nat (length stub)) @ be32 (node_code NT_FunctionStart) @
     be32 (of_nat (length params)) @ concat (map name_code params) @
     be32 (node_code NT_FunctionStartDefaults) @
     be32 (of_nat (length params)) @ concat (replicate (length params) (be32 (node_code NT_Pass))) @
     be32 (node_code NT_FunctionStartStub) @ stub @ be32 (node_code NT_FunctionEnd)"

lemma cats_map_Inr: "cats (map (\<lambda>x. Inr (f x)) xs) = Inr (concat (map f xs))"
  by (induction xs) (simp_all add: cats_Cons)

lemma encode_function_def:
  assumes "encode body = Inr stub"
  shows "encode (function_def f params body) = Inr (be32 (node_code NT_FunctionDef) @ function_code f params stub)"
proof -
  have name: "encode (AstName n) = Inr (name_code n)" for n
    by (simp add: node_bytes_eq string_bytes_def name_code_def)
  have "encode_list (encode_item encode) (map (\<lambda>n. Some (AstName n)) params) =
      Inr (be32 (of_nat (length params)) @ concat (map name_code params))"
    by (simp add: encode_list_def word_bytes_def encode_item_def comp_def name cats_map_Inr del: encode.simps)
  moreover have "encode_list (encode_item encode) (replicate k None) =
      Inr (be32 (of_nat k) @ concat (replicate k (be32 (node_code NT_Pass))))" for k
    using cats_map_Inr [of "\<lambda>_. be32 (node_code NT_Pass)" "replicate k ()"]
    by (simp add: encode_list_def word_bytes_def encode_item_def node_bytes_eq map_replicate_const)
  ultimately show ?thesis
    using assms name [of f]
    by (simp add: function_def_def node_bytes_eq length_bytes_def word_bytes_def encode_ptr_def function_code_def
        del: encode.simps(4))
qed

text \<open>
  \<open>eats\<close> for programs of the whole machine that may also allocate: with \<open>bs\<close> ahead and room for
  \<open>k\<close> steps, \<open>m\<close> returns \<open>x\<close>, which may depend on the heap it found, and has added \<open>h\<close> to it.
\<close>

definition builds :: "'a exec \<Rightarrow> u8 list \<Rightarrow> nat \<Rightarrow> (heap \<Rightarrow> 'a) \<Rightarrow> heap \<Rightarrow> bool" where
  "builds m bs k x h \<longleftrightarrow> (\<forall>s. ahead bs (m_data (ip s)) \<longrightarrow> room k (ip s) \<longrightarrow>
     m s = (Inr (x (heap s)), grown (length bs) k h s))"

definition xeats :: "'a exec \<Rightarrow> u8 list \<Rightarrow> nat \<Rightarrow> 'a \<Rightarrow> bool" where
  "xeats m bs k x \<longleftrightarrow> builds m bs k (\<lambda>_. x) []"

lemma builds_bnd:
  assumes "xeats m xs j x" and "builds (f x) ys k y h"
  shows "builds (bnd m f) (xs @ ys) (j + k) y h"
  unfolding builds_def
proof (intro allI impI)
  fix s :: vm assume s: "ahead (xs @ ys) (m_data (ip s))" "room (j + k) (ip s)"
  then have "m s = (Inr x, grown (length xs) j [] s)"
    using assms(1) room_mono [OF s(2) le_add1] by (simp add: xeats_def builds_def ahead_append)
  moreover have "f x (grown (length xs) j [] s) = (Inr (y (heap s)), grown (length xs + length ys) (j + k) h s)"
    using assms(2) s by (simp add: builds_def ahead_append room_advance)
  ultimately show "bnd m f s = (Inr (y (heap s)), grown (length (xs @ ys)) (j + k) h s)" by (simp add: bnd_def)
qed

lemma xeats_bnd: "xeats m xs j x \<Longrightarrow> xeats (f x) ys k y \<Longrightarrow> xeats (bnd m f) (xs @ ys) (j + k) y"
  using builds_bnd [of m xs j x f ys k "\<lambda>_. y" "[]"] by (simp add: xeats_def)

lemma xeats_on_ip: "eats m bs k x \<Longrightarrow> xeats (on_ip m) bs k x"
  by (simp add: xeats_def builds_def on_ip_eats)

lemma xeats_ret: "xeats (ret x) [] 0 x"
  by (simp add: xeats_def builds_def ret_def grown_def)

lemma xeats_same: "xeats (throw_if (x \<noteq> x) e) [] 0 ()"
  by (simp add: xeats_ret)

lemma xeats_charge: "xeats (on_ip charge) [] 1 ()"
  by (rule xeats_on_ip [OF eats_charge])

lemma builds_hnew: "builds (on_heap (hnew z)) [] 0 (\<lambda>h. Some (length h)) [z]"
  by (simp add: builds_def on_heap_def on_part_def hnew_run grown_def)

lemma xeats_gets: "(\<And>x. xeats (f x) bs k y) \<Longrightarrow> xeats (bnd (gets g) f) bs k y"
  by (simp add: xeats_def builds_def bnd_gets)

lemma xeats_expect: "xeats (expect_type t e) (be32 (node_code t)) 0 ()"
proof -
  have "xeats (bnd (on_ip rd_u32) (\<lambda>n. throw_if (node_type_of n \<noteq> Some t) e)) (be32 (node_code t) @ []) (0 + 0) ()"
    by (rule xeats_bnd [OF xeats_on_ip [OF eats_u32]]) (simp add: xeats_ret)
  then show ?thesis by (simp add: expect_type_def)
qed

lemma xeats_bytes:
  assumes "length bs < 2 ^ 32"
  shows "xeats (rd_bytes (of_nat (length bs))) bs 0 bs"
proof -
  have "unat (of_nat (length bs) :: u32) = length bs" using assms by (simp add: unat_of_nat take_bit_nat_eq_self)
  then show ?thesis
    by (simp add: xeats_def builds_def rd_bytes_def bs_Read_def raw_read_ahead grown_def advance_ip_def)
qed

lemma xeats_times:
  assumes "\<And>x a. x \<in> set xs \<Longrightarrow> P a \<Longrightarrow> xeats (f a) (bs x) (k x) (g x a) \<and> P (g x a)" and "P a"
  shows "xeats (times (length xs) (\<lambda>a. bnd (on_ip charge) (\<lambda>_. f a)) a) (concat (map bs xs))
    (sum_list (map (\<lambda>x. Suc (k x)) xs)) (fold g xs a)"
  using assms
proof (induction xs arbitrary: a)
  case (Cons x xs)
  have "xeats (bnd (on_ip charge) (\<lambda>_. f a)) (bs x) (Suc (k x)) (g x a)"
    using xeats_bnd [OF xeats_charge, of "\<lambda>_. f a" "bs x" "k x"] Cons.prems(1) [of x a] Cons.prems(2) by simp
  moreover have "xeats (times (length xs) (\<lambda>a. bnd (on_ip charge) (\<lambda>_. f a)) (g x a)) (concat (map bs xs))
      (sum_list (map (\<lambda>x. Suc (k x)) xs)) (fold g xs (g x a))"
    by (rule Cons.IH) (use Cons.prems in auto)
  ultimately show ?case
    using xeats_bnd [where f = "times (length xs) (\<lambda>a. bnd (on_ip charge) (\<lambda>_. f a))"] by fastforce
qed (simp add: xeats_ret)

lemma xeats_exec_times:
  assumes "\<And>x a. x \<in> set xs \<Longrightarrow> P a \<Longrightarrow> xeats (f a) (bs x) (k x) (g x a) \<and> P (g x a)" and "P a"
    and "length xs < 2 ^ 32"
  shows "xeats (exec_times (of_nat (length xs)) f a) (concat (map bs xs)) (sum_list (map (\<lambda>x. Suc (k x)) xs)) (fold g xs a)"
proof -
  have "unat (of_nat (length xs) :: u32) = length xs"
    using assms(3) by (simp add: unat_of_nat take_bit_nat_eq_self)
  then show ?thesis using xeats_times [of xs P f bs k g a] assms(1,2) by (simp add: exec_times_def)
qed

text \<open>The loop over the parameters' names and the one over their absent defaults.\<close>

lemma eats_read_name_code: "length (name_code n) < 2 ^ 32 \<Longrightarrow> eats read_name (name_code n) 0 (c_str n)"
  unfolding read_name_def name_code_def by (intro eats_u32_then) (simp add: eats_string)

lemma xeats_names:
  assumes "length (concat (map name_code ns)) < 2 ^ 32"
  shows "xeats (exec_times (of_nat (length ns)) (\<lambda>args. bnd (on_ip read_name) (\<lambda>arg. ret (args @ [arg]))) [])
    (concat (map name_code ns)) (length ns) (map c_str ns)"
proof -
  have one: "length (name_code n) < 2 ^ 32" if "n \<in> set ns" for n
    using that assms by (induction ns) auto
  have "xeats (bnd (on_ip read_name) (\<lambda>arg. ret (a @ [arg]))) (name_code n) 0 (a @ [c_str n])" if "n \<in> set ns" for n a
    using xeats_bnd [OF xeats_on_ip [OF eats_read_name_code [OF one [OF that]]] xeats_ret, of "\<lambda>arg. a @ [arg]"] by simp
  moreover have "length ns < 2 ^ 32"
  proof -
    have "length ns \<le> length (concat (map name_code ns))" by (induction ns) (simp_all add: name_code_def)
    then show ?thesis using assms by simp
  qed
  moreover have "fold (\<lambda>n a. a @ [c_str n]) ns acc = acc @ map c_str ns" for acc
    by (induction ns arbitrary: acc) simp_all
  moreover have "sum_list (map (\<lambda>n. Suc 0) ns) = length ns" by (induction ns) simp_all
  ultimately show ?thesis
    using xeats_exec_times [of ns "\<lambda>_. True" "\<lambda>args. bnd (on_ip read_name) (\<lambda>arg. ret (args @ [arg]))" name_code "\<lambda>_. 0"
        "\<lambda>n a. a @ [c_str n]" "[]"] by simp
qed

lemma xeats_pass: "0 < n \<Longrightarrow> xeats (eval (exec n) sc) (be32 (node_code NT_Pass)) 1 None"
proof -
  assume "0 < n"
  then obtain m where n: "n = Suc m" by (cases n) auto
  have "exec n sc LS_None s = (Inr (None, LS_None), grown 4 1 [] s)"
    if "ahead (be32 (node_code NT_Pass)) (m_data (ip s))" "room 1 (ip s)" for s
    using exec_node_result [OF that, of sc m LS_None None LS_None "grown 4 1 [] s"] n
    by (simp add: top_level_ok_def exec_node_def ret_def)
  then show ?thesis by (simp add: xeats_def builds_def eval_exec)
qed

lemma xeats_defaults:
  assumes "0 < n" and "k < 2 ^ 32"
  shows "xeats (exec_times (of_nat k) (read_default (exec n)) ([], False))
    (concat (replicate k (be32 (node_code NT_Pass)))) (2 * k) (replicate k None, False)"
proof -
  have one: "xeats (read_default (exec n) (a, False)) (be32 (node_code NT_Pass)) 1 (a @ [None], False)" for a
  proof -
    have "xeats (bnd (eval (exec n) sc) (\<lambda>arg. let non_standard = snd (a, False) \<or> arg \<noteq> None in
        bnd (throw_if (arg = None \<and> non_standard) (RuntimeError ''Non-default argument follows default argument''))
          (\<lambda>_. ret (fst (a, False) @ [arg], non_standard))))
      (be32 (node_code NT_Pass) @ []) (1 + 0) (a @ [None], False)" for sc
      by (rule xeats_bnd [OF xeats_pass [OF assms(1)]]) (simp add: xeats_ret)
    then show ?thesis unfolding read_default_def by (intro xeats_gets) simp
  qed
  have "((\<lambda>(a, b). (a @ [None], b)) ^^ k) (acc :: valueptr list, False) = (acc @ replicate k None, False)" for acc
    by (induction k) (simp_all add: replicate_append_same)
  moreover have "sum_list (replicate k (Suc (Suc 0))) = 2 * k" by (simp add: sum_list_replicate)
  ultimately show ?thesis
    using xeats_exec_times [of "replicate k ()" "\<lambda>a. \<not> snd a" "read_default (exec n)" "\<lambda>_. be32 (node_code NT_Pass)" "\<lambda>_. 1"
        "\<lambda>_ (a, b). (a @ [None], b)" "([], False)"] one assms(2)
    by (auto simp: split_beta)
qed

text \<open>Parsing the stub of a function makes the callable object.\<close>

lemma builds_stub:
  assumes "length (function_code f params stub) < 2 ^ 32" and "0 < n"
  shows "builds (read_function_stub (exec n)) (drop (length (name_code f)) (function_code f params stub))
    (3 * length params) (\<lambda>h. Some (length h))
    [CallableVMFunction stub (map c_str params) (replicate (length params) None)]"
proof -
  let ?k = "length params"
  have "?k \<le> length (concat (map name_code params))"
    by (induction params) (simp_all add: name_code_def)
  then have len: "length stub < 2 ^ 32" "length (concat (map name_code params)) < 2 ^ 32" "?k < 2 ^ 32"
    using assms(1) by (simp_all add: function_code_def)
  note xs = xeats_on_ip [OF eats_u32] xeats_expect xeats_names [OF len(2)] xeats_defaults [OF assms(2) len(3)]
    xeats_bytes [OF len(1)] xeats_same
  have "builds (read_function_stub (exec n))
    (be32 (of_nat (length stub)) @ be32 (node_code NT_FunctionStart) @ be32 (of_nat ?k) @ concat (map name_code params) @
     be32 (node_code NT_FunctionStartDefaults) @ be32 (of_nat ?k) @ [] @ concat (replicate ?k (be32 (node_code NT_Pass))) @
     be32 (node_code NT_FunctionStartStub) @ stub @ be32 (node_code NT_FunctionEnd) @ [])
    (0 + (0 + (0 + (?k + (0 + (0 + (0 + (2 * ?k + (0 + (0 + (0 + 0)))))))))))
    (\<lambda>h. Some (length h)) [CallableVMFunction stub (map c_str params) (fst (replicate ?k None, False))]"
    unfolding read_function_stub_def
    by ((rule builds_bnd, rule xs)+, rule builds_hnew)
  then show ?thesis by (simp add: function_code_def)
qed

text \<open>Executing a function definition, at the top level or in a function.\<close>

lemma node_function_def_run:
  assumes "on_ip read_name t = (Inr nm, u)" and "nm \<noteq> []" and "read_function_stub rec u = (Inr (Some a), w)"
  shows "node_function_def rec sc t = (Inr None, w\<lparr>scopes := set_value (scopes w) sc nm (Some a)\<rparr>)"
  using assms
  by (simp add: node_function_def_def bnd_Inr [where m = "on_ip read_name", OF assms(1)]
      bnd_Inr [where m = "read_function_stub rec", OF assms(3)] assert_ptr_def scope_set_def on_scopes_def
      bnd_modify ret_def)

lemma exec_node_function_def:
  "node_function_def (exec n) sc t = (Inr p, w) \<Longrightarrow>
   exec_node n (exec n) (Some NT_FunctionDef) sc LS_None t = (Inr (p, LS_None), w)"
  by (simp add: exec_node_def same_state_run)

lemma function_def_run:
  assumes stub: "encode body = Inr stub" and code: "encode (function_def f params body) = Inr code"
    and len: "length code < 2 ^ 32" and name: "c_str f \<noteq> []" and n: "0 < n"
    and ahead: "ahead code (m_data (ip s))" and room: "room (Suc (3 * length params)) (ip s)"
  shows "exec (Suc n) sc LS_None s = (Inr (None, LS_None),
    (grown (length code) (Suc (3 * length params))
       [CallableVMFunction stub (map c_str params) (replicate (length params) None)] s)
    \<lparr>scopes := set_value (scopes s) sc (c_str f) (Some (length (heap s)))\<rparr>)"
proof -
  let ?rest = "drop (length (name_code f)) (function_code f params stub)"
  let ?obj = "CallableVMFunction stub (map c_str params) (replicate (length params) None)"
  have fc: "function_code f params stub = name_code f @ ?rest" by (simp add: function_code_def)
  have c: "code = be32 (node_code NT_FunctionDef) @ name_code f @ ?rest"
    using code encode_function_def [OF stub, of f params] fc by simp
  let ?t = "grown 4 1 [] s"
  let ?u = "grown (length (name_code f)) 0 [] ?t"
  let ?w = "grown (length ?rest) (3 * length params) [?obj] ?u"
  have lens: "length (name_code f) < 2 ^ 32" "length (function_code f params stub) < 2 ^ 32"
  proof -
    have "length (name_code f) \<le> length (function_code f params stub)" by (subst fc) simp
    moreover have "length code = 4 + length (function_code f params stub)" using c fc by simp
    ultimately show "length (name_code f) < 2 ^ 32" "length (function_code f params stub) < 2 ^ 32"
      using len by linarith+
  qed
  have a: "ahead (be32 (node_code NT_FunctionDef)) (m_data (ip s))" "ahead (name_code f) (m_data (ip ?t))"
    "ahead ?rest (m_data (ip ?u))"
    using ahead by (simp_all add: c ahead_append)
  have r: "room 1 (ip s)" "room 0 (ip ?t)" "room (3 * length params) (ip ?u)"
    using room_mono [OF room, of 1] room_advance [of 1 0 "ip s"] room_advance [of 1 "3 * length params" "ip s"] room
    by simp_all
  have "read_function_stub (exec n) ?u = (Inr (Some (length (heap ?u))), ?w)"
    using builds_stub [OF lens(2) n] a(3) r(3) unfolding builds_def by blast
  note def_run = exec_node_function_def [OF node_function_def_run [OF
      on_ip_eats [OF eats_read_name_code [OF lens(1)] a(2) r(2)] name this]]
  have "get_depth (scopes s) sc = 0 \<longrightarrow> top_level_ok (node_code NT_FunctionDef)" by (simp add: top_level_ok_def)
  from exec_node_result [OF a(1) r(1) this def_run quiet_simps(1)] show ?thesis
    by (simp add: c add.assoc)
qed

section \<open>Call data\<close>

text \<open>What a caller writes: the name, the number of arguments, and each of them with its type.\<close>

fun arg_bytes :: "pyval \<Rightarrow> u8 list" where
  "arg_bytes (PStr x) = be32 1 @ enc_string x"
| "arg_bytes (PInt i) = be32 2 @ be64 (word_of_int i)"
| "arg_bytes (PBool b) = be32 4 @ [if b then 1 else 0]"

definition call_bytes :: "string \<Rightarrow> pyval list \<Rightarrow> u8 list" where
  "call_bytes f vs = enc_string f @ be32 (of_nat (length vs)) @ concat (map arg_bytes vs)"

fun encodable :: "pyval \<Rightarrow> bool" where
  "encodable (PStr x) = (length x < 2 ^ 32)"
| "encodable (PInt i) = (- (2 ^ 63) \<le> i \<and> i < 2 ^ 63)"
| "encodable (PBool b) = True"

lemma get_bool_ahead: "ahead [b] s \<Longrightarrow> get_bool s = (Inr (b \<noteq> 0), skip_bytes 1 s)"
  by (simp add: get_bool_def read_pod_ahead)

lemma read_argument_run:
  assumes "ahead (arg_bytes v) bs" and "encodable v"
  shows "\<exists>z. read_argument bs s =
    (Inr (Some (length (heap s)), skip_bytes (length (arg_bytes v)) bs), grown 0 0 [z] s) \<and> is_value z v"
proof -
  note run = read_argument_def read_from_def bnd_def ret_def on_heap_def on_part_def hnew_run grown_def
  show ?thesis
  proof (cases v)
    case (PStr x)
    with assms show ?thesis
      using get_u32_ahead [of 1 bs] get_string_ahead [of x "skip_bytes 4 bs"] by (simp add: ahead_append run)
  next
    case (PInt i)
    then have "sint (word_of_int i :: i64) = i"
      using assms(2) by (simp add: sint_sbintrunc' signed_take_bit_int_eq_self_iff)
    with PInt assms show ?thesis
      using get_u32_ahead [of 2 bs] get_i64_ahead [of "word_of_int i" "skip_bytes 4 bs"]
      by (intro exI [of _ "IntVal (word_of_int i)"]) (simp add: ahead_append run)
  next
    case (PBool b)
    with assms show ?thesis
      using get_u32_ahead [of 4 bs] get_bool_ahead [of "if b then 1 else 0" "skip_bytes 4 bs"]
      by (simp add: ahead_append run)
  qed
qed

lemma read_arguments_run:
  assumes "ahead (concat (map arg_bytes vs)) bs" and "list_all encodable vs" and "room (length vs) (ip s)"
  shows "\<exists>ps zs bs'. times (length vs) (\<lambda>a. bnd (on_ip charge) (\<lambda>_. (case a of (args, bs) \<Rightarrow>
        bnd (read_argument bs) (\<lambda>(p, bs'). ret (args @ [p], bs'))))) (args, bs) s =
      (Inr (args @ ps, bs'), grown 0 (length vs) zs s) \<and>
    list_all2 (points_to (heap s @ zs)) ps vs"
  using assms
proof (induction vs arbitrary: s bs args)
  case Nil
  have "s = grown 0 0 [] s" by (simp add: grown_def)
  then show ?case by (simp add: ret_def) metis
next
  case (Cons v vs)
  let ?t = "grown 0 1 [] s"
  obtain z where z: "read_argument bs ?t =
      (Inr (Some (length (heap s)), skip_bytes (length (arg_bytes v)) bs), grown 0 0 [z] ?t)" "is_value z v"
    using read_argument_run [of v bs ?t] Cons.prems by (auto simp: ahead_append)
  let ?u = "grown 0 1 [z] s"
  have room: "room 1 (ip s)" "room (length vs) (ip ?u)"
    using Cons.prems(3) room_mono [OF Cons.prems(3), of 1] room_advance [of 1 "length vs" "ip s" 0] by simp_all
  obtain ps zs bs' where rest: "times (length vs) (\<lambda>a. bnd (on_ip charge) (\<lambda>_. (case a of (args, bs) \<Rightarrow>
        bnd (read_argument bs) (\<lambda>(p, bs'). ret (args @ [p], bs')))))
        (args @ [Some (length (heap s))], skip_bytes (length (arg_bytes v)) bs) ?u =
      (Inr ((args @ [Some (length (heap s))]) @ ps, bs'), grown 0 (length vs) zs ?u)"
    "list_all2 (points_to (heap ?u @ zs)) ps vs"
    using Cons.IH [OF _ _ room(2)] Cons.prems(1,2) by (fastforce simp: ahead_append)
  have "points_to (heap s @ z # zs) (Some (length (heap s))) v"
    using points_to_append [of "heap s @ [z]" _ v zs] z(2) by simp
  moreover have "bnd (on_ip charge) (\<lambda>_. bnd (read_argument bs) (\<lambda>(p, bs'). ret (args @ [p], bs'))) s =
      (Inr (args @ [Some (length (heap s))], skip_bytes (length (arg_bytes v)) bs), ?u)"
    using z(1) by (simp add: bnd_charge [OF room(1)] bnd_def [of "read_argument bs"] ret_def)
  then have "times (length (v # vs)) (\<lambda>a. bnd (on_ip charge) (\<lambda>_. (case a of (args, bs) \<Rightarrow>
        bnd (read_argument bs) (\<lambda>(p, bs'). ret (args @ [p], bs'))))) (args, bs) s =
      times (length vs) (\<lambda>a. bnd (on_ip charge) (\<lambda>_. (case a of (args, bs) \<Rightarrow>
        bnd (read_argument bs) (\<lambda>(p, bs'). ret (args @ [p], bs')))))
        (args @ [Some (length (heap s))], skip_bytes (length (arg_bytes v)) bs) ?u"
    by (simp only: list.size add_Suc_right add_0_right times.simps prod.case bnd_def [of "bnd (on_ip charge) _"] sum.case)
  ultimately show ?case using rest
    by (intro exI [of _ "Some (length (heap s)) # ps"] exI [of _ "z # zs"] exI [of _ bs']) simp
qed

text \<open>Decoding, up to the call itself.\<close>

lemma calldata_calls:
  assumes "length (call_bytes f vs) < 2 ^ 32" and "list_all encodable vs" and "f \<noteq> []" and "take 1 f \<noteq> ''_''"
    and "\<not> reserved f" and "find_value (scopes s) (m_global_scope (ip s)) f = Inr (Some c)"
    and "c < length (heap s)" and "is_callable (heap s ! c)" and "room (length vs) (ip s)"
  shows "\<exists>args zs. calldata n (call_bytes f vs) s =
      invoke_data (exec n) c args (m_global_scope (ip s)) (grown 0 (length vs) zs s) \<and>
    list_all2 (points_to (heap s @ zs)) args vs"
proof -
  let ?bs = "bitstream_of (call_bytes f vs)"
  let ?rest = "be32 (of_nat (length vs)) @ concat (map arg_bytes vs)"
  let ?b1 = "skip_bytes (4 + length f) ?bs"
  have len: "length f < 2 ^ 32" "length vs < 2 ^ 32"
  proof -
    have "4 \<le> length (arg_bytes v)" for v by (cases v) simp_all
    then have "length vs \<le> length (concat (map arg_bytes vs))"
      by (induction vs) (simp_all, metis add_mono le_trans one_le_numeral plus_1_eq_Suc)
    then show "length f < 2 ^ 32" "length vs < 2 ^ 32" using assms(1) by (simp_all add: call_bytes_def)
  qed
  have "ahead (call_bytes f vs) ?bs" by (simp add: ahead_def bitstream_of_def)
  then have ahead: "ahead (enc_string f) ?bs" "ahead (be32 (of_nat (length vs))) ?b1"
    "ahead (concat (map arg_bytes vs)) (skip_bytes 4 ?b1)"
    by (simp_all add: call_bytes_def ahead_append add.commute)
  obtain args zs bs' where loop: "times (length vs) (\<lambda>a. bnd (on_ip charge) (\<lambda>_. (case a of (args, bs) \<Rightarrow>
        bnd (read_argument bs) (\<lambda>(p, bs'). ret (args @ [p], bs'))))) ([], skip_bytes 4 ?b1) s =
      (Inr ([] @ args, bs'), grown 0 (length vs) zs s)" and args: "list_all2 (points_to (heap s @ zs)) args vs"
    using read_arguments_run [OF ahead(3) assms(2,9), of "[]"] by blast
  have n: "unat (of_nat (length vs) :: u32) = length vs"
    using len(2) by (simp add: unat_of_nat take_bit_nat_eq_self)
  have name: "read_from get_string ?bs s = (Inr (f, ?b1), s)"
    using get_string_ahead [OF ahead(1) len(1)] by (simp add: read_from_def ret_def)
  have got: "scope_get (m_global_scope (ip s)) f s = (Inr (Some c), s)"
    using assms(5,6)
    by (simp add: scope_get_def bnd_gets get_value_def reserved_def on_heap_def on_part_def lift_sum_def)
  have "0 < length (call_bytes f vs)" by (simp add: call_bytes_def)
  then have "calldata n (call_bytes f vs) s = invoke_data (exec n) c args (m_global_scope (ip s)) (grown 0 (length vs) zs s)"
    using assms(3,4,7,8) get_u32_ahead [OF ahead(2)]
    by (simp add: calldata_def bnd_Inr [where m = "read_from get_string ?bs", OF name] bnd_gets
        bnd_Inr [where m = "scope_get _ _", OF got] deref_def exec_times_def n bnd_Inr [where m = "times _ _ _", OF loop [simplified]])
  with args show ?thesis by blast
qed

section \<open>Execution of the whole module\<close>

text \<open>A contract is a list of functions, each with its name, its parameters and its body.\<close>

type_synonym fundef = "string \<times> string list \<times> ast"

definition def_ast :: "fundef \<Rightarrow> ast" where
  "def_ast = (\<lambda>(f, params, body). function_def f params body)"

definition contract_of :: "fundef list \<Rightarrow> ast" where
  "contract_of funs = AstSuite (map (\<lambda>d. Some (def_ast d)) funs)"

text \<open>The function a name stands for is the last one defined with it.\<close>

fun called :: "fundef list \<Rightarrow> string \<Rightarrow> (string list \<times> ast) option" where
  "called [] f = None"
| "called ((g, params, body) # funs) f =
     (case called funs f of Some r \<Rightarrow> Some r | None \<Rightarrow> if c_str g = f then Some (params, body) else None)"

text \<open>The steps of a definition, and those of executing the whole contract.\<close>

definition def_cost :: "fundef \<Rightarrow> nat" where
  "def_cost = (\<lambda>(f, params, body). Suc (3 * length params))"

definition defs_cost :: "fundef list \<Rightarrow> nat" where
  "defs_cost funs = sum_list (map (\<lambda>d. Suc (def_cost d)) funs)"

definition contract_cost :: "fundef list \<Rightarrow> nat" where
  "contract_cost funs = Suc (defs_cost funs)"

lemma defs_cost_simps [simp]: "defs_cost [] = 0" "defs_cost (d # ds) = Suc (def_cost d + defs_cost ds)"
  by (simp_all add: defs_cost_def)

text \<open>What executing it leaves: one callable object for every definition, bound in order.\<close>

definition callable_of :: "fundef \<Rightarrow> obj" where
  "callable_of = (\<lambda>(f, params, body).
     CallableVMFunction (projr (encode body)) (map c_str params) (replicate (length params) None))"

fun bind_defs :: "scopes \<Rightarrow> nat \<Rightarrow> nat \<Rightarrow> fundef list \<Rightarrow> scopes" where
  "bind_defs ss g a [] = ss"
| "bind_defs ss g a (d # ds) = bind_defs (put_value ss g (c_str (fst d)) (Some a)) g (Suc a) ds"

lemma depth_put_value [simp]: "depth (put_value ss g x v ! i) = depth (ss ! i)"
  by (cases "g < length ss"; cases "i = g") (simp_all add: put_value_def list_update_beyond)

lemma bind_defs_keeps [simp]:
  "length (bind_defs ss g a ds) = length ss" "depth (bind_defs ss g a ds ! i) = depth (ss ! i)"
  by (induction ds arbitrary: ss a) simp_all

lemma bind_defs_other:
  "g < length ss \<Longrightarrow> called ds f = None \<Longrightarrow> m_values (bind_defs ss g a ds ! g) f = m_values (ss ! g) f"
  by (induction ds arbitrary: ss a) (auto split: option.splits if_splits)

lemma bind_defs_called:
  assumes "g < length ss" and "called ds f = Some (params, body)"
  shows "\<exists>i < length ds. callable_of (ds ! i) = callable_of (f, params, body) \<and>
    (\<exists>h. ds ! i = (h, params, body)) \<and> m_values (bind_defs ss g a ds ! g) f = Some (Some (a + i))"
  using assms
proof (induction ds arbitrary: ss a)
  case (Cons d ds)
  show ?case
  proof (cases "called ds f")
    case None
    then have d: "c_str (fst d) = f" "snd d = (params, body)" using Cons.prems(2) by (cases d; auto split: if_splits)+
    then have "m_values (bind_defs ss g a (d # ds) ! g) f = Some (Some (a + 0))"
      using None Cons.prems(1) by (simp add: bind_defs_other)
    with d show ?thesis by (intro exI [of _ 0]) (cases d; simp add: callable_of_def)
  next
    case (Some r)
    then have "called ds f = Some (params, body)" using Cons.prems(2) by (cases d) simp
    from Cons.IH [OF _ this, of "put_value ss g (c_str (fst d)) (Some a)" "Suc a"] Cons.prems(1)
    obtain i where "i < length ds" "callable_of (ds ! i) = callable_of (f, params, body)" "\<exists>h. ds ! i = (h, params, body)"
      "m_values (bind_defs (put_value ss g (c_str (fst d)) (Some a)) g (Suc a) ds ! g) f = Some (Some (Suc a + i))"
      by auto
    then show ?thesis by (intro exI [of _ "Suc i"]) simp
  qed
qed simp

text \<open>A machine at the start of a program: in a root scope that has not returned.\<close>

definition fresh_root :: "scopes \<Rightarrow> nat \<Rightarrow> bool" where
  "fresh_root ss g \<longleftrightarrow> g < length ss \<and> m_parent (ss ! g) = None \<and> depth (ss ! g) = 0 \<and> \<not> m_terminated (ss ! g)"

lemma fresh_root_put: "fresh_root ss g \<Longrightarrow> fresh_root (put_value ss g x v) g"
  by (simp add: fresh_root_def)

lemma set_value_root: "fresh_root ss g \<Longrightarrow> set_value ss g x v = put_value ss g x v"
  by (subst set_value.simps) (simp add: fresh_root_def)

definition at_start :: "u8 list \<Rightarrow> vm \<Rightarrow> bool" where
  "at_start code s \<longleftrightarrow> ahead code (m_data (ip s)) \<and> fresh_root (scopes s) (m_global_scope (ip s)) \<and>
     m_execution_step_limit (ip s) \<noteq> 0"

lemma encode_function_body:
  assumes "encode (function_def f params body) = Inr code"
  shows "\<exists>stub. encode body = Inr stub \<and> length stub < length code"
proof -
  obtain stub where stub: "encode body = Inr stub"
    using assms by (cases "encode body")
      (auto simp: function_def_def node_bytes_eq encode_list_def word_bytes_def encode_ptr_def Let_def cat_eq_Inr)
  with assms encode_function_def [OF stub, of f params] show ?thesis by (auto simp: function_code_def)
qed

text \<open>The rounds of the statement list, one for every definition.\<close>

lemma def_rounds:
  assumes "coded (map (\<lambda>d. Some (def_ast d)) funs)" and "list_all (\<lambda>d. c_str (fst d) \<noteq> []) funs" and "1 < n"
    and "ahead (codes (map (\<lambda>d. Some (def_ast d)) funs)) (m_data (ip s))" and "room (defs_cost funs) (ip s)"
    and "fresh_root (scopes s) g"
  shows "times (length funs) (stmt_round (exec n) g) (None, LS_None) s = (Inr (None, LS_None),
    (grown (length (codes (map (\<lambda>d. Some (def_ast d)) funs))) (defs_cost funs) (map callable_of funs) s)
    \<lparr>scopes := bind_defs (scopes s) g (length (heap s)) funs\<rparr>)"
  using assms
proof (induction funs arbitrary: s)
  case Nil
  then show ?case by (simp add: ret_def grown_def)
next
  case (Cons d funs)
  obtain f params body where d: "d = (f, params, body)" by (cases d)
  let ?c = "code_of (Some (def_ast d))" and ?t = "grown 0 1 [] s"
  have enc: "encode (function_def f params body) = Inr ?c" "length ?c < 2 ^ 32"
    "coded (map (\<lambda>d. Some (def_ast d)) funs)"
    using coded_Cons [OF Cons.prems(1) [unfolded list.map]] by (simp_all add: encode_ptr_def d def_ast_def)
  obtain stub where stub: "encode body = Inr stub" using encode_function_body [OF enc(1)] by blast
  obtain l where n: "n = Suc l" "0 < l" using Cons.prems(3) by (metis Suc_lessE less_Suc_eq_0_disj One_nat_def)
  have name: "c_str f \<noteq> []" using Cons.prems(2) by (simp add: d)
  have cost: "defs_cost (d # funs) = 1 + (def_cost d + defs_cost funs)" by simp
  have ahead: "ahead ?c (m_data (ip ?t))" using Cons.prems(4) by (simp add: ahead_append)
  have room: "room 1 (ip s)" "room (Suc (3 * length params)) (ip ?t)"
    "room (defs_cost funs) (ip (grown (length ?c) (Suc (def_cost d)) [] s))"
    using Cons.prems(5) room_mono [OF Cons.prems(5), of 1] room_advance [of 1 "def_cost d + defs_cost funs" "ip s" 0]
      room_advance [of "Suc (def_cost d)" "defs_cost funs" "ip s" "length ?c"]
      room_mono [of "def_cost d + defs_cost funs" "ip ?t" "def_cost d"]
    by (simp_all add: d def_cost_def)
  let ?w = "(grown (length ?c) (Suc (def_cost d)) [callable_of d] s)
    \<lparr>scopes := put_value (scopes s) g (c_str f) (Some (length (heap s)))\<rparr>"
  have run: "exec n g LS_None ?t = (Inr (None, LS_None), ?w)"
    using function_def_run [OF stub enc(1,2) name n(2) ahead room(2), of g] set_value_root [OF Cons.prems(6)]
    unfolding n(1) by (simp add: stub d def_cost_def callable_of_def)
  have live: "is_terminated (scopes s) g = False" using Cons.prems(6) by (simp add: fresh_root_def is_terminated_def)
  have "stmt_round (exec n) g (None, LS_None) s = (Inr (None, LS_None), ?w)"
    by (simp add: stmt_round_run [OF room(1) live] bnd_exec [OF run [unfolded One_nat_def]] ret_def)
  then have "times (length (d # funs)) (stmt_round (exec n) g) (None, LS_None) s =
      times (length funs) (stmt_round (exec n) g) (None, LS_None) ?w"
    by (simp add: bnd_def)
  also have "\<dots> = (Inr (None, LS_None), (grown (length (codes (map (\<lambda>d. Some (def_ast d)) funs))) (defs_cost funs)
      (map callable_of funs) ?w)\<lparr>scopes := bind_defs (scopes ?w) g (length (heap ?w)) funs\<rparr>)"
    by (rule Cons.IH [OF enc(3)])
      (use Cons.prems room(3) in \<open>simp_all add: ahead_append fresh_root_put\<close>)
  finally show ?case by (simp add: grown_def d advance_ip_def add_ac)
qed

lemma execute_module:
  assumes code: "encode (contract_of funs) = Inr code" "length code < 2 ^ 32"
    and names: "list_all (\<lambda>d. c_str (fst d) \<noteq> []) funs" and n: "2 < n"
    and s: "at_start code s" and room: "room (contract_cost funs) (ip s)"
  shows "execute n s = (Inr None,
    (grown (length code) (contract_cost funs) (map callable_of funs) s)
    \<lparr>scopes := bind_defs (scopes s) (m_global_scope (ip s)) (length (heap s)) funs\<rparr>)"
proof -
  obtain l where l: "n = Suc l" "1 < l" using n by (cases n) auto
  let ?g = "m_global_scope (ip s)" and ?ps = "map (\<lambda>d. Some (def_ast d)) funs"
  obtain bs where bs: "encode_list (encode_ptr encode) ?ps = Inr bs" "code = be32 (node_code NT_StatementList) @ bs"
    using code(1) by (auto simp: contract_of_def node_bytes_eq cat_eq_Inr)
  have len: "length bs < 2 ^ 32" using code(2) bs(2) by simp
  note cs = encode_codes [OF bs(1) len]
  let ?u = "grown 8 1 [] s"
  have ahead: "ahead (be32 (node_code NT_StatementList)) (m_data (ip s))"
    "ahead (be32 (of_nat (length funs))) (m_data (ip (grown 4 1 [] s)))" "ahead (codes ?ps) (m_data (ip ?u))"
    using s by (simp_all add: at_start_def bs(2) cs(1) ahead_append)
  have r: "room 1 (ip s)" "room 0 (ip (grown 4 1 [] s))" "room (defs_cost funs) (ip ?u)"
    using room_mono [OF room, of 1] room_advance [of 1 0 "ip s" 4] room_advance [of 1 "defs_cost funs" "ip s" 8] room
    by (simp_all add: contract_cost_def)
  let ?w = "(grown (length (codes ?ps)) (defs_cost funs) (map callable_of funs) ?u)
    \<lparr>scopes := bind_defs (scopes ?u) ?g (length (heap ?u)) funs\<rparr>"
  have rounds: "times (length funs) (stmt_round (exec l) ?g) (None, LS_None) ?u = (Inr (None, LS_None), ?w)"
    by (rule def_rounds [OF cs(2) names l(2) ahead(3) r(3)]) (use s in \<open>simp add: at_start_def\<close>)
  have size: "bnd (on_ip rd_u32) h (grown 4 (Suc 0) [] s) = h (of_nat (length funs)) (grown 8 (Suc 0) [] s)" for h
    using bnd_eats [OF eats_u32 ahead(2) r(2)] by simp
  have "node_statement_list (exec l) ?g LS_None (grown 4 1 [] s) =
      times (length funs) (stmt_round (exec l) ?g) (None, LS_None) ?u"
    using cs(3) by (simp add: node_statement_list_rounds size)
  then have "exec_node l (exec l) (Some NT_StatementList) ?g LS_None (grown 4 1 [] s) = (Inr (None, LS_None), ?w)"
    by (simp only: rounds exec_node_def) simp
  then have "exec n ?g LS_None s = (Inr (None, LS_None), ?w)"
    unfolding l(1) by (rule exec_node_result [OF ahead(1) r(1), rotated]) (simp_all add: top_level_ok_def)
  then show ?thesis
    by (simp add: execute_def bnd_gets eval_exec bs(2) cs(1) contract_cost_def grown_def)
qed

lemma advance_ip_keeps [simp]:
  "m_global_scope (advance_ip n k i) = m_global_scope i"
  "m_execution_step_limit (advance_ip n k i) = m_execution_step_limit i"
  "m_num_execution_steps (advance_ip n k i) = m_num_execution_steps i + of_nat k"
  by (simp_all add: advance_ip_def)

lemma invoke_data_run:
  assumes "callable_call rec c args sc (m_num_execution_steps (ip u)) (m_execution_step_limit (ip u)) u = (Inr (Inr p, j), w)"
  shows "invoke_data rec c args sc u = (Inr p, w\<lparr>ip := (ip w)\<lparr>m_num_execution_steps := j\<rparr>\<rparr>)"
  using assms by (simp add: invoke_data_def set_num_execution_steps_def bnd_def gets_def on_ip_def on_part_def
      modify_def lift_sum_def)

lemma find_root: "m_values (ss ! g) f = Some p \<Longrightarrow> g < length ss \<Longrightarrow> find_value ss g f = Inr p"
  by (subst find_value.simps) simp

lemma called_def: "called funs f = Some (params, body) \<Longrightarrow> \<exists>g. (g, params, body) \<in> set funs \<and> c_str g = f"
  by (induction funs) (auto split: option.splits if_splits)

lemma encode_called:
  assumes "encode (contract_of funs) = Inr code" and "length code < 2 ^ 32" and "(g, params, body) \<in> set funs"
  shows "\<exists>stub. encode body = Inr stub \<and> length stub < 2 ^ 32"
proof -
  let ?ps = "map (\<lambda>d. Some (def_ast d)) funs" and ?p = "Some (def_ast (g, params, body))"
  obtain bs where bs: "encode_list (encode_ptr encode) ?ps = Inr bs" "length bs < 2 ^ 32"
    using assms(1,2) by (auto simp: contract_of_def node_bytes_eq cat_eq_Inr)
  have "encode_ptr encode ?p = Inr (code_of ?p)" "length (code_of ?p) \<le> length (codes ?ps)" "length (codes ?ps) < 2 ^ 32"
    using encode_codes(2) [OF bs] assms(3)
    by (auto simp: coded_def list_all_iff codes_def length_concat intro!: member_le_sum_list)
  then show ?thesis
    using encode_function_body [of g params body "code_of ?p"] by (auto simp: def_ast_def encode_ptr_def)
qed

lemma run_contract_answers:
  assumes code: "encode (contract_of funs) = Inr code" "length code < 2 ^ 32"
    and names: "list_all (\<lambda>d. c_str (fst d) \<noteq> []) funs" and f: "called funs f = Some (params, body)"
    and body: "stmt_exec False (bind_env (map c_str params) vs Map.empty) body (e', r, d, k, m)"
    and args: "length params = length vs" "list_all encodable vs" "length (call_bytes f vs) < 2 ^ 32"
    and name: "take 1 f \<noteq> ''_''" "\<not> reserved f"
    and params: "list_all (\<lambda>m. \<not> reserved (c_str m)) params" and fuel: "size body + m + 2 < n" and deep: "loop_depth body < 127"
    and s: "at_start code s" "room (contract_cost funs + length params + k) (ip s)"
  shows "\<exists>p h ss. run_contract n (call_bytes f vs) s =
      (Inr p, (grown (length code) (contract_cost funs + length params + k) h s)\<lparr>scopes := ss\<rparr>) \<and> result_of (heap s @ h) p r"
proof -
  let ?g = "m_global_scope (ip s)" and ?n = "contract_cost funs"
  obtain gn where gn: "(gn, params, body) \<in> set funs" "c_str gn = f" using called_def [OF f] by blast
  then have nonempty: "f \<noteq> []" using names by (auto simp: list_all_iff)
  obtain stub where stub: "encode body = Inr stub" "length stub < 2 ^ 32"
    using encode_called [OF code gn(1)] by auto
  have root: "fresh_root (scopes s) ?g" using s(1) by (simp add: at_start_def)
  then have gl: "?g < length (scopes s)" by (simp add: fresh_root_def)
  obtain i where i: "i < length funs" "callable_of (funs ! i) = callable_of (f, params, body)"
    "m_values (bind_defs (scopes s) ?g (length (heap s)) funs ! ?g) f = Some (Some (length (heap s) + i))"
    using bind_defs_called [OF gl f] by blast
  let ?c = "length (heap s) + i"
  let ?t = "(grown (length code) ?n (map callable_of funs) s)
    \<lparr>scopes := bind_defs (scopes s) ?g (length (heap s)) funs\<rparr>"
  have obj: "heap ?t ! ?c = CallableVMFunction stub (map c_str params) (replicate (length params) None)"
    "?c < length (heap ?t)"
    using i(1,2) by (simp_all add: callable_of_def stub nth_append)
  have fuel': "2 < n" "size body + m < n" using fuel by simp_all
  have room: "room ?n (ip s)" "room (length vs) (ip ?t)"
    "room k (advance_ip (length code) (?n + length params) (ip s))"
    using room_mono [OF s(2), of ?n] room_mono [OF s(2), of "?n + length vs"]
      room_advance [of ?n "length vs" "ip s" "length code"]
      room_advance [of "?n + length params" k "ip s" "length code"] s(2) args(1) by simp_all
  have exec: "execute n s = (Inr None, ?t)"
    by (rule execute_module [OF code names fuel'(1) s(1) room(1)])
  have g: "?g < length (scopes ?t)" "depth (scopes ?t ! ?g) = 0" using root by (simp_all add: fresh_root_def)
  have "find_value (scopes ?t) ?g f = Inr (Some ?c)" using find_root [OF i(3)] gl by simp
  then obtain ps zs where call: "calldata n (call_bytes f vs) ?t =
      invoke_data (exec n) ?c ps ?g (grown 0 (length vs) zs ?t)"
    and ps: "list_all2 (points_to (heap ?t @ zs)) ps vs"
    using calldata_calls [OF args(3,2) nonempty name, of ?t ?c n] room(2) obj by auto
  let ?u = "grown 0 (length vs) zs ?t"
  let ?cur = "m_num_execution_steps (ip ?u)" and ?lim = "m_execution_step_limit (ip ?u)"
  have steps: "unat ?cur + k < unat ?lim" "?lim \<noteq> 0"
    using room(3) args(1) s(1) by (simp_all add: room_def advance_ip_def at_start_def add_ac)
  obtain p h where fn: "vm_function_call (exec n) stub (map c_str params) (replicate (length (map c_str params)) None) ps
        ?g ?cur ?lim ?u = (Inr (Inr p, ?cur + of_nat k), ?u\<lparr>heap := heap ?u @ h\<rparr>)"
    and res: "result_of (heap ?u @ h) p r"
    using vm_call_runs [OF stub body fuel'(2), of ?u ps ?g ?lim ?cur] ps g params steps args(1) deep
      list_all2_lengthD [OF ps] by (auto simp: list_all_iff)
  have "heap ?u ! ?c = CallableVMFunction stub (map c_str params) (replicate (length params) None)"
    using obj nth_append_left [OF obj(2), of zs] by simp
  then have "callable_call (exec n) ?c ps ?g ?cur ?lim ?u = (Inr (Inr p, ?cur + of_nat k), ?u\<lparr>heap := heap ?u @ h\<rparr>)"
    using fn by (simp add: callable_call_def obj_at_def bnd_gets)
  from invoke_data_run [OF this] have "invoke_data (exec n) ?c ps ?g ?u = (Inr p, grown 0 k h ?u)"
    by (simp add: grown_def advance_ip_def)
  then have "run_contract n (call_bytes f vs) s = (Inr p, grown 0 k h ?u)"
    using exec call by (simp add: run_contract_def bnd_def)
  with res args(1) show ?thesis
    by (intro exI [of _ p] exI [of _ "map callable_of funs @ zs @ h"] exI [of _ "scopes ?t"])
      (simp add: grown_def add.commute)
qed

section \<open>The library call\<close>

lemma prepare_fresh:
  assumes "step_limit gas price = Inr lim" and "lim \<noteq> 0"
  shows "\<exists>s'. prepare load code gas price [] s = (Inr (length (heap s)), s') \<and> at_start code s' \<and>
    m_num_execution_steps (ip s') = 0 \<and> m_execution_step_limit (ip s') = lim \<and>
    length (heap s) < length (heap s') \<and> heap s' ! length (heap s) = PersistVal empty_persist"
proof -
  let ?st = "length (heap s)" and ?g = "length (scopes s)"
  let ?u = "s\<lparr>heap := heap s @ [PersistVal empty_persist],
    scopes := set_value (scopes s @ [root_scope]) ?g ''store'' (Some ?st),
    ip := \<lparr>m_data = bitstream_of code, m_num_execution_steps = 0, m_execution_step_limit = lim,
           m_loaded_modules = Map.empty, m_store = ?st, m_global_scope = ?g\<rparr>\<rparr>"
  obtain h m where reg: "register_blockchain_module ?u =
      (Inr (), ?u\<lparr>heap := h, ip := (ip ?u)\<lparr>m_loaded_modules := m\<rparr>\<rparr>)"
    and same: "\<forall>a < length (heap ?u). h ! a = heap ?u ! a" "length (heap ?u) \<le> length h"
    using register_grows [of ?u] by blast
  have "prepare load code gas price [] s = (Inr ?st, ?u\<lparr>heap := h, ip := (ip ?u)\<lparr>m_loaded_modules := m\<rparr>\<rparr>)"
    using assms reg
    by (simp add: prepare_def new_interpreter_def push_scope_def program_evaluation scope_set_def
        load_old_storage_def set_execution_step_limit_def)
  moreover have "h ! ?st = PersistVal empty_persist" "?st < length h" using same by simp_all
  moreover have "ahead code (bitstream_of code)" by (simp add: ahead_def bitstream_of_def)
  ultimately show ?thesis using assms(2)
    by (simp add: at_start_def fresh_root_def set_value.simps [of _ "length (scopes s)"] root_scope_def put_value_def)
qed

section \<open>Properties\<close>

text \<open>
  Running a compiled function definition binds the function.  The interpreter moves over the
  definition's bytecode, allocates one object that holds exactly the bytecode compiled from the
  body, the parameters' names, and a null default for each parameter, binds the function's name
  to it in the current scope, and charges one step and three for every parameter.
\<close>

theorem function_definitions_bind:
  assumes "encode (function_def f params body) = Inr code" and "length code < 2 ^ 32" and "c_str f \<noteq> []"
    and "1 < n" and "ahead code (m_data (ip s))" and "room (Suc (3 * length params)) (ip s)"
  shows "\<exists>stub. encode body = Inr stub \<and> exec n sc LS_None s = (Inr (None, LS_None),
    (grown (length code) (Suc (3 * length params))
       [CallableVMFunction stub (map c_str params) (replicate (length params) None)] s)
    \<lparr>scopes := set_value (scopes s) sc (c_str f) (Some (length (heap s)))\<rparr>)"
proof -
  obtain m where n: "n = Suc m" "0 < m" using assms(4) by (metis Suc_lessE less_Suc_eq_0_disj One_nat_def)
  obtain stub where stub: "encode body = Inr stub" using encode_function_body [OF assms(1)] by blast
  from function_def_run [OF stub assms(1,2,3) n(2) assms(5,6)] stub show ?thesis unfolding n(1) by blast
qed

text \<open>
  C7: from source to answer.  Compile a contract, a module of any number of functions, and give the
  interpreter the bytecode and call data with a function's name and one encoded value for each
  parameter; of several functions with that name the last one is meant.  If by the source semantics
  its body, loops included, ends with the result \<open>r\<close> at a cost of \<open>k\<close> steps, and the step limit leaves
  room for them, for one per argument and for the definitions (one step, two for every function and
  three for every parameter), then running the contract ends and returns an object that holds \<open>r\<close>,
  after exactly that many steps.
\<close>

theorem compiled_contract_answers:
  assumes "encode (contract_of funs) = Inr code" and "length code < 2 ^ 32"
    and "list_all (\<lambda>d. c_str (fst d) \<noteq> []) funs" and "called funs f = Some (params, body)"
    and "stmt_exec False (bind_env (map c_str params) vs Map.empty) body (e', r, d, k, m)"
    and "length params = length vs" and "list_all encodable vs" and "length (call_bytes f vs) < 2 ^ 32"
    and "take 1 f \<noteq> ''_''" and "\<not> reserved f"
    and "list_all (\<lambda>m. \<not> reserved (c_str m)) params" and "size body + m + 2 < n" and "loop_depth body < 127"
    and "at_start code s" and "room (contract_cost funs + length params + k) (ip s)"
  shows "\<exists>p s'. run_contract n (call_bytes f vs) s = (Inr p, s') \<and> result_of (heap s') p r \<and>
    m_num_execution_steps (ip s') = m_num_execution_steps (ip s) + of_nat (contract_cost funs + length params + k) \<and>
    chain_state s' = chain_state s \<and> program_output s' = program_output s"
proof -
  obtain p h ss where "run_contract n (call_bytes f vs) s =
      (Inr p, (grown (length code) (contract_cost funs + length params + k) h s)\<lparr>scopes := ss\<rparr>)" "result_of (heap s @ h) p r"
    using run_contract_answers [OF assms] by blast
  then show ?thesis by (simp add: grown_def)
qed


text \<open>
  The contract with the function \<open>f\<close> of \<open>demo_body\<close>, called with 5: a second definition of \<open>f\<close>, which
  replaces the first, and a third function behind it.
\<close>

definition demo_other :: ast where
  "demo_other = AstSuite [Some (AstReturn (Some (AstNumber NumInteger 7)))]"

definition demo_funs :: "fundef list" where
  "demo_funs = [(''f'', [], demo_other), (''f'', [''x''], demo_body), (''g'', [''y''], demo_other)]"

lemmas demo_encode = function_def_def demo_body_def node_bytes_eq word_bytes_def string_bytes_def encode_ptr_def
  encode_list_def encode_item_def c_str_def length_bytes_def

lemma demo_function_code: "\<exists>bs. encode (function_def ''f'' [''x''] demo_body) = Inr bs \<and> length bs < 2 ^ 16"
  by (simp add: demo_encode)

lemma demo_other_code:
  "\<exists>bs. encode (function_def ''f'' [] demo_other) = Inr bs \<and> length bs < 2 ^ 16"
  "\<exists>bs. encode (function_def ''g'' [''y''] demo_other) = Inr bs \<and> length bs < 2 ^ 16"
  by (simp_all add: demo_encode demo_other_def)

lemma demo_contract_code: "\<exists>bs. encode (contract_of demo_funs) = Inr bs \<and> length bs < 2 ^ 32"
proof -
  obtain a b c where "encode (function_def ''f'' [] demo_other) = Inr a" "length a < 2 ^ 16"
    "encode (function_def ''f'' [''x''] demo_body) = Inr b" "length b < 2 ^ 16"
    "encode (function_def ''g'' [''y''] demo_other) = Inr c" "length c < 2 ^ 16"
    using demo_function_code demo_other_code by blast
  then show ?thesis
    by (simp add: contract_of_def demo_funs_def def_ast_def node_bytes_eq word_bytes_def encode_ptr_def encode_list_def)
qed

lemma demo_contract_facts:
  "map c_str [''x''] = [''x'']" "length (call_bytes ''f'' [PInt 5]) < 2 ^ 32" "take 1 ''f'' \<noteq> ''_''"
  "\<not> reserved ''f''" "list_all (\<lambda>m. \<not> reserved (c_str m)) [''x'']" "size demo_body + 6 + 2 < 99" "loop_depth demo_body < 127"
  "list_all (\<lambda>d. c_str (fst d) \<noteq> []) demo_funs" "called demo_funs ''f'' = Some ([''x''], demo_body)"
  "contract_cost demo_funs = 13"
  by (simp_all add: c_str_def call_bytes_def reserved_def builtin_of_def demo_body_def demo_funs_def contract_cost_def def_cost_def)

theorem function_definitions_bind_witness:
  "\<exists>code s stub s'. encode demo_body = Inr stub \<and> m_data (ip s) = bitstream_of code \<and>
     exec 2 0 LS_None s = (Inr (None, LS_None), s') \<and> heap s' ! 1 = CallableVMFunction stub [''x''] [None]"
proof -
  obtain code where code: "encode (function_def ''f'' [''x''] demo_body) = Inr code" "length code < 2 ^ 32"
    using demo_function_code by fastforce
  let ?s = "demo_vm code 150"
  have "ahead code (m_data (ip ?s))" "room (Suc (3 * length [''x''])) (ip ?s)"
    by (simp_all add: demo_vm_def ahead_def bitstream_of_def room_def)
  from function_definitions_bind [OF code _ _ this, of 2 0] obtain stub s' where
    "encode demo_body = Inr stub" "exec 2 0 LS_None ?s = (Inr (None, LS_None), s')"
    "heap s' ! length (heap ?s) = CallableVMFunction stub [''x''] [None]"
    by (auto simp: c_str_def simp del: exec.simps)
  moreover have "m_data (ip ?s) = bitstream_of code" "length (heap ?s) = 1" by (simp_all add: demo_vm_def)
  ultimately show ?thesis by metis
qed

theorem compiled_contract_answers_witness:
  "\<exists>s p s'. run_contract 99 (call_bytes ''f'' [PInt 5]) s = (Inr p, s') \<and> points_to (heap s') p (PInt 2) \<and>
     m_num_execution_steps (ip s') = 92"
proof -
  obtain code where code: "encode (contract_of demo_funs) = Inr code" "length code < 2 ^ 32"
    using demo_contract_code by blast
  obtain e' where e': "stmt_exec False (bind_env (map c_str [''x'']) [PInt 5] Map.empty) demo_body (e', Some (PInt 2), Done, 78, 6)"
    using demo_body_value unfolding demo_contract_facts(1) by blast
  let ?s = "demo_vm code 150" and ?k = "contract_cost demo_funs + length [''x''] + 78"
  have s: "at_start code ?s" "room ?k (ip ?s)"
    by (simp_all add: demo_vm_def at_start_def fresh_root_def ahead_def bitstream_of_def room_def root_scope_def demo_contract_facts)
  have "\<exists>p s'. run_contract 99 (call_bytes ''f'' [PInt 5]) ?s = (Inr p, s') \<and>
      result_of (heap s') p (Some (PInt 2)) \<and> m_num_execution_steps (ip s') = m_num_execution_steps (ip ?s) + of_nat ?k \<and>
      chain_state s' = chain_state ?s \<and> program_output s' = program_output ?s"
    by (rule compiled_contract_answers [OF code demo_contract_facts(8,9) e' _ _ demo_contract_facts(2-7) s]) simp_all
  then show ?thesis by (auto simp: demo_contract_facts(10) result_of_def demo_vm_def)
qed


end
