(* ===== verification/Serialize.thy ===== *)
theory Serialize
  imports Bitstream Node_Types Values
begin

text \<open>
  Values on a stream (the end of \<^verbatim>\<open>include/cowlang/Value.h\<close>): \<open>operator<<\<close> writes the type and
  the value, \<open>read_value\<close> makes a new object from them.  Only plain values can be written.
\<close>

section \<open>Model\<close>

definition unserializable :: exn where
  "unserializable = ValueException ''Cannot serialize this type of value!''"

definition put_type :: "value_type \<Rightarrow> bitstream \<Rightarrow> bitstream" where
  "put_type t = put_u32 (value_code t)"

definition write_value :: "heap \<Rightarrow> valueptr \<Rightarrow> (bitstream, unit) prog" where
  "write_value h val =
     (case val of
        None \<Rightarrow> modify (put_type VT_None)
      | Some a \<Rightarrow>
          (case h ! a of
             IntVal i \<Rightarrow> modify (put_i64 i \<circ> put_type VT_Integer)
           | BoolVal b \<Rightarrow> modify (put_bool b \<circ> put_type VT_Bool)
           | StringVal s \<Rightarrow> modify (put_string s \<circ> put_type VT_String)
           | _ \<Rightarrow> throw unserializable))"

text \<open>Reading works on the stream and the heap of the memory manager.\<close>

type_synonym 'a loading = "(bitstream \<times> heap, 'a) prog"

definition from_stream :: "'a reader \<Rightarrow> 'a loading" where
  "from_stream r = on_part fst (\<lambda>bs s. (bs, snd s)) r"

definition in_heap :: "(heap, 'a) prog \<Rightarrow> 'a loading" where
  "in_heap m = on_part snd (\<lambda>h s. (fst s, h)) m"

definition read_value :: "valueptr loading" where
  "read_value =
     bnd (from_stream get_u32) (\<lambda>t.
       if value_type_of t = Some VT_None then ret None
       else case value_type_of t of
         Some VT_Integer \<Rightarrow> bnd (from_stream get_i32) (\<lambda>i. in_heap (create_integer (scast i)))
       | Some VT_Bool \<Rightarrow> bnd (from_stream get_bool) (\<lambda>b. in_heap (create_boolean b))
       | Some VT_String \<Rightarrow> bnd (from_stream get_string) (\<lambda>s. in_heap (create_string s))
       | _ \<Rightarrow> throw unserializable)"

section \<open>Lemmas\<close>

lemma upper_half: "scast (ucast (drop_bit 32 i) :: u32) = signed_drop_bit 32 (i :: i64)"
  by (rule bit_word_eqI) (auto simp: bit_simps)

lemma upper_half_int: "sint (int32_of (scast (ucast (drop_bit 32 i) :: u32))) = sint (i :: i64) div 2 ^ 32"
proof -
  have "ucast (scast (w :: u32) :: i64) = w" for w by (rule bit_word_eqI) (auto simp: bit_simps)
  then have "int32_of (signed_drop_bit 32 i) = signed_drop_bit 32 i"
    unfolding upper_half [of i, symmetric] by (simp only: int32_of_def)
  moreover have "sint (signed_drop_bit 32 i) = sint i div 2 ^ 32"
    by (simp only: sint_signed_drop_bit_eq) (simp add: drop_bit_eq_div)
  ultimately show ?thesis by (simp only: upper_half)
qed

lemma from_stream_run: "from_stream r (bs, h) = (case r bs of (x, bs') \<Rightarrow> (x, (bs', h)))"
  by (simp add: from_stream_def on_part_def)

lemma in_heap_hnew: "in_heap (hnew x) (bs, h) = (Inr (Some (length h)), (bs, h @ [x]))"
  by (simp add: in_heap_def on_part_def hnew_def halloc_def bnd_def ret_def)

lemma get_bool_run: "ahead [b] s \<Longrightarrow> get_bool s = (Inr (b \<noteq> 0), skip_bytes 1 s)"
  by (simp add: get_bool_def read_pod_ahead)

section \<open>Properties\<close>

text \<open>
  C40: what survives being written and read back.  The null pointer, booleans and strings below
  4 GB do: reading makes a new object with the same value and leaves the position at the end.
  An integer does not: it is written with eight bytes and read with four, so that the new
  object holds its upper half, and the position stays four bytes before the end.  Any other
  value is refused and nothing is written.
\<close>

theorem values_read_back:
  assumes "write_value h val (writer pre) = (r, s)" and "\<And>t. deref h val = Some (StringVal t) \<Longrightarrow> length t < 2 ^ 32"
    and "\<And>a. val = Some a \<Longrightarrow> a < length h"
  shows "case deref h val of
      None \<Rightarrow> read_value (s\<lparr>getp := length pre\<rparr>, h) = (Inr None, (s\<lparr>getp := length (bytecode s)\<rparr>, h))
    | Some (BoolVal b) \<Rightarrow> read_value (s\<lparr>getp := length pre\<rparr>, h) =
        (Inr (Some (length h)), (s\<lparr>getp := length (bytecode s)\<rparr>, h @ [BoolVal b]))
    | Some (StringVal t) \<Rightarrow> read_value (s\<lparr>getp := length pre\<rparr>, h) =
        (Inr (Some (length h)), (s\<lparr>getp := length (bytecode s)\<rparr>, h @ [StringVal t]))
    | Some (IntVal i) \<Rightarrow> (\<exists>j. sint j = sint i div 2 ^ 32 \<and> read_value (s\<lparr>getp := length pre\<rparr>, h) =
        (Inr (Some (length h)), (s\<lparr>getp := length (bytecode s) - 4\<rparr>, h @ [IntVal j])))
    | _ \<Rightarrow> r = Inl unserializable \<and> s = writer pre"
proof (cases val)
  case None
  then have s: "s = writer (pre @ be32 0)" using assms(1) by (simp add: write_value_def modify_def put_type_def)
  have "ahead (be32 0) (s\<lparr>getp := length pre\<rparr>)" by (auto simp: s intro!: aheadI [of _ pre _ "[]"])
  then show ?thesis
    using get_u32_ahead [of 0 "s\<lparr>getp := length pre\<rparr>"] value_type_of_code [of VT_None] None
    by (simp add: deref_def read_value_def bnd_def from_stream_run ret_def s skip_bytes_def)
next
  case (Some a)
  then have d: "deref h val = Some (h ! a)" using assms(3) by (simp add: deref_def)
  note run = read_value_def bnd_def from_stream_run ret_def skip_bytes_def create_boolean_def create_string_def
    create_integer_def in_heap_hnew
  show ?thesis
  proof (cases "h ! a")
    case (BoolVal b)
    then have s: "s = writer (pre @ be32 1 @ [if b then 1 else 0])"
      using assms(1) Some by (simp add: write_value_def modify_def put_type_def put_bool_def)
    let ?s = "s\<lparr>getp := length pre\<rparr>"
    have "ahead (be32 1 @ [if b then 1 else 0]) ?s" by (auto simp: s intro!: aheadI [of _ pre _ "[]"])
    then show ?thesis
      using get_u32_ahead [of 1 ?s] get_bool_run [of "if b then 1 else 0" "skip_bytes 4 ?s"]
        value_type_of_code [of VT_Bool] d BoolVal
      by (simp add: ahead_append run s)
  next
    case (StringVal t)
    then have len: "length t < 2 ^ 32" using assms(2) d by simp
    then have s: "s = writer (pre @ be32 2 @ enc_string t)"
      using assms(1) Some StringVal by (simp add: write_value_def modify_def put_type_def put_string_writer)
    let ?s = "s\<lparr>getp := length pre\<rparr>"
    have "ahead (be32 2 @ enc_string t) ?s" by (auto simp: s intro!: aheadI [of _ pre _ "[]"])
    then show ?thesis
      using get_u32_ahead [of 2 ?s] get_string_ahead [of t "skip_bytes 4 ?s"] len
        value_type_of_code [of VT_String] d StringVal
      by (simp add: ahead_append run s) (simp add: enc_string_def add_ac bytes_of_def)
  next
    case (IntVal i)
    then have s: "s = writer (pre @ be32 3 @ be64 i)"
      using assms(1) Some by (simp add: write_value_def modify_def put_type_def)
    let ?s = "s\<lparr>getp := length pre\<rparr>" and ?hi = "ucast (drop_bit 32 i) :: u32"
    have "ahead (be32 3 @ be32 ?hi @ be32 (ucast i)) ?s"
      by (auto simp: s be64_def intro!: aheadI [of _ pre _ "[]"])
    then have "read_value (?s, h) =
        (Inr (Some (length h)), (s\<lparr>getp := length (bytecode s) - 4\<rparr>, h @ [IntVal (int32_of (scast ?hi))]))"
      using get_u32_ahead [of 3 ?s] get_i32_ahead [of ?hi "skip_bytes 4 ?s"] value_type_of_code [of VT_Integer]
      by (simp add: ahead_append run s)
    then show ?thesis using upper_half_int [of i] d IntVal by auto
  qed (use assms(1) Some d in \<open>simp_all add: write_value_def throw_def\<close>)
qed

theorem values_read_back_witness:
  "\<exists>s. write_value [IntVal 7] (Some 0) (writer []) = (Inr (), s) \<and>
     (\<exists>j. sint j = 0 \<and> read_value (s\<lparr>getp := 0\<rparr>, [IntVal 7]) =
        (Inr (Some 1), (s\<lparr>getp := length (bytecode s) - 4\<rparr>, [IntVal 7, IntVal j])))"
proof -
  obtain s where s: "write_value [IntVal 7] (Some 0) (writer []) = (Inr (), s)"
    by (simp add: write_value_def modify_def)
  show ?thesis
    using values_read_back [OF s] s by (simp add: deref_def)
qed

end
