(* ===== verification/Repl_Input.thy ===== *)
theory Repl_Input
  imports Prelude
begin

text \<open>
  The helpers of the interactive shell (\<^verbatim>\<open>src/shell/main.cpp\<close>) that read and show text: sizes
  with a unit, the table of character attributes, and the test whether an input line has to be
  continued, with the scanner for quotes and brackets behind it.  \<open>None\<close> is a read outside an
  array.  A C string is a list of characters without the null that ends it.
\<close>

section \<open>Sizes\<close>

text \<open>
  \<open>%.1f\<close> prints the number of tenths, rounded to even.  All numbers here are multiples of 1/1024
  below 1024, which \<open>float\<close> and \<open>double\<close> represent exactly.
\<close>

definition size_units :: "string list" where
  "size_units = [''B'', ''K'', ''M'', ''G'']"

function size_loop :: "u32 \<Rightarrow> nat \<Rightarrow> u32 \<Rightarrow> u32 \<times> nat \<times> u32" where
  "size_loop sz d rem =
     (if 1024 \<le> sz \<and> d < length size_units then size_loop (sz div 1024) (d + 1) (sz mod 1024)
      else (sz, d, rem))"
  by pat_completeness auto
termination
  by (relation "measure (\<lambda>(sz, d, rem). length size_units - d)") auto

declare size_loop.simps [simp del]

definition round_even :: "nat \<Rightarrow> nat \<Rightarrow> nat" where
  "round_even a b =
     (if 2 * (a mod b) < b \<or> 2 * (a mod b) = b \<and> even (a div b) then a div b else a div b + 1)"

definition show_tenths :: "nat \<Rightarrow> string" where
  "show_tenths t = show_nat (t div 10) @ ''.'' @ show_nat (t mod 10)"

definition tenths_of :: "u32 \<Rightarrow> u32 \<Rightarrow> nat" where
  "tenths_of sz rem = round_even (10 * (1024 * unat sz + unat rem)) 1024"

definition unit_at :: "nat \<Rightarrow> bool \<Rightarrow> string option" where
  "unit_at d bytes =
     (if d = 0 \<and> \<not> bytes then Some [] else if d < length size_units then Some (size_units ! d) else None)"

definition printsize :: "u32 \<Rightarrow> bool \<Rightarrow> string option" where
  "printsize sz bytes =
     (case size_loop sz 0 0 of
        (sz', d, rem) \<Rightarrow> map_option (\<lambda>u. show_tenths (tenths_of sz' rem) @ u) (unit_at d bytes))"

section \<open>Character attributes\<close>

definition FL_PRINT :: u8 where "FL_PRINT = 0x01"
definition FL_SPACE :: u8 where "FL_SPACE = 0x02"
definition FL_DIGIT :: u8 where "FL_DIGIT = 0x04"
definition FL_ALPHA :: u8 where "FL_ALPHA = 0x08"
definition FL_UPPER :: u8 where "FL_UPPER = 0x10"
definition FL_LOWER :: u8 where "FL_LOWER = 0x20"
definition FL_XDIGIT :: u8 where "FL_XDIGIT = 0x40"

definition AT_PR :: u8 where "AT_PR = FL_PRINT"
definition AT_SP :: u8 where "AT_SP = FL_SPACE OR FL_PRINT"
definition AT_DI :: u8 where "AT_DI = FL_DIGIT OR FL_PRINT OR FL_XDIGIT"
definition AT_UP :: u8 where "AT_UP = FL_UPPER OR FL_ALPHA OR FL_PRINT"
definition AT_LO :: u8 where "AT_LO = FL_LOWER OR FL_ALPHA OR FL_PRINT"
definition AT_UX :: u8 where "AT_UX = FL_UPPER OR FL_ALPHA OR FL_PRINT OR FL_XDIGIT"
definition AT_LX :: u8 where "AT_LX = FL_LOWER OR FL_ALPHA OR FL_PRINT OR FL_XDIGIT"

definition attr :: "u8 list" where
  "attr =
   [0, 0, 0, 0, 0, 0, 0, 0, 0, AT_SP,
    AT_SP, AT_SP, AT_SP, AT_SP, 0, 0, 0, 0, 0, 0,
    0, 0, 0, 0, 0, 0, 0, 0, 0, 0,
    0, 0, AT_SP, AT_PR, AT_PR, AT_PR, AT_PR, AT_PR, AT_PR, AT_PR,
    AT_PR, AT_PR, AT_PR, AT_PR, AT_PR, AT_PR, AT_PR, AT_PR, AT_DI, AT_DI,
    AT_DI, AT_DI, AT_DI, AT_DI, AT_DI, AT_DI, AT_DI, AT_DI, AT_PR, AT_PR,
    AT_PR, AT_PR, AT_PR, AT_PR, AT_PR, AT_UX, AT_UX, AT_UX, AT_UX, AT_UX,
    AT_UX, AT_UP, AT_UP, AT_UP, AT_UP, AT_UP, AT_UP, AT_UP, AT_UP, AT_UP,
    AT_UP, AT_UP, AT_UP, AT_UP, AT_UP, AT_UP, AT_UP, AT_UP, AT_UP, AT_UP,
    AT_UP, AT_PR, AT_PR, AT_PR, AT_PR, AT_PR, AT_PR, AT_LX, AT_LX, AT_LX,
    AT_LX, AT_LX, AT_LX, AT_LO, AT_LO, AT_LO, AT_LO, AT_LO, AT_LO, AT_LO,
    AT_LO, AT_LO, AT_LO, AT_LO, AT_LO, AT_LO, AT_LO, AT_LO, AT_LO, AT_LO,
    AT_LO, AT_LO, AT_LO, AT_PR, AT_PR, AT_PR, AT_PR, 0]"

text \<open>
  \<open>char\<close> is signed: \<open>c < 128\<close> is always true, and a byte from 128 on is a negative index, which
  reads outside the table.
\<close>

definition unichar_isident :: "char \<Rightarrow> bool option" where
  "unichar_isident c =
     (let i = of_char c :: nat in
      if i < length attr then Some ((attr ! i) AND (FL_ALPHA OR FL_DIGIT) \<noteq> 0 \<or> c = CHR ''_'') else None)"

text \<open>The loop runs while both strings go on and agree.\<close>

fun str_startswith_word :: "string \<Rightarrow> string \<Rightarrow> bool option" where
  "str_startswith_word (c # str) (h # head) = (if c \<noteq> h then Some False else str_startswith_word str head)"
| "str_startswith_word [] (h # head) = Some False"
| "str_startswith_word [] [] = Some True"
| "str_startswith_word (c # str) [] = map_option Not (unichar_isident c)"

section \<open>Continuation of input\<close>

text \<open>\<open>||\<close>, which does not look at its right operand if the left one is true.\<close>

definition or_else :: "bool option \<Rightarrow> bool option \<Rightarrow> bool option" where
  "or_else a b = (case a of Some False \<Rightarrow> b | _ \<Rightarrow> a)"

definition compound_keywords :: "string list" where
  "compound_keywords = [''if'', ''while'', ''for'', ''try'', ''with'', ''def'', ''class'']"

definition starts_with_compound_keyword :: "string \<Rightarrow> bool option" where
  "starts_with_compound_keyword input =
     or_else (Some (take 1 input = ''@''))
       (foldr or_else (map (str_startswith_word input) compound_keywords) (Some False))"

text \<open>The numbers of the quotes; the code switches between two of them by subtraction.\<close>

abbreviation (input) Q_NONE :: int where "Q_NONE \<equiv> 0"
abbreviation (input) Q_1_SINGLE :: int where "Q_1_SINGLE \<equiv> 1"
abbreviation (input) Q_1_DOUBLE :: int where "Q_1_DOUBLE \<equiv> 2"
abbreviation (input) Q_3_SINGLE :: int where "Q_3_SINGLE \<equiv> 3"
abbreviation (input) Q_3_DOUBLE :: int where "Q_3_DOUBLE \<equiv> 4"

abbreviation (input) single_quote :: char where "single_quote \<equiv> CHR 0x27"
abbreviation (input) double_quote :: char where "double_quote \<equiv> CHR 0x22"
abbreviation (input) backslash :: char where "backslash \<equiv> CHR 0x5C"
abbreviation (input) line_end :: char where "line_end \<equiv> CHR 0x0A"

record scan =
  n_paren :: int
  n_brack :: int
  n_brace :: int
  in_quote :: int

definition scan_start :: scan where
  "scan_start = \<lparr>n_paren = 0, n_brack = 0, n_brace = 0, in_quote = Q_NONE\<rparr>"

text \<open>\<open>i[1]\<close> and \<open>i[2]\<close> seen from \<open>*i\<close>, where \<open>cs\<close> is what follows; behind the end is the null.\<close>

definition peek :: "string \<Rightarrow> nat \<Rightarrow> char" where
  "peek cs n = (if n < length cs then cs ! n else CHR 0x00)"

definition count_bracket :: "char \<Rightarrow> scan \<Rightarrow> scan" where
  "count_bracket c s =
     (if c = CHR ''('' then s\<lparr>n_paren := n_paren s + 1\<rparr>
      else if c = CHR '')'' then s\<lparr>n_paren := n_paren s - 1\<rparr>
      else if c = CHR ''['' then s\<lparr>n_brack := n_brack s + 1\<rparr>
      else if c = CHR '']'' then s\<lparr>n_brack := n_brack s - 1\<rparr>
      else if c = CHR ''{'' then s\<lparr>n_brace := n_brace s + 1\<rparr>
      else if c = CHR ''}'' then s\<lparr>n_brace := n_brace s - 1\<rparr>
      else s)"

text \<open>A quote character \<open>q\<close> whose numbers are \<open>one\<close> and \<open>three\<close>; with how far it moves \<open>i\<close>.\<close>

definition scan_quote :: "char \<Rightarrow> int \<Rightarrow> int \<Rightarrow> string \<Rightarrow> scan \<Rightarrow> nat \<times> scan" where
  "scan_quote q one three cs s =
     (if (in_quote s = Q_NONE \<or> in_quote s = three) \<and> peek cs 0 = q \<and> peek cs 1 = q
      then (2, s\<lparr>in_quote := three - in_quote s\<rparr>)
      else if in_quote s = Q_NONE \<or> in_quote s = one then (0, s\<lparr>in_quote := one - in_quote s\<rparr>)
      else (0, s))"

definition scan_char :: "char \<Rightarrow> string \<Rightarrow> scan \<Rightarrow> nat \<times> scan" where
  "scan_char c cs s =
     (if c = single_quote then scan_quote single_quote Q_1_SINGLE Q_3_SINGLE cs s
      else if c = double_quote then scan_quote double_quote Q_1_DOUBLE Q_3_DOUBLE cs s
      else if c = backslash \<and> peek cs 0 \<in> {single_quote, double_quote, backslash}
      then (if in_quote s \<noteq> Q_NONE then 1 else 0, s)
      else if in_quote s = Q_NONE then (0, count_bracket c s)
      else (0, s))"

function scan_input :: "string \<Rightarrow> scan \<Rightarrow> scan" where
  "scan_input [] s = s"
| "scan_input (c # cs) s = (case scan_char c cs s of (n, s') \<Rightarrow> scan_input (drop n cs) s')"
  by pat_completeness auto
termination
  by (relation "measure (length \<circ> fst)") auto

definition mp_repl_continue_with_input :: "string \<Rightarrow> bool option" where
  "mp_repl_continue_with_input input =
     (if input = [] then Some False
      else case starts_with_compound_keyword input of
        None \<Rightarrow> None
      | Some compound \<Rightarrow>
          let s = scan_input input scan_start in
          Some (if in_quote s = Q_3_SINGLE \<or> in_quote s = Q_3_DOUBLE then True
                else if (n_paren s > 0 \<or> n_brack s > 0 \<or> n_brace s > 0) \<and> in_quote s = Q_NONE then True
                else if last input = backslash then True
                else if compound \<and> last input \<noteq> line_end then True
                else False))"

section \<open>What the helpers compute\<close>

lemma size_loop_invariant:
  assumes "unat w = n div 1024 ^ d" and "unat r = (if d = 0 then 0 else n div 1024 ^ (d - 1) mod 1024)"
    and "d = 0 \<or> 1024 \<le> n div 1024 ^ (d - 1)" and "size_loop w d r = (w', d', r')"
  shows "unat w' = n div 1024 ^ d' \<and> unat r' = (if d' = 0 then 0 else n div 1024 ^ (d' - 1) mod 1024) \<and>
    (d' = 0 \<or> 1024 \<le> n div 1024 ^ (d' - 1))"
  using assms
proof (induction w d r rule: size_loop.induct)
  case (1 w d r)
  show ?case
  proof (cases "1024 \<le> w \<and> d < length size_units")
    case True
    then have w: "1024 \<le> unat w" by (simp add: word_le_nat_alt)
    have "size_loop (w div 1024) (d + 1) (w mod 1024) = (w', d', r')"
      using 1(5) True by (subst (asm) size_loop.simps) simp
    then show ?thesis
      using 1(1) [OF True] 1(2) w by (simp add: unat_div unat_mod div_mult2_eq [symmetric] mult.commute)
  next
    case False
    then show ?thesis using 1(2-5) by (subst (asm) size_loop.simps) auto
  qed
qed

lemma size_loop_bound:
  assumes "size_loop w 0 0 = (w', d, r)"
  shows "d < 4"
proof -
  have "d = 0 \<or> 1024 \<le> unat w div 1024 ^ (d - 1)"
    using size_loop_invariant [of w "unat w" 0 0 w' d r] assms by simp
  moreover have "unat w div 1024 ^ (d - 1) \<le> 3" if "4 \<le> d"
  proof -
    have "(1024 :: nat) ^ 3 \<le> 1024 ^ (d - 1)" using that by (intro power_increasing) simp_all
    then have "unat w div 1024 ^ (d - 1) \<le> unat w div 1024 ^ 3" by (rule div_le_mono2 [rotated]) simp
    also have "\<dots> \<le> 3" using unat_less_32 [of w] by simp
    finally show ?thesis .
  qed
  ultimately show ?thesis by (cases "4 \<le> d") auto
qed

lemma round_even_close: "0 < b \<Longrightarrow> 2 * abs (int b * int (round_even a b) - int a) \<le> int b"
proof -
  assume "0 < b"
  then have r: "a mod b < b" by simp
  have "int a = int b * int (a div b) + int (a mod b)"
    by (metis mult_div_mod_eq of_nat_add of_nat_mult)
  with r show ?thesis
    by (auto simp: round_even_def algebra_simps)
qed

lemma round_even_exact: "0 < b \<Longrightarrow> round_even (a * b) b = a"
  by (simp add: round_even_def)

lemma tenths_close:
  assumes "size_loop w 0 0 = (w', d, r)"
  shows "1024 * abs (int (tenths_of w' r) * 1024 ^ d - 10 * uint w) \<le> 522 * 1024 ^ d"
proof (cases d)
  case 0
  have "unat w' = unat w" "unat r = 0"
    using size_loop_invariant [of w "unat w" 0 0 w' d r] assms 0 by simp_all
  then have "tenths_of w' r = 10 * unat w"
    using round_even_exact [of 1024 "10 * unat w"] by (simp add: tenths_of_def mult_ac)
  then show ?thesis using 0 by simp
next
  case (Suc e)
  let ?m = "unat w div 1024 ^ e"
  have "unat w' = ?m div 1024" "unat r = ?m mod 1024"
    using size_loop_invariant [of w "unat w" 0 0 w' d r] assms Suc
    by (simp_all add: div_mult2_eq [symmetric] mult.commute)
  then have m: "1024 * unat w' + unat r = ?m" by simp
  have "2 * abs (1024 * int (tenths_of w' r) - 10 * int ?m) \<le> 1024"
    using round_even_close [of 1024 "10 * ?m"] unfolding tenths_of_def m by simp
  then have close: "abs (1024 * int (tenths_of w' r) - 10 * int ?m) \<le> 512" by simp
  let ?k = "1024 ^ e :: int" and ?low = "int (unat w mod 1024 ^ e)"
  have "unat w mod 1024 ^ e < 1024 ^ e" by simp
  then have "?low < int (1024 ^ e)" by (simp only: of_nat_less_iff)
  then have low: "0 \<le> ?low" "?low \<le> ?k" by (simp_all only: of_nat_power of_nat_numeral less_imp_le of_nat_0_le_iff)
  have "uint w = int ?m * ?k + ?low"
    using arg_cong [OF div_mult_mod_eq [of "unat w" "1024 ^ e"], of int]
    by (simp only: of_nat_add of_nat_mult of_nat_power of_nat_numeral uint_nat)
  then have "int (tenths_of w' r) * 1024 ^ d - 10 * uint w =
      (1024 * int (tenths_of w' r) - 10 * int ?m) * ?k - 10 * ?low"
    by (simp add: Suc algebra_simps)
  also have "abs \<dots> \<le> abs (1024 * int (tenths_of w' r) - 10 * int ?m) * ?k + 10 * ?low"
    using abs_triangle_ineq4 [of "(1024 * int (tenths_of w' r) - 10 * int ?m) * ?k" "10 * ?low"] low by (simp add: abs_mult)
  also have "\<dots> \<le> 512 * ?k + 10 * ?k"
    by (intro add_mono mult_left_mono mult_right_mono close low) simp_all
  finally show ?thesis by (simp add: Suc)
qed

definition word_char :: "char \<Rightarrow> bool" where
  "word_char c \<longleftrightarrow> (let i = of_char c :: nat in
     48 \<le> i \<and> i \<le> 57 \<or> 65 \<le> i \<and> i \<le> 90 \<or> 97 \<le> i \<and> i \<le> 122 \<or> i = 95)"

definition ascii :: "string \<Rightarrow> bool" where
  "ascii s \<longleftrightarrow> (\<forall>c \<in> set s. of_char c < (128 :: nat))"

lemma attr_table:
  "length attr = 128 \<and> (\<forall>i \<in> set [0..<128]. (attr ! i) AND (FL_ALPHA OR FL_DIGIT) \<noteq> 0 \<longleftrightarrow>
     48 \<le> i \<and> i \<le> 57 \<or> 65 \<le> i \<and> i \<le> 90 \<or> 97 \<le> i \<and> i \<le> 122)"
  by code_simp

lemma isident_ascii:
  assumes "of_char c < (128 :: nat)"
  shows "unichar_isident c = Some (word_char c)"
proof -
  have "of_char (CHR ''_'') = (95 :: nat)" by simp
  then have "c = CHR ''_'' \<longleftrightarrow> of_char c = (95 :: nat)" by (metis of_char_eq_iff)
  then show ?thesis using assms attr_table by (auto simp: unichar_isident_def word_char_def Let_def)
qed

definition has_word :: "string \<Rightarrow> string \<Rightarrow> bool" where
  "has_word input head \<longleftrightarrow> take (length head) input = head \<and>
     (length head < length input \<longrightarrow> \<not> word_char (input ! length head))"

lemma startswith_ascii: "ascii str \<Longrightarrow> str_startswith_word str head = Some (has_word str head)"
  by (induction str head rule: str_startswith_word.induct) (auto simp: ascii_def has_word_def isident_ascii)

lemma or_else_all: "foldr or_else (map Some bs) (Some False) = Some (\<exists>b \<in> set bs. b)"
  by (induction bs) (auto simp: or_else_def split: bool.split)

definition compound_start :: "string \<Rightarrow> bool" where
  "compound_start input \<longleftrightarrow> take 1 input = ''@'' \<or> (\<exists>k \<in> set compound_keywords. has_word input k)"

lemma compound_ascii:
  assumes "ascii input"
  shows "starts_with_compound_keyword input = Some (compound_start input)"
proof -
  have words: "map (str_startswith_word input) compound_keywords = map Some (map (has_word input) compound_keywords)"
    using startswith_ascii [OF assms] by simp
  show ?thesis
    unfolding starts_with_compound_keyword_def words or_else_all
    by (simp add: compound_start_def or_else_def split: bool.split)
qed

text \<open>The scanner never looks beyond the end of a line, so it can work line by line.\<close>

lemma scan_char_line: "scan_char c (cs @ line_end # ys) s = scan_char c cs s"
  by (cases cs; cases "tl cs") (simp_all add: scan_char_def scan_quote_def peek_def)

lemma scan_char_inside: "scan_char c cs s = (n, s') \<Longrightarrow> n \<le> length cs"
  by (cases cs; cases "tl cs") (auto simp: scan_char_def scan_quote_def peek_def split: if_splits)

lemma scan_char_end [simp]: "scan_char line_end ys s = (0, s)"
  by (simp add: scan_char_def count_bracket_def)

lemma scan_append: "scan_input (xs @ line_end # ys) s = scan_input ys (scan_input xs s)"
proof (induction xs s rule: scan_input.induct)
  case (2 c cs s)
  then show ?case using scan_char_inside [of c cs s]
    by (auto simp: scan_char_line split: prod.split)
qed simp

fun join_lines :: "string list \<Rightarrow> string" where
  "join_lines [] = []"
| "join_lines [l] = l"
| "join_lines (l # ls) = l @ line_end # join_lines ls"

lemma scan_join_lines: "scan_input (join_lines ls) s = fold scan_input ls s"
  by (induction ls arbitrary: s rule: join_lines.induct) (simp_all add: scan_append)

lemma join_lines_snoc: "ls \<noteq> [] \<Longrightarrow> join_lines (ls @ [l]) = join_lines ls @ line_end # l"
proof (induction ls rule: join_lines.induct)
  case (3 l l' ls)
  then show ?case by simp
qed simp_all

definition unfinished :: "scan \<Rightarrow> bool" where
  "unfinished s \<longleftrightarrow> in_quote s \<in> {Q_3_SINGLE, Q_3_DOUBLE} \<or>
     in_quote s = Q_NONE \<and> (n_paren s > 0 \<or> n_brack s > 0 \<or> n_brace s > 0)"

section \<open>Properties\<close>

text \<open>
  The size shown is right.  \<open>printsize\<close> never reads outside its table of units; it prints a
  number of tenths of the unit it names, a power of 1024, which differs from the size by at
  most 522/1024 of a tenth, that is, by rounding and by the part of the size that it drops.
\<close>

theorem printsize_close:
  "\<exists>t d. d < 4 \<and> printsize sz bytes =
      Some (show_tenths t @ (if d = 0 \<and> \<not> bytes then [] else [''B'', ''K'', ''M'', ''G''] ! d)) \<and>
    1024 * abs (int t * 1024 ^ d - 10 * uint sz) \<le> 522 * 1024 ^ d"
proof (cases "size_loop sz 0 0")
  case (fields w d r)
  then have d: "d < 4" by (rule size_loop_bound)
  show ?thesis
    by (intro exI [of _ "tenths_of w r"] exI [of _ d])
      (use d tenths_close [OF fields] in \<open>simp add: printsize_def fields unit_at_def size_units_def\<close>)
qed



end
