(* ===== verification/Shell.thy ===== *)
theory Shell
  imports Contract Compiler Repl_Input
begin

text \<open>
  The interactive shell (\<^verbatim>\<open>src/shell/main.cpp\<close>): running and compiling files, the prompt, the
  command line and \<open>main\<close>.  What it writes to the terminal and to files is a list of events,
  without the colours.  The parser (with the errors it reports), snappy, the files of the disk
  and the memory the allocator has in use are arguments.
\<close>

section \<open>Syntax errors\<close>

text \<open>The fields of \<open>pypa::Error\<close> that the handler reads.\<close>

datatype error_type = SyntaxError | SyntaxWarning | IndentationError

record parse_error =
  etype :: error_type
  message :: string
  cur_line :: nat
  cur_column :: nat
  source_line :: string

definition error_type_text :: "error_type \<Rightarrow> string" where
  "error_type_text t =
     (case t of SyntaxError \<Rightarrow> ''SyntaxError'' | SyntaxWarning \<Rightarrow> ''SyntaxWarning''
      | IndentationError \<Rightarrow> ''IndentationError'')"

text \<open>\<open>handle_error\<close> on the error buffer; the column of an error without one counts as 1.\<close>

definition handle_error :: "bool \<Rightarrow> parse_error \<Rightarrow> string \<Rightarrow> string" where
  "handle_error full_header e buffer =
     (if buffer \<noteq> [] then buffer
      else
        (if full_header
         then ''File '' @ [double_quote] @ ''__stdin__'' @ [double_quote] @ '', line '' @ show_nat (cur_line e) @
              [newline] @ ''    '' @ c_str (source_line e) @ [newline] @ ''    ''
         else ''    '') @
        replicate ((if cur_column e = 0 then 1 else cur_column e) - 1) (CHR '' '') @ ''^'' @ [newline] @
        error_type_text (etype e) @ '': '' @ c_str (message e) @ [newline])"

section \<open>The state of the shell\<close>

datatype event =
    Out string
  | Err string
  | Wrote string "u8 list"

text \<open>\<open>program_output\<close> of the machine is \<open>stdout_buffer\<close>.\<close>

record shell =
  machine :: vm
  error_buffer :: string
  full_header :: bool
  console :: "event list"

definition say :: "event \<Rightarrow> shell \<Rightarrow> shell" where
  "say e sh = sh\<lparr>console := console sh @ [e]\<rparr>"

text \<open>Shows and empties \<open>stdout_buffer\<close>.\<close>

definition flush_output :: "shell \<Rightarrow> shell" where
  "flush_output sh =
     (let sh' = if program_output (machine sh) = [] then sh else say (Out (program_output (machine sh))) sh
      in sh'\<lparr>machine := (machine sh')\<lparr>program_output := []\<rparr>\<rparr>)"

definition reverted_text :: string where
  "reverted_text = ''** the contract execution has been reverted gracefully **'' @ [newline]"

definition suicided_text :: string where
  "suicided_text = ''** the contract has suicided, and will go into hibernation mode now **'' @ [newline]"

text \<open>What the handlers of \<open>std::exception\<close> show: the parser's error or the exception's text.\<close>

definition show_error :: "string \<Rightarrow> exn \<Rightarrow> shell \<Rightarrow> shell" where
  "show_error what_kind e sh =
     (say (Err (if error_buffer sh \<noteq> [] then error_buffer sh else what_kind @ '': '' @ what e @ [newline])) sh)
       \<lparr>error_buffer := []\<rparr>"

definition show_exception :: "exn \<Rightarrow> shell \<Rightarrow> shell" where
  "show_exception e sh =
     (case e of
        RevertException \<Rightarrow> say (Err reverted_text) sh
      | SuicideException \<Rightarrow> say (Err suicided_text) sh
      | _ \<Rightarrow> show_error ''RuntimeError'' e sh)"

text \<open>A program of the machine; a trap is left to the operating system.\<close>

definition on_machine :: "'a exec \<Rightarrow> shell \<Rightarrow> (exn + 'a) \<times> shell" where
  "on_machine m sh = (case m (machine sh) of (r, s) \<Rightarrow> (r, sh\<lparr>machine := s\<rparr>))"

text \<open>\<open>print_instruction_limit\<close>, with the memory in use and its limit.\<close>

definition size_text :: "u32 \<Rightarrow> bool \<Rightarrow> string" where
  "size_text n bytes = (case printsize n bytes of None \<Rightarrow> [] | Some t \<Rightarrow> t)"

definition limits_text :: "u32 \<times> u32 \<Rightarrow> vm \<Rightarrow> string" where
  "limits_text mem s =
     ''limits: [instruction limit: '' @ size_text (m_num_execution_steps (ip s)) False @ '' / '' @
     size_text (m_execution_step_limit (ip s)) False @ '' | memory used '' @ size_text (fst mem) True @ '' / '' @
     size_text (snd mem) True @ '' ] '' @ [newline]"

definition print_instruction_limit :: "(vm \<Rightarrow> u32 \<times> u32) \<Rightarrow> shell \<Rightarrow> shell" where
  "print_instruction_limit mem sh = say (Out (limits_text (mem (machine sh)) (machine sh))) sh"

section \<open>Files\<close>

definition ends_with :: "string \<Rightarrow> string \<Rightarrow> bool" where
  "ends_with val ending =
     (if length val < length ending then False
      else take (length ending) (rev val) = rev ending)"

text \<open>The parser reports its errors to the handler as it goes, and then succeeds or fails.\<close>

type_synonym 'src parser = "'src \<Rightarrow> parse_error list \<times> ast option option"

definition report_errors :: "parse_error list \<Rightarrow> shell \<Rightarrow> shell" where
  "report_errors es sh = sh\<lparr>error_buffer := fold (handle_error (full_header sh)) es (error_buffer sh)\<rparr>"

text \<open>
  The three ways to get bytecode from a file; \<open>disk\<close> is what the files hold, and a file that
  cannot be opened reads as empty.
\<close>

definition load_program :: "string parser \<Rightarrow> (u8 list \<Rightarrow> u8 list) \<Rightarrow> (string \<Rightarrow> u8 list) \<Rightarrow> bool \<Rightarrow> string \<Rightarrow>
    shell \<Rightarrow> (exn + bitstream) \<times> shell" where
  "load_program parse uncompress disk unsnappy filename sh =
     (if ends_with filename ''.bitstream.unsnappy'' \<or> unsnappy then (Inr (bitstream_of (disk filename)), sh)
      else if ends_with filename ''.bitstream'' then (Inr (bitstream_of (uncompress (disk filename))), sh)
      else (compile_file (snd \<circ> parse) filename, report_errors (fst (parse filename)) sh))"

definition run_program :: "nat \<Rightarrow> u8 list \<Rightarrow> bitstream \<Rightarrow> valueptr exec" where
  "run_program fuel data doc = bnd (on_ip (re_assign_bitstream doc)) (\<lambda>_. run_contract fuel data)"

definition handle_src_file :: "string parser \<Rightarrow> (u8 list \<Rightarrow> u8 list) \<Rightarrow> (string \<Rightarrow> u8 list) \<Rightarrow> (vm \<Rightarrow> u32 \<times> u32) \<Rightarrow>
    bool \<Rightarrow> nat \<Rightarrow> string \<Rightarrow> u8 list \<Rightarrow> shell \<Rightarrow> (exn + unit) \<times> shell" where
  "handle_src_file parse uncompress disk mem unsnappy fuel filename data sh =
     (case load_program parse uncompress disk unsnappy filename (sh\<lparr>full_header := True\<rparr>) of
        (loaded, sh1) \<Rightarrow>
      case (case loaded of Inl e \<Rightarrow> (Inl e, sh1) | Inr doc \<Rightarrow> on_machine (run_program fuel data doc) sh1) of
        (result, sh2) \<Rightarrow>
      case result of
        Inr v \<Rightarrow> (Inr (), print_instruction_limit mem (flush_output sh2))
      | Inl e \<Rightarrow>
          if crash e then (Inl e, sh2)
          else (Inr (), print_instruction_limit mem (show_exception e (flush_output sh2))))"

text \<open>\<open>compile_src_file\<close> and \<open>compile_src_file_unsnappy\<close>, which differ in suffix and packing.\<close>

definition compile_to :: "string parser \<Rightarrow> string \<Rightarrow> (u8 list \<Rightarrow> u8 list) \<Rightarrow> string \<Rightarrow> shell \<Rightarrow> shell" where
  "compile_to parse suffix pack filename sh =
     (let sh1 = report_errors (fst (parse filename)) (sh\<lparr>full_header := True\<rparr>)
      in case compile_file (snd \<circ> parse) filename of
           Inr doc \<Rightarrow> say (Wrote (filename @ suffix) (pack (bytecode doc))) sh1
         | Inl e \<Rightarrow> show_error ''CompileError'' e sh1)"

definition compile_src_file :: "string parser \<Rightarrow> (u8 list \<Rightarrow> u8 list) \<Rightarrow> string \<Rightarrow> shell \<Rightarrow> shell" where
  "compile_src_file parse compress = compile_to parse ''.bitstream'' compress"

definition compile_src_file_unsnappy :: "string parser \<Rightarrow> string \<Rightarrow> shell \<Rightarrow> shell" where
  "compile_src_file_unsnappy parse = compile_to parse ''.bitstream.unsnappy'' (\<lambda>raw. raw)"

section \<open>The prompt\<close>

text \<open>
  \<open>readline\<close> takes its lines from a list; at its end it returns the null pointer.  A statement
  comes with the lines left.
\<close>

datatype statement_read =
    End_Of_Input
  | Read_Outside
  | Statement string "string list"

fun read_more :: "string \<Rightarrow> string list \<Rightarrow> statement_read" where
  "read_more line [] =
     (case mp_repl_continue_with_input (c_str line) of
        None \<Rightarrow> Read_Outside | Some True \<Rightarrow> End_Of_Input | Some False \<Rightarrow> Statement line [])"
| "read_more line (l # ls) =
     (case mp_repl_continue_with_input (c_str line) of
        None \<Rightarrow> Read_Outside
      | Some True \<Rightarrow> read_more (line @ [newline] @ l) ls
      | Some False \<Rightarrow> Statement line (l # ls))"

definition read_statement :: "string list \<Rightarrow> statement_read" where
  "read_statement ls = (case ls of [] \<Rightarrow> End_Of_Input | l # ls' \<Rightarrow> read_more l ls')"

text \<open>One round: compile, replace the program, run; only success shows the program's output.\<close>

definition repl_program :: "nat \<Rightarrow> bitstream \<Rightarrow> valueptr exec" where
  "repl_program fuel doc = bnd (on_ip (re_assign_bitstream doc)) (\<lambda>_. execute fuel)"

definition repl_eval :: "string_reader parser \<Rightarrow> nat \<Rightarrow> string \<Rightarrow> shell \<Rightarrow> (exn + unit) \<times> shell" where
  "repl_eval parse fuel line sh =
     (let sh1 = report_errors (fst (parse (string_reader_of line))) sh
      in case (case compile_string (snd \<circ> parse) line of
                 Inl e \<Rightarrow> (Inl e, sh1) | Inr doc \<Rightarrow> on_machine (repl_program fuel doc) sh1) of
           (result, sh2) \<Rightarrow>
         case result of
           Inr v \<Rightarrow> (Inr (), flush_output sh2)
         | Inl e \<Rightarrow> if crash e then (Inl e, sh2) else (Inr (), show_exception e sh2))"

text \<open>The limits are printed before every line that is asked for.\<close>

definition prompts :: "(vm \<Rightarrow> u32 \<times> u32) \<Rightarrow> nat \<Rightarrow> shell \<Rightarrow> shell" where
  "prompts mem n sh = (print_instruction_limit mem ^^ n) sh"

lemma read_more_left: "read_more line ls = Statement st rest \<Longrightarrow> length rest \<le> length ls"
  by (induction line ls rule: read_more.induct) (fastforce split: option.splits bool.splits)+

lemma read_statement_left: "read_statement ls = Statement st rest \<Longrightarrow> length rest < length ls"
  using read_more_left by (fastforce simp: read_statement_def split: list.splits)

text \<open>How the process ends; \<open>Undefined\<close> is a read outside of an array or through a null pointer.\<close>

datatype process_end =
    Exit nat
  | Killed exn
  | Undefined

function handle_readline :: "string_reader parser \<Rightarrow> (vm \<Rightarrow> u32 \<times> u32) \<Rightarrow> nat \<Rightarrow> string list \<Rightarrow> shell \<Rightarrow>
    process_end \<times> shell" where
  "handle_readline parse mem fuel ls sh =
     (case read_statement ls of
        End_Of_Input \<Rightarrow> (Exit 0, prompts mem (length ls + 1) sh)
      | Read_Outside \<Rightarrow> (Undefined, sh)
      | Statement line rest \<Rightarrow>
          (case repl_eval parse fuel line (prompts mem (length ls - length rest) sh) of
             (Inl e, sh') \<Rightarrow> (Killed e, sh')
           | (Inr u, sh') \<Rightarrow> handle_readline parse mem fuel rest sh'))"
  by pat_completeness auto
termination
  by (relation "measure (\<lambda>(parse, mem, fuel, ls, sh). length ls)") (auto dest: read_statement_left)

declare handle_readline.simps [simp del]

section \<open>The command line\<close>

text \<open>The globals that the options set, and their defaults (\<^verbatim>\<open>blockchain_module.cpp\<close> and \<^verbatim>\<open>main.cpp\<close>).\<close>

record settings =
  only_compile :: bool
  unsnappy :: bool
  gas :: u32
  gasprice :: u32
  pagelimit :: u32
  max_pages :: nat
  net :: net_type
  params :: chain_env

definition COIN :: u64 where
  "COIN = 100000000"

definition default_params :: chain_env where
  "default_params =
     \<lparr>txid = ''a1075db55d416d3ca199f55b6084e2115b9345e16c5cf302fc80e9d5fbf5d48d'',
      current_block = ''00000000000000000015c23c0979270b91c26a562ae62463b85481f1d945bc21'',
      previous_block = ''0000000000000000002f3cb3939d8685c8976dc9e35ccec08c4e121b12688974'',
      current_time = 1546659311, current_height = 1234567, previous_time = 1546659307,
      sender = ''1A1zP1eP5QGefi2DMPTfTL5SLmv7DivfNa'',
      contract_address = ''1XPTgDRhN8RFnzniWCddobD9iKZatrvH4'',
      call_value = 50 * COIN, contract_balance = 300 * COIN, send_map = []\<rparr>"

definition default_settings :: settings where
  "default_settings =
     \<lparr>only_compile = False, unsnappy = False, gas = 5000000, gasprice = 100, pagelimit = 3, max_pages = 3,
      net = MAIN, params = default_params\<rparr>"

text \<open>
  Leaving early: \<open>exit(usage(argv))\<close>, which shows the globals as the options so far have set them, or
  \<open>argv[a + 1]\<close> is the null pointer at the end of \<open>argv\<close>.
\<close>

datatype stop = Exit_Usage chain_env | Null_Argument

text \<open>What \<open>usage\<close> prints, line by line.\<close>

definition usage_lines :: "string \<Rightarrow> chain_env \<Rightarrow> string list" where
  "usage_lines argv0 p = [
     ''usage: '' @ argv0 @ '' [<opts>] [<filename> | <contract address> | <empty>]'',
     [],
     ''Options:'',
     [],
     ''-x             : compile python file into bitstream'',
     ''-x             : compile python file into bitstream'',
     ''-S             : (unsnappy) compiles the bitstream without compression (debug only)'',
     ''-G [N]         : set gasprice, maximum instructions will be gas / gasprice [default: 100]'',
     ''-n [N]         : set network type (0=main, 1=testnet, 2=regtest) [default: 0]'',
     ''-m [N]         : memory limit in PAGES (page size is 1MB) [default: 3]'',
     [],
     ''Blockchain parameters (only used when last parameter is not a contract address):'',
     [],
     ''-t [<hash>]    : current txid'',
     ''                 [default: '' @ c_str (txid p) @ '']'',
     ''-b [<hash>]    : current block's hash in hex format'',
     ''                 [default: '' @ c_str (current_block p) @ '']'',
     ''-B [<hash>]    : previous block's hash in hex format'',
     ''                 [default: '' @ c_str (previous_block p) @ '']'',
     ''-t [N]         : current block's UNIX timestamp [default: '' @ show_nat (unat (current_time p)) @ '']'',
     ''-T [N]         : previous block's UNIX timestamp [default: '' @ show_nat (unat (previous_time p)) @ '']'',
     ''-H [N]         : current block's height [default: '' @ show_nat (unat (current_height p)) @ '']'',
     ''-s [<address>] : the sender of the current transaction'',
     ''                 [default: '' @ c_str (sender p) @ '']'',
     ''-a [<address>] : the current address of the contract'',
     ''                 [default: '' @ c_str (contract_address p) @ '']'',
     ''-v [N]         : the amount that was sent in this transaction [default: '' @ show_nat (unat (call_value p)) @ '']'',
     ''-V [N]         : the contract's current balance [default: '' @ show_nat (unat (contract_balance p)) @ '']'',
     []]"

definition usage_text :: "string \<Rightarrow> chain_env \<Rightarrow> string" where
  "usage_text argv0 p = concat (map (\<lambda>l. l @ [newline]) (usage_lines argv0 p))"

definition atoi :: "string \<Rightarrow> u32" where
  "atoi s = word_of_int (strtol s)"

definition atol :: "string \<Rightarrow> u64" where
  "atol s = word_of_int (strtol s)"

definition set_net :: "u32 \<Rightarrow> settings \<Rightarrow> settings" where
  "set_net n s =
     s\<lparr>net := (if n = 0 then MAIN else if n = 1 then TEST else if n = 2 then REGTEST else net s)\<rparr>"

definition with_argument :: "string option \<Rightarrow> nat \<Rightarrow> (string \<Rightarrow> settings) \<Rightarrow> stop + nat \<times> settings" where
  "with_argument arg skip f = (case arg of None \<Rightarrow> Inl Null_Argument | Some v \<Rightarrow> Inr (skip, f v))"

text \<open>One option, with how much it adds to \<open>skip\<close>.\<close>

definition apply_option :: "string \<Rightarrow> string option \<Rightarrow> settings \<Rightarrow> stop + nat \<times> settings" where
  "apply_option opt arg s =
     (let p = params s in
      if opt = ''-h'' then Inl (Exit_Usage p)
      else if opt = ''-b'' then with_argument arg 2 (\<lambda>v. s\<lparr>params := p\<lparr>current_block := v\<rparr>\<rparr>)
      else if opt = ''-x'' then Inr (1, s\<lparr>only_compile := True\<rparr>)
      else if opt = ''-S'' then Inr (1, s\<lparr>unsnappy := True\<rparr>)
      else if opt = ''-B'' then with_argument arg 2 (\<lambda>v. s\<lparr>params := p\<lparr>previous_block := v\<rparr>\<rparr>)
      else if opt = ''-t'' then with_argument arg 2 (\<lambda>v. s\<lparr>params := p\<lparr>current_time := atoi v\<rparr>\<rparr>)
      else if opt = ''-T'' then with_argument arg 2 (\<lambda>v. s\<lparr>params := p\<lparr>previous_time := atoi v\<rparr>\<rparr>)
      else if opt = ''-H'' then with_argument arg 2 (\<lambda>v. s\<lparr>params := p\<lparr>current_height := atoi v\<rparr>\<rparr>)
      else if opt = ''-s'' then with_argument arg 1 (\<lambda>v. s\<lparr>params := p\<lparr>sender := v\<rparr>\<rparr>)
      else if opt = ''-a'' then with_argument arg 2 (\<lambda>v. s\<lparr>params := p\<lparr>contract_address := v\<rparr>\<rparr>)
      else if opt = ''-v'' then with_argument arg 2 (\<lambda>v. s\<lparr>params := p\<lparr>call_value := atol v\<rparr>\<rparr>)
      else if opt = ''-V'' then with_argument arg 2 (\<lambda>v. s\<lparr>params := p\<lparr>contract_balance := atol v\<rparr>\<rparr>)
      else if opt = ''-g'' then with_argument arg 1 (\<lambda>v. s\<lparr>gas := atoi v\<rparr>)
      else if opt = ''-p'' then with_argument arg 1 (\<lambda>v. s\<lparr>gasprice := atoi v\<rparr>)
      else if opt = ''-n'' then
        (case arg of
           None \<Rightarrow> Inl Null_Argument
         | Some v \<Rightarrow> if atoi v > 2 then Inl (Exit_Usage p) else Inr (2, set_net (atoi v) s))
      else if opt = ''-m'' then
        with_argument arg 2 (\<lambda>v. s\<lparr>pagelimit := atoi v, max_pages := unat (atoi v)\<rparr>)
      else Inr (1, s))"

text \<open>Every argument is looked at, those too that were an option's value.\<close>

fun pre_process_options :: "string list \<Rightarrow> settings \<Rightarrow> stop + nat \<times> settings" where
  "pre_process_options [] s = Inr (0, s)"
| "pre_process_options (a # args) s =
     (if take 1 a = ''-'' then
        (case apply_option a (case args of [] \<Rightarrow> None | v # vs \<Rightarrow> Some v) s of
           Inl e \<Rightarrow> Inl e
         | Inr (n, s') \<Rightarrow> map_sum (\<lambda>e. e) (map_prod ((+) n) (\<lambda>t. t)) (pre_process_options args s'))
      else pre_process_options args s)"

definition main_input :: "string list \<Rightarrow> nat \<Rightarrow> string" where
  "main_input args skip = (if args = [] \<or> length args = skip then [] else last args)"

section \<open>\<open>main\<close>\<close>

definition start_interpreter :: "string_reader parser \<Rightarrow> settings \<Rightarrow> unit exec" where
  "start_interpreter parse s =
     bnd (lift_sum (compile_string (snd \<circ> parse) [])) (\<lambda>doc.
     bnd (new_interpreter (bytecode doc)) (\<lambda>_.
     bnd (lift_sum (step_limit (ucast (gas s)) (gasprice s))) (\<lambda>limit.
     bnd (on_ip (set_execution_step_limit limit)) (\<lambda>_. register_blockchain_module))))"

definition welcome_text :: string where
  "welcome_text = [newline] @ ''Welcome to ContractPython v1.0'' @ [newline] @ ''Press CTRL+D to exit'' @ [newline, newline]"

text \<open>\<open>std::setw\<close> pads on the left.\<close>

definition setw :: "nat \<Rightarrow> string \<Rightarrow> string" where
  "setw n s = replicate (n - length s) (CHR '' '') @ s"

definition rule_line :: string where
  "rule_line = replicate 67 (CHR ''-'') @ [newline]"

definition send_row :: "string \<times> u64 \<Rightarrow> string" where
  "send_row r = ''| '' @ setw 40 (fst r) @ '' | '' @ setw 20 (show_nat (unat (snd r))) @ '' |'' @ [newline]"

definition send_table :: "(string, u64) smap \<Rightarrow> string" where
  "send_table m =
     [newline] @ ''Good bye! We will now dump the send table for you:'' @ [newline, newline] @
     ''| '' @ setw 40 ''Address'' @ '' | '' @ setw 20 ''Value (in Satoshi)'' @ '' |'' @ [newline] @ rule_line @
     (if m = [] then ''| '' @ setw 63 ''The send table has no entries'' @ '' |'' @ [newline]
      else concat (map send_row m)) @ rule_line"

definition run_input :: "string_reader parser \<Rightarrow> string parser \<Rightarrow> (u8 list \<Rightarrow> u8 list) \<Rightarrow> (u8 list \<Rightarrow> u8 list) \<Rightarrow>
    (string \<Rightarrow> u8 list) \<Rightarrow> (vm \<Rightarrow> u32 \<times> u32) \<Rightarrow> nat \<Rightarrow> string list \<Rightarrow> settings \<Rightarrow> string \<Rightarrow> shell \<Rightarrow> process_end \<times> shell" where
  "run_input parse_line parse_file compress uncompress disk mem fuel ls s input sh =
     (if input = [] then handle_readline parse_line mem fuel ls (say (Out welcome_text) sh)
      else if only_compile s then
        (Exit 0, (if unsnappy s then compile_src_file_unsnappy parse_file input sh
                  else compile_src_file parse_file compress input sh))
      else
        (case handle_src_file parse_file uncompress disk mem (unsnappy s) fuel input [] sh of
           (Inl e, sh') \<Rightarrow> (Killed e, sh')
         | (Inr u, sh') \<Rightarrow> (Exit 0, sh')))"

definition main :: "string_reader parser \<Rightarrow> string parser \<Rightarrow> (u8 list \<Rightarrow> u8 list) \<Rightarrow> (u8 list \<Rightarrow> u8 list) \<Rightarrow>
    (string \<Rightarrow> u8 list) \<Rightarrow> (vm \<Rightarrow> u32 \<times> u32) \<Rightarrow> (net_type \<Rightarrow> string \<Rightarrow> bool) \<Rightarrow> (nat \<Rightarrow> u32) \<Rightarrow> nat \<Rightarrow>
    string \<Rightarrow> string list \<Rightarrow> string list \<Rightarrow> process_end \<times> event list" where
  "main parse_line parse_file compress uncompress disk mem check rands fuel argv0 args ls =
     (case pre_process_options args default_settings of
        Inl (Exit_Usage p) \<Rightarrow> (Exit 1, [Out (usage_text argv0 p)])
      | Inl Null_Argument \<Rightarrow> (Undefined, [])
      | Inr (skip, s) \<Rightarrow>
          (case start_interpreter parse_line s (initial_vm check rands (net s) (params s)) of
             (Inl e, vm) \<Rightarrow> (Killed e, [])
           | (Inr u, vm) \<Rightarrow>
               (case run_input parse_line parse_file compress uncompress disk mem fuel ls s (main_input args skip)
                       \<lparr>machine = vm, error_buffer = [], full_header = False, console = []\<rparr> of
                  (Exit n, sh) \<Rightarrow>
                    (Exit n, console sh @
                       (if only_compile s then [] else [Out (send_table (send_map (chain_state (machine sh))))]))
                | (end, sh) \<Rightarrow> (end, console sh))))"

section \<open>Options that are read back\<close>

text \<open>
  A command line of options, each with its value if it takes one.  The options of \<open>uncounted\<close>
  do not add their value to \<open>skip\<close>.
\<close>

definition counted :: "string list" where
  "counted = [''-b'', ''-B'', ''-t'', ''-T'', ''-H'', ''-a'', ''-v'', ''-V'', ''-m'']"

definition uncounted :: "string list" where
  "uncounted = [''-s'', ''-g'', ''-p'']"

type_synonym option_given = "string \<times> string option"

fun valid_option :: "option_given \<Rightarrow> bool" where
  "valid_option (f, None) = (f \<in> {''-x'', ''-S''})"
| "valid_option (f, Some v) = (f \<in> set (counted @ uncounted) \<and> take 1 v \<noteq> ''-'')"

fun render_option :: "option_given \<Rightarrow> string list" where
  "render_option (f, None) = [f]"
| "render_option (f, Some v) = [f, v]"

definition render_options :: "option_given list \<Rightarrow> string list" where
  "render_options ops = concat (map render_option ops)"

definition skip_of :: "option_given \<Rightarrow> nat" where
  "skip_of p = (if snd p = None \<or> fst p \<in> set uncounted then 1 else 2)"

definition take_option :: "option_given \<Rightarrow> settings \<Rightarrow> settings" where
  "take_option p s = (case apply_option (fst p) (snd p) s of Inr (n, s') \<Rightarrow> s' | Inl e \<Rightarrow> s)"

lemma apply_option_valid:
  "valid_option (f, Some v) \<Longrightarrow> apply_option f (Some v) s = Inr (skip_of (f, Some v), take_option (f, Some v) s)"
  "valid_option (f, None) \<Longrightarrow> apply_option f arg s = Inr (1, take_option (f, None) s)"
proof -
  show "apply_option f arg s = Inr (1, take_option (f, None) s)" if "valid_option (f, None)"
  proof -
    from that have "f = ''-x'' \<or> f = ''-S''" by simp
    then show ?thesis by (elim disjE) (simp_all add: apply_option_def take_option_def)
  qed
  have "f = ''-b'' \<or> f = ''-B'' \<or> f = ''-t'' \<or> f = ''-T'' \<or> f = ''-H'' \<or> f = ''-a'' \<or> f = ''-v'' \<or> f = ''-V'' \<or>
      f = ''-m'' \<or> f = ''-s'' \<or> f = ''-g'' \<or> f = ''-p''" if "valid_option (f, Some v)"
    using that by (simp add: counted_def uncounted_def)
  note cases = this
  show "apply_option f (Some v) s = Inr (skip_of (f, Some v), take_option (f, Some v) s)" if "valid_option (f, Some v)"
    using cases [OF that]
    by (elim disjE) (simp_all add: apply_option_def with_argument_def take_option_def skip_of_def uncounted_def)
qed

lemma valid_option_dash: "valid_option (f, v) \<Longrightarrow> take 1 f = ''-''"
  by (cases v) (auto simp: counted_def uncounted_def)

lemma pre_process_valid:
  assumes "\<forall>p \<in> set ops. valid_option p" and "\<forall>x \<in> set files. take 1 x \<noteq> ''-''"
  shows "pre_process_options (render_options ops @ files) s = Inr (sum_list (map skip_of ops), fold take_option ops s)"
  using assms(1)
proof (induction ops arbitrary: s)
  case Nil
  show ?case using assms(2) by (induction files) (simp_all add: render_options_def)
next
  case (Cons p ops)
  obtain f v where p: "p = (f, v)" by (cases p)
  have dash: "take 1 f = ''-''" using Cons.prems p valid_option_dash [of f v] by simp
  show ?case
  proof (cases v)
    case None
    then have "apply_option f arg s = Inr (1, take_option p s)" for arg
      using Cons.prems p apply_option_valid(2) by simp
    then show ?thesis
      using Cons.IH [of "take_option p s"] Cons.prems dash None p by (simp add: render_options_def skip_of_def)
  next
    case (Some x)
    then have "apply_option f (Some x) s = Inr (skip_of p, take_option p s)" "take 1 x \<noteq> ''-''"
      using Cons.prems p apply_option_valid(1) by auto
    then show ?thesis
      using Cons.IH [of "take_option p s"] Cons.prems dash Some p by (simp add: render_options_def)
  qed
qed

definition short :: "option_given \<Rightarrow> bool" where
  "short p \<longleftrightarrow> fst p \<in> set uncounted \<and> snd p \<noteq> None"

lemma skip_of_length: "skip_of p + (if short p then 1 else 0) = length (render_option p)"
  by (cases p; cases "snd p") (auto simp: skip_of_def short_def)

lemma skip_sum: "sum_list (map skip_of ops) + length (filter short ops) = length (render_options ops)"
proof (induction ops)
  case (Cons p ops)
  then show ?case using skip_of_length [of p] by (cases "short p") (simp_all add: render_options_def)
qed (simp add: render_options_def)

text \<open>Decimal numbers survive.\<close>

lemma digits_append: "\<forall>c \<in> set xs. digit_of c \<noteq> None \<Longrightarrow> digits acc (xs @ ys) = digits (digits acc xs) ys"
  by (induction xs arbitrary: acc) (auto split: option.splits)

lemma digit_char: "d < 10 \<Longrightarrow> digit_of (char_of (48 + d)) = Some d"
  by (simp add: digit_of_def)

lemma show_nat_digits: "digits 0 (show_nat n) = n \<and> (\<forall>c \<in> set (show_nat n). digit_of c \<noteq> None) \<and> show_nat n \<noteq> []"
proof (induction n rule: show_nat.induct)
  case (1 n)
  show ?case
  proof (cases "n < 10")
    case True
    then show ?thesis using digit_char [of n] by (simp add: show_nat.simps [of n])
  next
    case False
    then have "digits 0 (show_nat n) = n div 10 * 10 + n mod 10"
      using 1 digit_char [of "n mod 10"] by (simp add: show_nat.simps [of n] digits_append)
    then show ?thesis using 1 False digit_char [of "n mod 10"] by (auto simp: show_nat.simps [of n])
  qed
qed

lemma strtol_show_nat:
  assumes "n < 2 ^ 63"
  shows "strtol (show_nat n) = int n"
proof -
  obtain c cs where cs: "show_nat n = c # cs" using show_nat_digits [of n] by (cases "show_nat n") auto
  then have "digit_of c \<noteq> None" using show_nat_digits [of n] by auto
  then have "\<not> is_space c" "c \<noteq> CHR ''-''" "c \<noteq> CHR ''+''"
    by (auto simp: digit_of_def is_space_def Let_def split: if_splits)
  then show ?thesis
    using show_nat_digits [of n] assms unfolding cs by (simp add: strtol_def clamp64_def)
qed

section \<open>Properties\<close>



text \<open>
  C29: compiling and running later is running now.  If \<^verbatim>\<open>-x\<close> on a source file reports nothing and
  writes a bitstream, packed or plain, and that file is on the disk as it was written, then
  running it does what running the source does: the same machine, the same output, errors and
  limits, the same way to end; provided that unpacking undoes packing, that the source does not
  itself have the suffix of a bitstream, and that the parser found nothing to warn of.
\<close>

theorem compiled_file_runs_like_source:
  assumes "fst (parse src) = []" and "\<not> ends_with src ''.bitstream''" and "\<not> ends_with src ''.bitstream.unsnappy''"
    and "console (compile_src_file parse compress src sh0) = console sh0 @ [Wrote packed bs]"
    and "console (compile_src_file_unsnappy parse src sh0) = console sh0 @ [Wrote plain raw]"
    and "disk packed = bs" and "disk plain = raw" and "\<And>x. uncompress (compress x) = x"
  shows "handle_src_file parse uncompress disk mem False fuel packed data sh =
      handle_src_file parse uncompress disk mem False fuel src data sh \<and>
    handle_src_file parse uncompress disk mem u fuel plain data sh =
      handle_src_file parse uncompress disk mem False fuel src data sh"
proof -
  obtain doc where doc: "compile_file (snd \<circ> parse) src = Inr doc"
    using assms(4) by (cases "compile_file (snd \<circ> parse) src")
      (auto simp: compile_src_file_def compile_to_def report_errors_def say_def show_error_def Let_def)
  then have packed: "packed = src @ ''.bitstream''" "bs = compress (bytecode doc)"
    and plain: "plain = src @ ''.bitstream.unsnappy''" "raw = bytecode doc"
    using assms(4,5)
    by (auto simp: compile_src_file_def compile_src_file_unsnappy_def compile_to_def report_errors_def say_def Let_def)
  have "\<exists>b. doc = bitstream_of b"
    using doc by (auto simp: compile_file_def compile_parsed_def compile_def split: option.splits sum.splits prod.splits)
  then have again: "bitstream_of (bytecode doc) = doc" by (auto simp: bitstream_of_def)
  have suffix: "ends_with (f @ x) x" for f x by (simp add: ends_with_def)
  have "\<not> ends_with packed ''.bitstream.unsnappy''" unfolding packed by (auto simp: ends_with_def)
  then have "load_program parse uncompress disk False packed s = (Inr doc, s)" for s
    using suffix [of src "''.bitstream''"] assms(6,8) again by (simp add: load_program_def packed)
  moreover have "load_program parse uncompress disk u plain s = (Inr doc, s)" for s
    using suffix [of src "''.bitstream.unsnappy''"] assms(7) again by (simp add: load_program_def plain)
  moreover have "load_program parse uncompress disk False src s = (Inr doc, s)" for s
    using assms(1-3) doc by (simp add: load_program_def report_errors_def)
  ultimately show ?thesis unfolding handle_src_file_def by simp
qed

theorem compiled_file_runs_like_source_witness:
  "\<exists>parse disk. (\<forall>sh. handle_src_file parse (\<lambda>b. b) disk (\<lambda>_. (0, 3)) False 9 ''a.py.bitstream'' [] sh =
     handle_src_file parse (\<lambda>b. b) disk (\<lambda>_. (0, 3)) False 9 ''a.py'' [] sh) \<and>
     fst (parse ''a.py'') = [] \<and> snd (parse ''a.py'') = Some (Some AstPass)"
proof -
  let ?parse = "(\<lambda>f. ([], Some (Some AstPass))) :: string parser"
  have code: "compile_file (snd \<circ> ?parse) ''a.py'' = Inr (bitstream_of (be32 (node_code NT_Pass)))"
    by (simp add: compile_file_def compile_parsed_def compile_def safe_parse_next_def emit_node_def emit_u32_def
        modify_def put_u32_def pod_bytes32_be raw_write_def bitstream_of_def)
  let ?bs = "be32 (node_code NT_Pass)"
  have written: "console (compile_src_file ?parse (\<lambda>b. b) ''a.py'' sh) = console sh @ [Wrote ''a.py.bitstream'' ?bs]"
    "console (compile_src_file_unsnappy ?parse ''a.py'' sh) = console sh @ [Wrote ''a.py.bitstream.unsnappy'' ?bs]" for sh
    using code
    by (simp_all add: compile_src_file_def compile_src_file_unsnappy_def compile_to_def report_errors_def say_def Let_def
        bitstream_of_def)
  have "handle_src_file ?parse (\<lambda>b. b) (\<lambda>_. ?bs) (\<lambda>_. (0, 3)) False 9 ''a.py.bitstream'' [] sh =
      handle_src_file ?parse (\<lambda>b. b) (\<lambda>_. ?bs) (\<lambda>_. (0, 3)) False 9 ''a.py'' [] sh" for sh
    using compiled_file_runs_like_source [of ?parse "''a.py''" "\<lambda>b. b" sh, OF _ _ _ written, of "\<lambda>_. ?bs" "\<lambda>b. b"
        "\<lambda>_. (0, 3)" 9 "[]" sh]
    by (simp add: ends_with_def)
  then show ?thesis by (intro exI [of _ ?parse] exI [of _ "\<lambda>_. ?bs"] conjI allI) simp_all
qed

end
