(* ===== verification/Shell_Laws.thy ===== *)
theory Shell_Laws
  imports Shell Compiled_Contract
begin

text \<open>
  What the prompt does after an error: the interpreter keeps its read position, and the next
  statement is appended behind what the failed one left unread.
\<close>

declare node_code.simps [simp del]

section \<open>A node that must not stand at the top level\<close>

lemma exec_step_start:
  assumes "ahead (be32 w) (m_data (ip s))" and "room 1 (ip s)"
  shows "exec (Suc n) sc LS_None s =
    bnd (throw_if (get_depth (scopes s) sc = 0 \<and> \<not> top_level_ok w) (wrong_code w)) (\<lambda>_.
    bnd (exec_node n (exec n) (node_type_of w) sc LS_None) (\<lambda>r.
      if snd r \<noteq> LS_Normal \<and> snd r \<noteq> LS_None then bnd (on_ip (move_to (bs_pos (m_data (ip s))))) (\<lambda>_. ret r)
      else ret r)) (grown 4 1 [] s)"
proof -
  have c: "on_ip charge s = (Inr (), grown 0 (Suc 0) [] s)"
    using on_ip_eats [OF eats_charge] assms unfolding ahead_def by auto
  have r: "on_ip rd_u32 (grown 0 (Suc 0) [] s) = (Inr w, grown 4 (Suc 0) [] s)"
    using on_ip_eats [OF eats_u32, of w "grown 0 1 [] s"] assms(1) room_advance [of 1 0 "ip s" 0] assms(2)
    by simp
  show ?thesis
    by (simp add: exec_step_def bnd_Inr [where m = "on_ip charge", OF c] bnd_data_pos bnd_gets
        bnd_Inr [where m = "on_ip rd_u32", OF r] cong del: if_weak_cong)
qed

lemma exec_wrong_code:
  assumes "ahead (be32 w) (m_data (ip s))" and "room 1 (ip s)" and "get_depth (scopes s) sc = 0" and "\<not> top_level_ok w"
  shows "exec (Suc n) sc LS_None s = (Inl (wrong_code w), grown 4 1 [] s)"
  using exec_step_start [OF assms(1,2)] assms(3,4) by (simp add: bnd_def throw_def)

text \<open>A statement list that begins with such a node.\<close>

lemma exec_wrong_statement:
  assumes "ahead (be32 (node_code NT_StatementList) @ be32 k @ be32 w) (m_data (ip s))" and "room 3 (ip s)"
    and "get_depth (scopes s) sc = 0" and "\<not> is_terminated (scopes s) sc" and "\<not> top_level_ok w" and "0 < k"
  shows "exec (Suc (Suc n)) sc LS_None s = (Inl (wrong_code w), grown 12 3 [] s)"
proof -
  have ahead: "ahead (be32 (node_code NT_StatementList)) (m_data (ip s))" "ahead (be32 k) (m_data (ip (grown 4 1 [] s)))"
    "ahead (be32 w) (m_data (ip (grown 8 2 [] s)))"
    using assms(1) by (simp_all add: ahead_append)
  have r: "room 1 (ip s)" "room 0 (ip (grown 4 1 [] s))" "room 1 (ip (grown 8 1 [] s))" "room 1 (ip (grown 8 2 [] s))"
    using room_mono [OF assms(2)] room_advance [of 1 0 "ip s"] room_advance [of 1 1 "ip s" 8] room_advance [of 2 1 "ip s" 8] assms(2)
    by simp_all
  obtain j where j: "unat k = Suc j" using assms(6) by (metis gr0_implies_Suc unat_gt_0 word_gt_0)
  have size: "bnd (on_ip rd_u32) h (grown 4 1 [] s) = h k (grown 8 1 [] s)" for h
    using bnd_eats [OF eats_u32 ahead(2) r(2)] by simp
  have "exec (Suc n) sc LS_None (grown 8 2 [] s) = (Inl (wrong_code w), grown 12 3 [] s)"
    using exec_wrong_code [OF ahead(3) r(4), of sc n] assms(3,5) by simp
  then have "stmt_round (exec (Suc n)) sc (None, LS_None) (grown 8 1 [] s) = (Inl (wrong_code w), grown 12 3 [] s)"
    using stmt_round_run [OF r(3), of sc False] assms(4) by (simp add: bnd_Inl numeral_2_eq_2 del: exec.simps)
  then have list: "node_statement_list (exec (Suc n)) sc LS_None (grown 4 1 [] s) = (Inl (wrong_code w), grown 12 3 [] s)"
    unfolding node_statement_list_rounds size j by (simp add: bnd_Inl del: exec.simps)
  have "top_level_ok (node_code NT_StatementList)" by (simp add: top_level_ok_def)
  then show ?thesis
    using exec_step_start [OF ahead(1) r(1), of "Suc n" sc] list by (simp add: exec_node_def bnd_Inl del: exec.simps)
qed

section \<open>Leftover code\<close>

text \<open>
  The stream of an interpreter that has read all it was given: both positions are equal, and new
  code overwrites what may be behind them.
\<close>

definition in_sync :: "u8 list \<Rightarrow> bitstream \<Rightarrow> bool" where
  "in_sync code d \<longleftrightarrow> getp d = putp d \<and> putp d \<le> length (bytecode d) \<and> length (bytecode d) \<le> putp d + length code"

lemma assign_in_sync:
  "in_sync code d \<Longrightarrow> bs_assign code d =
     \<lparr>bytecode = take (putp d) (bytecode d) @ code, getp = putp d, putp = putp d + length code, failed = False\<rparr>"
  by (simp add: bs_assign_def raw_write_def in_sync_def)

lemma ahead_assign: "in_sync code d \<Longrightarrow> ahead code (bs_assign code d)"
  by (simp add: assign_in_sync ahead_def in_sync_def)

text \<open>Code assigned while some of the old code is unread comes behind it.\<close>

lemma assign_behind:
  assumes "in_sync (xs @ ys) d"
  shows "ahead (ys @ zs) (bs_assign zs (skip_bytes (length xs) (bs_assign (xs @ ys) d)))"
  using assms
  by (simp add: assign_in_sync) (simp add: bs_assign_def raw_write_def skip_bytes_def ahead_def in_sync_def)

lemma repl_run_fails:
  assumes "compile_string (snd \<circ> parse) line = Inr doc" and "fst (parse (string_reader_of line)) = []" and "error_buffer sh = []"
    and "repl_program fuel doc (machine sh) = (Inl (wrong_code w), s')"
  shows "repl_eval parse fuel line sh =
    (Inr (), sh\<lparr>machine := s', console := console sh @ [Err (''RuntimeError: '' @ what (wrong_code w) @ [newline])]\<rparr>)"
  using assms
  by (simp add: repl_eval_def report_errors_def on_machine_def crash_def wrong_code_def show_exception_def show_error_def
      say_def Let_def)

lemma repl_program_run:
  "repl_program n doc s =
     eval (exec n) (m_global_scope (ip s)) (s\<lparr>ip := (ip s)\<lparr>m_data := bs_assign (bytecode doc) (m_data (ip s))\<rparr>\<rparr>)"
  by (simp add: repl_program_def re_assign_bitstream_def on_ip_def on_part_def modify_def execute_def bnd_def gets_def)

lemma eval_Inl: "exec n sc LS_None s = (Inl e, s') \<Longrightarrow> eval (exec n) sc s = (Inl e, s')"
  by (simp add: eval_def bnd_def)

section \<open>Properties\<close>


text \<open>\<^verbatim>\<open>f()\<close>, and then \<^verbatim>\<open>def g(): pass\<close>, at the prompt of a fresh interpreter.\<close>

definition two_lines :: "string_reader parser" where
  "two_lines r = ([], Some (Some (AstSuite [Some
     (if m_code r = [''f()''] then AstExpressionStatement (Some (AstCall (Some (AstName ''f'')) []))
      else function_def ''g'' [] AstPass)])))"


end
