(* ===== verification/Library.thy ===== *)
theory Library
  imports Shell
begin

text \<open>
  The rest of the library's interface (\<^verbatim>\<open>src/shell/library.cpp\<close>): compiling a file for a caller,
  with its own copy of the error handler, and the buffers it hands out; and the address check of
  \<^verbatim>\<open>src/modules/blockchain_module.cpp\<close> over the decoders of the bitcoin library.
\<close>

section \<open>The buffers\<close>

text \<open>
  The library's globals.  What the program prints goes to \<open>stdout_buffer\<close> and what the parser and
  the contract report to \<open>error_buffer\<close>; taking a buffer empties it.
\<close>

record library =
  lib_error_buffer :: string
  lib_stdout_buffer :: string
  lib_devmode :: bool
  lib_contractmode :: bool

definition init_cryptopython :: "library \<Rightarrow> library" where
  "init_cryptopython l = l\<lparr>lib_devmode := False, lib_contractmode := False\<rparr>"

definition get_errorbuf :: "library \<Rightarrow> string \<times> library" where
  "get_errorbuf l = (lib_error_buffer l, l\<lparr>lib_error_buffer := []\<rparr>)"

definition get_outbuf :: "library \<Rightarrow> string \<times> library" where
  "get_outbuf l = (lib_stdout_buffer l, l\<lparr>lib_stdout_buffer := []\<rparr>)"

text \<open>What \<open>print\<close> calls; the machine's \<open>program_output\<close> is this buffer (theory \<open>Builtins\<close>).\<close>

definition lib_print_program_output :: "string \<Rightarrow> library \<Rightarrow> library" where
  "lib_print_program_output str l = l\<lparr>lib_stdout_buffer := lib_stdout_buffer l @ str\<rparr>"

definition handle_with_full_header :: bool where
  "handle_with_full_header = False"

definition lib_handle_error :: "parse_error \<Rightarrow> string \<Rightarrow> string" where
  "lib_handle_error e buffer =
     (if buffer \<noteq> [] then buffer
      else
        (if handle_with_full_header
         then ''File '' @ [double_quote] @ ''__stdin__'' @ [double_quote] @ '', line '' @ show_nat (cur_line e) @
              [newline] @ ''    '' @ c_str (source_line e) @ [newline] @ ''    ''
         else ''    '') @
        replicate ((if cur_column e = 0 then 1 else cur_column e) - 1) (CHR '' '') @ ''^'' @ [newline] @
        error_type_text (etype e) @ '': '' @ c_str (message e) @ [newline])"

text \<open>The library's copy of the handler is the shell's without the header.\<close>

lemma lib_handle_error_shell: "lib_handle_error = handle_error False"
  by (intro ext) (simp add: lib_handle_error_def handle_error_def handle_with_full_header_def)

text \<open>The caller sees everything printed since the last call, once, in order.\<close>

lemma outbuf_collects:
  "get_outbuf (fold lib_print_program_output strs l) =
     (lib_stdout_buffer l @ concat strs, l\<lparr>lib_stdout_buffer := []\<rparr>)"
  by (induction strs arbitrary: l) (simp_all add: get_outbuf_def lib_print_program_output_def)

lemma outbuf_empties:
  "get_outbuf (fold lib_print_program_output strs (snd (get_outbuf l))) =
     (concat strs, l\<lparr>lib_stdout_buffer := []\<rparr>)"
  by (simp add: outbuf_collects) (simp add: get_outbuf_def)

section \<open>Compiling for a caller\<close>

text \<open>
  The handler catches the exception by reference to
  \<open>std::exception\<close>; \<open>throw e\<close> throws a copy of that base class, whose text is not the original's.
  \<open>Inl\<close> is the text of the exception the caller gets; the second component is the error buffer.
\<close>

definition sliced_what :: string where
  "sliced_what = ''std::exception''"

definition lib_compile_src_file ::
    "string parser \<Rightarrow> (u8 list \<Rightarrow> u8 list) \<Rightarrow> string \<Rightarrow> string \<Rightarrow> (string + u8 list) \<times> string" where
  "lib_compile_src_file parse compress filename buffer =
     (let buffer' = fold lib_handle_error (fst (parse filename)) buffer
      in case compile_file (snd \<circ> parse) filename of
           Inr doc \<Rightarrow> (Inr (compress (bytecode doc)), buffer')
         | Inl e \<Rightarrow> (Inl (if buffer' \<noteq> [] then buffer' else sliced_what), []))"

lemma handle_error_once: "buffer \<noteq> [] \<Longrightarrow> fold (handle_error full) es buffer = buffer"
  by (induction es) (simp_all add: handle_error_def)

lemma handle_error_nonempty: "handle_error full e buffer \<noteq> []"
  by (simp add: handle_error_def)

text \<open>
  A caller sees the parser's first error, and of an error of the compiler itself (an operator it
  does not know, a bare \<open>return\<close>) only that there was one.
\<close>

theorem library_compile_errors:
  assumes "compile_file (snd \<circ> parse) f = Inl e"
  shows "lib_compile_src_file parse compress f [] =
    (Inl (case fst (parse f) of [] \<Rightarrow> ''std::exception'' | err # errs \<Rightarrow> handle_error False err []), [])"
  using assms
  by (cases "fst (parse f)")
    (simp_all add: lib_compile_src_file_def lib_handle_error_shell sliced_what_def handle_error_once handle_error_nonempty Let_def)

section \<open>Addresses\<close>

record chainparams =
  b58prefix_pubkey_address :: u8
  b58prefix_script_address :: u8
  bech32_hrp :: string

text \<open>
  \<open>base58 a n\<close> is the result of \<open>btc_base58_decode_check\<close> with a buffer of \<open>n\<close> bytes and what it
  left in the buffer; \<open>segwit hrp a\<close> is the result of \<open>segwit_addr_decode\<close> and the length of the
  witness program.
\<close>

definition chainparams_of :: "chainparams \<Rightarrow> chainparams \<Rightarrow> chainparams \<Rightarrow> net_type \<Rightarrow> chainparams" where
  "chainparams_of main_params test_params regtest_params n =
     (if n = TEST then test_params else if n = REGTEST then regtest_params else main_params)"

definition address_valid ::
    "(string \<Rightarrow> nat \<Rightarrow> int \<times> u8 list) \<Rightarrow> (string \<Rightarrow> string \<Rightarrow> int \<times> nat) \<Rightarrow> chainparams \<Rightarrow> string option \<Rightarrow> bool" where
  "address_valid base58 segwit cp address =
     (case address of
        None \<Rightarrow> False
      | Some a \<Rightarrow>
          (case base58 a (2 * length a) of (r, buf) \<Rightarrow>
             if 0 < r \<and> hd buf = b58prefix_pubkey_address cp then True
             else if 0 < r \<and> hd buf = b58prefix_script_address cp then True
             else (case segwit (bech32_hrp cp) a of (ok, programmlen) \<Rightarrow> ok = 1 \<and> programmlen = 20)))"

end
