(* ===== verification/Conformance.thy ===== *)
theory Conformance
  imports Builtins Container_Laws
begin

text \<open>
  The objects of the heap and the pointers between them (\<^verbatim>\<open>include/cowlang/Value.h\<close>,
  \<^verbatim>\<open>src/interpreter/List.cpp\<close>, \<^verbatim>\<open>src/interpreter/Dictionary.cpp\<close>).  The C++ code holds plain
  references and casts without checks: an iterator has a \<open>List&\<close> or a \<open>Dictionary&\<close> and a
  \<open>std::map\<close> iterator, \<open>list.append\<close> captures its list, a module function its module.  Here
  is what makes them safe: \<open>obj_ok\<close> says that every pointer an object holds leads to an object
  of the class it must have, \<open>evolves\<close> how an object may change while it lives, and the locale
  \<open>conformance\<close> is the logic in which every operation is shown to keep the one and to respect
  the other.
\<close>

section \<open>How objects change\<close>

fun evolves :: "obj \<Rightarrow> obj \<Rightarrow> bool" where
  "evolves (IntVal i) y = (case y of IntVal j \<Rightarrow> True | _ \<Rightarrow> False)"
| "evolves (ListVal xs) y = (case y of ListVal ys \<Rightarrow> length xs \<le> length ys | _ \<Rightarrow> False)"
| "evolves (TupleVal xs) y = (case y of TupleVal ys \<Rightarrow> length xs \<le> length ys | _ \<Rightarrow> False)"
| "evolves (DictVal m) y = (case y of DictVal m' \<Rightarrow> sm_keys m \<subseteq> sm_keys m' | _ \<Rightarrow> False)"
| "evolves (PersistVal p) y = (case y of PersistVal p' \<Rightarrow> True | _ \<Rightarrow> False)"
| "evolves (ModuleVal (BlockchainModule r fs)) y =
     (case y of ModuleVal (BlockchainModule r' fs') \<Rightarrow> sm_keys fs \<subseteq> sm_keys fs' | _ \<Rightarrow> False)"
| "evolves (ListIterator l p) y = (case y of ListIterator l' p' \<Rightarrow> l' = l | _ \<Rightarrow> False)"
| "evolves (RangeIterator p a e st) y =
     (case y of RangeIterator p' a' e' st' \<Rightarrow> a' = a \<and> e' = e \<and> st' = st | _ \<Rightarrow> False)"
| "evolves (DictItemIterator d k) y = (case y of DictItemIterator d' k' \<Rightarrow> d' = d | _ \<Rightarrow> False)"
| "evolves (DictKeyIterator d k) y = (case y of DictKeyIterator d' k' \<Rightarrow> d' = d | _ \<Rightarrow> False)"
| "evolves x y = (y = x)"

lemma evolves_refl [simp]: "evolves x x"
  by (cases "(x, x)" rule: evolves.cases) auto

lemma evolves_trans: "evolves x y \<Longrightarrow> evolves y z \<Longrightarrow> evolves x z"
  by (induction x y rule: evolves.induct) (auto split: obj.splits module_obj.splits)

lemma evolves_type: "evolves x y \<Longrightarrow> obj_type y = obj_type x \<and> (is_callable y \<longleftrightarrow> is_callable x)"
  by (induction x y rule: evolves.induct) (auto split: obj.splits module_obj.splits)

definition hext :: "heap \<Rightarrow> heap \<Rightarrow> bool" where
  "hext h h' \<longleftrightarrow> length h \<le> length h' \<and> (\<forall>a < length h. evolves (h ! a) (h' ! a))"

lemma hext_refl [simp]: "hext h h"
  by (simp add: hext_def)

lemma hext_trans: "hext h h' \<Longrightarrow> hext h' h'' \<Longrightarrow> hext h h''"
  unfolding hext_def by (meson evolves_trans less_le_trans order_trans)

lemma hext_new: "hext h (h @ [x])"
  by (simp add: hext_def)

lemma hext_set: "evolves (h ! a) y \<Longrightarrow> hext h (h[a := y])"
  unfolding hext_def by (metis evolves_refl length_list_update nth_list_update_eq nth_list_update_neq order_refl)

section \<open>Objects and heaps that conform\<close>

text \<open>The object at an address is of some class: a property of objects that no change takes away.\<close>

definition obj_is :: "(obj \<Rightarrow> bool) \<Rightarrow> heap \<Rightarrow> addr \<Rightarrow> bool" where
  "obj_is P h a \<longleftrightarrow> a < length h \<and> P (h ! a)"

definition lasting :: "(obj \<Rightarrow> bool) \<Rightarrow> bool" where
  "lasting P \<longleftrightarrow> (\<forall>x y. evolves x y \<longrightarrow> P x \<longrightarrow> P y)"

lemma obj_is_hext: "lasting P \<Longrightarrow> obj_is P h a \<Longrightarrow> hext h h' \<Longrightarrow> obj_is P h' a"
  by (auto simp: obj_is_def lasting_def hext_def)

definition any_obj :: "obj \<Rightarrow> bool" where
  "any_obj x = True"

fun is_list :: "obj \<Rightarrow> bool" where
  "is_list (ListVal xs) = True"
| "is_list _ = False"

fun is_tuple :: "obj \<Rightarrow> bool" where
  "is_tuple (TupleVal xs) = True"
| "is_tuple _ = False"

fun is_persist :: "obj \<Rightarrow> bool" where
  "is_persist (PersistVal p) = True"
| "is_persist _ = False"

fun is_int :: "obj \<Rightarrow> bool" where
  "is_int (IntVal i) = True"
| "is_int _ = False"

text \<open>A dictionary that has the key an iterator points to (if it is not at the end).\<close>

fun has_keys :: "string option \<Rightarrow> obj \<Rightarrow> bool" where
  "has_keys k (DictVal m) = (set_option k \<subseteq> sm_keys m)"
| "has_keys k _ = False"

fun is_module :: "obj \<Rightarrow> bool" where
  "is_module (ModuleVal m) = True"
| "is_module _ = False"

fun is_blockchain :: "obj \<Rightarrow> bool" where
  "is_blockchain (ModuleVal (BlockchainModule r fs)) = True"
| "is_blockchain _ = False"

fun is_c_function :: "obj \<Rightarrow> bool" where
  "is_c_function (CallableCFunction ps f t) = True"
| "is_c_function _ = False"

lemma lasting_classes [simp]:
  "lasting any_obj" "lasting is_list" "lasting is_tuple" "lasting is_persist" "lasting (has_keys k)"
  "lasting is_int" "lasting is_module" "lasting is_blockchain" "lasting is_c_function"
  "lasting is_generator" "lasting is_callable"
proof -
  show "lasting is_callable" "lasting is_generator"
    by (auto simp: lasting_def is_generator_def dest: evolves_type)
  show "lasting any_obj" by (simp add: lasting_def any_obj_def)
  show "lasting is_list" "lasting is_tuple" "lasting is_persist" "lasting (has_keys k)" "lasting is_int"
    "lasting is_module" "lasting is_blockchain" "lasting is_c_function"
    unfolding lasting_def
    by (intro allI impI; elim evolves.elims; auto split: obj.splits module_obj.splits)+
qed

definition ptr_ok :: "heap \<Rightarrow> valueptr \<Rightarrow> bool" where
  "ptr_ok h p \<longleftrightarrow> (case p of None \<Rightarrow> True | Some a \<Rightarrow> a < length h)"

lemma ptr_ok_simps [simp]: "ptr_ok h None" "ptr_ok h (Some a) \<longleftrightarrow> a < length h"
  by (simp_all add: ptr_ok_def)

lemma hext_length: "hext h h' \<Longrightarrow> a < length h \<Longrightarrow> a < length h'"
  by (simp add: hext_def)

lemma ptr_ok_hext: "ptr_ok h p \<Longrightarrow> hext h h' \<Longrightarrow> ptr_ok h' p"
  by (cases p) (auto simp: hext_def)

fun obj_ok :: "heap \<Rightarrow> obj \<Rightarrow> bool" where
  "obj_ok h (ListVal xs) = list_all (ptr_ok h) xs"
| "obj_ok h (TupleVal xs) = list_all (ptr_ok h) xs"
| "obj_ok h (DictVal m) = (sm_sound m \<and> list_all (\<lambda>e. ptr_ok h (snd e)) m)"
| "obj_ok h (PersistVal p) = ps_sound p"
| "obj_ok h (ModuleVal (BlockchainModule r fs)) =
     (rc4_ok r \<and> sm_sound fs \<and> list_all (\<lambda>e. obj_is is_c_function h (snd e)) fs)"
| "obj_ok h (Function (ListAppend a)) = obj_is is_list h a"
| "obj_ok h (CallableVMFunction code params defaults) = list_all (ptr_ok h) defaults"
| "obj_ok h (CallableCFunction params f this) = obj_is is_blockchain h this"
| "obj_ok h (ListIterator l p) = obj_is is_list h l"
| "obj_ok h (DictItems d) = obj_is (has_keys None) h d"
| "obj_ok h (DictItemIterator d k) = obj_is (has_keys k) h d"
| "obj_ok h (DictKeyIterator d k) = obj_is (has_keys k) h d"
| "obj_ok h _ = True"

lemma obj_ok_hext: "obj_ok h x \<Longrightarrow> hext h h' \<Longrightarrow> obj_ok h' x"
  by (induction h x rule: obj_ok.induct)
    (auto simp: list_all_iff intro: ptr_ok_hext obj_is_hext [rotated])

definition heap_ok :: "heap \<Rightarrow> bool" where
  "heap_ok h \<longleftrightarrow> list_all (obj_ok h) h"

lemma heap_ok_Nil [simp]: "heap_ok []"
  by (simp add: heap_ok_def)

lemma heap_ok_nth: "heap_ok h \<Longrightarrow> a < length h \<Longrightarrow> obj_ok h (h ! a)"
  by (simp add: heap_ok_def list_all_length)

lemma heap_ok_new: "heap_ok h \<Longrightarrow> obj_ok h x \<Longrightarrow> heap_ok (h @ [x])"
  unfolding heap_ok_def list_all_length
  by (auto simp: less_Suc_eq nth_append intro: obj_ok_hext [OF _ hext_new])

lemma heap_ok_set:
  "heap_ok h \<Longrightarrow> a < length h \<Longrightarrow> evolves (h ! a) y \<Longrightarrow> obj_ok h y \<Longrightarrow> heap_ok (h[a := y])"
  unfolding heap_ok_def list_all_length
  by (auto simp: nth_list_update intro: obj_ok_hext [OF _ hext_set])

section \<open>The logic\<close>

text \<open>
  \<open>safe s m Q\<close>: run from the state \<open>s\<close>, if that conforms, the program \<open>m\<close> leaves a state that
  conforms and extends \<open>s\<close>, however it ends, and when it returns then with a result that
  satisfies \<open>Q\<close> in that state.
\<close>

locale conformance =
  fixes ok :: "'s \<Rightarrow> bool"
    and ext :: "'s \<Rightarrow> 's \<Rightarrow> bool"
  assumes ext_refl: "ext s s"
    and ext_trans: "ext s s' \<Longrightarrow> ext s' s'' \<Longrightarrow> ext s s''"
begin

definition safe :: "'s \<Rightarrow> ('s, 'a) prog \<Rightarrow> ('s \<Rightarrow> 'a \<Rightarrow> bool) \<Rightarrow> bool" where
  "safe s m Q \<longleftrightarrow> (ok s \<longrightarrow>
     (case m s of (r, s') \<Rightarrow> ok s' \<and> ext s s' \<and> (case r of Inr x \<Rightarrow> Q s' x | Inl e \<Rightarrow> True)))"

lemma safeI:
  assumes "\<And>r s'. ok s \<Longrightarrow> m s = (r, s') \<Longrightarrow> ok s' \<and> ext s s' \<and> (\<forall>x. r = Inr x \<longrightarrow> Q s' x)"
  shows "safe s m Q"
  using assms by (fastforce simp: safe_def split: prod.split sum.split)

lemma safeD:
  "safe s m Q \<Longrightarrow> ok s \<Longrightarrow> m s = (r, s') \<Longrightarrow> ok s' \<and> ext s s' \<and> (\<forall>x. r = Inr x \<longrightarrow> Q s' x)"
  by (auto simp: safe_def split: sum.splits)

lemma safe_ok: "(ok s \<Longrightarrow> safe s m Q) \<Longrightarrow> safe s m Q"
  by (simp add: safe_def)

lemma safe_weaken: "safe s m Q \<Longrightarrow> (\<And>s' x. ok s' \<Longrightarrow> ext s s' \<Longrightarrow> Q s' x \<Longrightarrow> R s' x) \<Longrightarrow> safe s m R"
  by (auto simp: safe_def split: prod.splits sum.splits)

lemma safe_ret: "Q s x \<Longrightarrow> safe s (ret x) Q"
  by (simp add: safe_def ret_def ext_refl)

lemma safe_throw: "safe s (throw e) Q"
  by (simp add: safe_def throw_def ext_refl)

lemma safe_throw_if: "(\<not> b \<Longrightarrow> Q s ()) \<Longrightarrow> safe s (throw_if b e) Q"
  by (cases b) (simp_all add: safe_ret safe_throw)

lemma safe_gets: "Q s (f s) \<Longrightarrow> safe s (gets f) Q"
  by (simp add: safe_def gets_def ext_refl)

lemma safe_lift_sum: "(\<And>x. r = Inr x \<Longrightarrow> Q s x) \<Longrightarrow> safe s (lift_sum r) Q"
  by (auto simp: safe_def lift_sum_def ext_refl split: sum.split)

lemma safe_bnd:
  assumes "safe s m Q" and "\<And>s' x. ok s' \<Longrightarrow> ext s s' \<Longrightarrow> Q s' x \<Longrightarrow> safe s' (f x) R"
  shows "safe s (bnd m f) R"
proof (rule safeI)
  fix r t assume s: "ok s" and run: "bnd m f s = (r, t)"
  obtain r1 s1 where m: "m s = (r1, s1)" by fastforce
  note one = safeD [OF assms(1) s m]
  show "ok t \<and> ext s t \<and> (\<forall>x. r = Inr x \<longrightarrow> R t x)"
  proof (cases r1)
    case (Inr x)
    then have "f x s1 = (r, t)" using run m by (simp add: bnd_def)
    from safeD [OF assms(2) _ this] one Inr show ?thesis by (blast intro: ext_trans)
  qed (use one run m in \<open>auto simp: bnd_def\<close>)
qed

text \<open>The bind of something that only looks at the state.\<close>

lemma safe_gets_bnd: "safe s (f (g s)) R \<Longrightarrow> safe s (bnd (gets g) f) R"
  by (rule safe_bnd [where Q = "\<lambda>s' x. s' = s \<and> x = g s"]) (auto intro: safe_gets)

lemma safe_throw_if_bnd: "(\<not> b \<Longrightarrow> safe s (f ()) R) \<Longrightarrow> safe s (bnd (throw_if b e) f) R"
  by (cases b) (simp_all add: safe_throw)

lemma safe_lift_bnd: "(\<And>x. r = Inr x \<Longrightarrow> safe s (f x) R) \<Longrightarrow> safe s (bnd (lift_sum r) f) R"
  by (rule safe_bnd [where Q = "\<lambda>s' x. s' = s \<and> r = Inr x"]) (auto intro: safe_lift_sum)

lemma safe_times:
  assumes "\<And>s' a. ok s' \<Longrightarrow> ext s s' \<Longrightarrow> I s' a \<Longrightarrow> safe s' (f a) I" and "I s a"
  shows "safe s (times n f a) I"
  using assms
proof (induction n arbitrary: s a)
  case (Suc n)
  show ?case
  proof (simp, rule safe_bnd)
    show "safe s (f a) I"
      by (rule safe_ok) (use Suc.prems ext_refl in blast)
    show "safe s' (times n f b) I" if "ext s s'" "I s' b" for s' b
      using that Suc.prems(1) by (intro Suc.IH) (blast intro: ext_trans)+
  qed
qed (simp add: safe_ret)

lemma safe_for_each:
  assumes "\<And>s' x. x \<in> set xs \<Longrightarrow> ok s' \<Longrightarrow> ext s s' \<Longrightarrow> safe s' (f x) (\<lambda>_ _. True)"
  shows "safe s (for_each xs f) (\<lambda>_ _. True)"
  using assms
proof (induction xs arbitrary: s)
  case (Cons x xs)
  show ?case
  proof (simp, rule safe_bnd)
    show "safe s (f x) (\<lambda>_ _. True)"
      by (rule safe_ok) (use Cons.prems ext_refl in auto)
    show "safe s' (for_each xs f) (\<lambda>_ _. True)" if "ext s s'" for s'
      using that Cons.prems by (intro Cons.IH) (auto intro: ext_trans)
  qed
qed (simp add: safe_ret)

lemma safe_loop:
  assumes "\<And>s' a. ok s' \<Longrightarrow> ext s s' \<Longrightarrow> I s' a \<Longrightarrow>
      safe s' (f a) (\<lambda>s'' r. case r of Inl b \<Rightarrow> I s'' b | Inr y \<Rightarrow> Q s'' y)" and "I s a"
  shows "safe s (loop_fuel n f a) Q"
  using assms
proof (induction n arbitrary: s a)
  case (Suc n)
  show ?case
  proof (simp, rule safe_bnd)
    show "safe s (f a) (\<lambda>s'' r. case r of Inl b \<Rightarrow> I s'' b | Inr y \<Rightarrow> Q s'' y)"
      by (rule safe_ok) (use Suc.prems ext_refl in blast)
    fix s' r assume s': "ext s s'" "case r of Inl b \<Rightarrow> I s' b | Inr y \<Rightarrow> Q s' y"
    show "safe s' (case r of Inl a' \<Rightarrow> loop_fuel n f a' | Inr b \<Rightarrow> ret b) Q"
    proof (cases r)
      case (Inl b)
      then show ?thesis using s' Suc.prems(1) by (auto intro!: Suc.IH intro: ext_trans)
    next
      case (Inr y)
      then show ?thesis using s' by (simp add: safe_ret)
    qed
  qed
qed (simp add: safe_throw)

end

end
