(* ===== verification/Heap_Safety.thy ===== *)
theory Heap_Safety
  imports Conformance
begin

text \<open>
  Every operation on values keeps the heap conforming and only lets objects evolve: the
  factories, the containers, the iterators and the storage.  The rules are what the safety of
  the interpreter rests on (theory \<open>Safety\<close>).
\<close>

interpretation hp: conformance heap_ok hext
  by unfold_locales (auto intro: hext_trans)

named_theorems heap_intros

section \<open>Allocation and update\<close>

lemma safe_halloc: "obj_ok h x \<Longrightarrow> P x \<Longrightarrow> hp.safe h (halloc x) (obj_is P)"
  by (simp add: hp.safe_def halloc_def heap_ok_new hext_new obj_is_def)

lemma safe_hnew [heap_intros]: "obj_ok h x \<Longrightarrow> hp.safe h (hnew x) ptr_ok"
  by (simp add: hp.safe_def hnew_def halloc_def bnd_def ret_def heap_ok_new hext_new)

lemma safe_hset [heap_intros]:
  "a < length h \<Longrightarrow> evolves (h ! a) y \<Longrightarrow> obj_ok h y \<Longrightarrow> hp.safe h (hset a y) (\<lambda>_ _. True)"
  by (simp add: hp.safe_def hset_def modify_def heap_ok_set hext_set)

lemma safe_hget_bnd: "hp.safe h (f (h ! a)) Q \<Longrightarrow> hp.safe h (bnd (hget a) f) Q"
  unfolding hget_def by (rule hp.safe_gets_bnd)

text \<open>Knowing that the heap conforms, one may use what it says of the object looked at.\<close>

lemma safe_heap:
  "(heap_ok h \<Longrightarrow> (\<And>a. a < length h \<Longrightarrow> obj_ok h (h ! a)) \<Longrightarrow> hp.safe h m Q) \<Longrightarrow> hp.safe h m Q"
  by (rule hp.safe_ok) (simp add: heap_ok_nth)

lemma safe_create [heap_intros]:
  "hp.safe h (create_integer i) ptr_ok" "hp.safe h (create_boolean b) ptr_ok"
  "hp.safe h (create_string str) ptr_ok" "hp.safe h (create_float f) ptr_ok"
  unfolding create_integer_def create_boolean_def create_string_def create_float_def
  by (rule safe_hnew; simp)+

lemma safe_create_container [heap_intros]:
  "hp.safe h create_list (obj_is is_list)" "hp.safe h create_tuple (obj_is is_tuple)"
  "hp.safe h create_dictionary (obj_is (has_keys None))"
  unfolding create_list_def create_tuple_def create_dictionary_def
  by (rule safe_halloc; simp)+

section \<open>Lists and tuples\<close>

lemma list_size_le: "uint (list_size xs) \<le> int (length xs)"
proof -
  have "unat (list_size xs) = length xs mod 2 ^ 32"
    by (simp add: list_size_def unsigned_of_nat take_bit_eq_mod)
  then have "unat (list_size xs) \<le> length xs" by simp
  then show ?thesis by (simp only: uint_nat of_nat_le_iff)
qed

lemma sint_le_uint: "sint (w :: u32) \<le> uint w"
proof -
  have "take_bit 32 (uint w) = uint w" using take_bit_word_eq_self [of 32 w] by (simp add: unsigned_take_bit_eq [symmetric])
  then show ?thesis by (simp add: sint_uint signed_take_bit_eq_take_bit_minus)
qed

text \<open>
  Whatever the length, a position that passes the checks of \<open>get\<close> is inside the vector: also
  where the length does not fit 31 or 32 bits.
\<close>

lemma get_in_range_bound:
  assumes "get_in_range (list_size xs) i"
  shows "adjust_index (list_size xs) i < length xs"
proof (cases "sint i < 0")
  case True
  with assms have "- sint (list_size xs) < sint i" by (simp add: get_in_range_def)
  with True show ?thesis
    using list_size_le [of xs] sint_le_uint [of "list_size xs"] by (simp add: adjust_index_def nat_less_iff)
next
  case False
  with assms show ?thesis
    using list_size_le [of xs] by (simp add: adjust_index_def get_in_range_def nat_less_iff)
qed

lemma list_get_ok:
  assumes "list_all (ptr_ok h) xs" and "list_get xs i = Inr p"
  shows "ptr_ok h p"
  using assms get_in_range_bound [of xs i]
  by (auto simp: list_get_def list_all_length split: if_splits)

lemma list_set_ok:
  assumes "list_all (ptr_ok h) xs" and "list_set xs i v = Inr ys" and "ptr_ok h v"
  shows "list_all (ptr_ok h) ys" and "length ys = length xs"
  using assms by (auto simp: list_set_def list_all_length split: if_splits)
    (metis nth_list_update_eq nth_list_update_neq)

lemma tuple_get_ok: "list_all (ptr_ok h) xs \<Longrightarrow> tuple_get xs i = Inr p \<Longrightarrow> ptr_ok h p"
  by (auto simp: tuple_get_def list_all_length split: if_splits)

lemma safe_list_append [heap_intros]:
  assumes "a < length h" and "ptr_ok h v"
  shows "hp.safe h (list_append a v) (\<lambda>_ _. True)"
proof (rule safe_heap)
  assume ok: "\<And>a. a < length h \<Longrightarrow> obj_ok h (h ! a)"
  show ?thesis
    unfolding list_append_def
    by (rule safe_hget_bnd) (use ok [OF assms(1)] assms in
        \<open>auto intro!: safe_hset hp.safe_throw split: obj.split\<close>)
qed

lemma safe_tuple_append [heap_intros]:
  assumes "a < length h" and "ptr_ok h v"
  shows "hp.safe h (tuple_append a v) (\<lambda>_ _. True)"
proof (rule safe_heap)
  assume ok: "\<And>a. a < length h \<Longrightarrow> obj_ok h (h ! a)"
  show ?thesis
    unfolding tuple_append_def
    by (rule safe_hget_bnd) (use ok [OF assms(1)] assms in
        \<open>auto intro!: safe_hset hp.safe_throw split: obj.split\<close>)
qed

lemma int_at_Some: "int_at h p = Some (a, i) \<Longrightarrow> ptr_ok h p \<Longrightarrow> a < length h \<and> h ! a = IntVal i"
  by (auto simp: int_at_def split: option.splits)

lemma safe_apply_int [heap_intros]:
  "int_at h p = Some t \<Longrightarrow> ptr_ok h p \<Longrightarrow> hp.safe h (apply_int op t v) (\<lambda>_ _. True)"
  by (cases t) (auto simp: apply_int_def intro!: safe_hset hp.safe_throw dest!: int_at_Some
      split: option.split binary_op.split)

lemma safe_list_apply [heap_intros]:
  assumes "list_all (ptr_ok h) xs"
  shows "hp.safe h (list_apply xs i val op) (\<lambda>_ _. True)"
proof (cases "set_in_range (list_size xs) i")
  case True
  have "0 \<le> sint i" using True uint_ge_0 [of "- list_size xs"] unfolding set_in_range_def by linarith
  then have "adjust_index (list_size xs) i < length xs"
    using True list_size_le [of xs] by (simp add: set_in_range_def adjust_index_def nat_less_iff)
  then have "ptr_ok h (xs ! adjust_index (list_size xs) i)" using assms by (simp add: list_all_length)
  with True show ?thesis
    unfolding list_apply_def
    by (auto intro!: hp.safe_gets_bnd safe_apply_int hp.safe_throw split: option.split)
qed (simp add: list_apply_def hp.safe_throw)

section \<open>Dictionaries and the storage\<close>

lemma sm_find_all: "list_all (\<lambda>e. P (snd e)) m \<Longrightarrow> sm_find m k = Some v \<Longrightarrow> P v"
  by (induction m k rule: sm_find.induct) (auto split: if_splits)

lemma sm_put_all: "list_all (\<lambda>e. P (snd e)) m \<Longrightarrow> P v \<Longrightarrow> list_all (\<lambda>e. P (snd e)) (sm_put k v m)"
  by (induction k v m rule: sm_put.induct) auto

lemma dict_get_ok: "list_all (\<lambda>e. ptr_ok h (snd e)) m \<Longrightarrow> ptr_ok h (dict_get m k)"
  by (auto simp: dict_get_def split: option.split dest: sm_find_all)

lemma safe_dict_insert [heap_intros]:
  assumes "d < length h" and "ptr_ok h v"
  shows "hp.safe h (dict_insert d k v) (\<lambda>_ _. True)"
proof (rule safe_heap)
  assume ok: "\<And>a. a < length h \<Longrightarrow> obj_ok h (h ! a)"
  show ?thesis
    unfolding dict_insert_def
    by (rule safe_hget_bnd) (use ok [OF assms(1)] assms in
        \<open>auto intro!: safe_hset hp.safe_throw sm_put_all split: obj.split\<close>)
qed

lemma safe_ps_get [heap_intros]: "hp.safe h (ps_get p k) ptr_ok"
  by (auto simp: ps_get_def ps_find_def intro!: hp.safe_ret safe_hnew split: option.split)

lemma safe_dict_apply [heap_intros]:
  assumes "d < length h" and "ptr_ok h val"
  shows "hp.safe h (dict_apply d k val op) (\<lambda>_ _. True)"
proof (rule safe_heap)
  assume ok: "\<And>a. a < length h \<Longrightarrow> obj_ok h (h ! a)"
  have new: "hp.safe h (bnd (hnew (IntVal 0)) (\<lambda>zero. dict_insert d k zero)) (\<lambda>_ _. True)"
    by (rule hp.safe_bnd [OF safe_hnew]) (use assms in \<open>auto intro!: safe_dict_insert intro: hext_length\<close>)
  have neg: "hp.safe h (bnd (hset va (IntVal w)) (\<lambda>_. dict_insert d k val)) (\<lambda>_ _. True)"
    if "va < length h" "h ! va = IntVal v" for va v w
    by (rule hp.safe_bnd [OF safe_hset])
      (use assms that in \<open>auto intro!: safe_dict_insert intro: hext_length ptr_ok_hext\<close>)
  have target: "ta < length h" if "h ! d = DictVal m" "dict_get m k = Some ta" for m ta
    using ok [OF assms(1)] that dict_get_ok [of h m k] by simp
  show ?thesis
    unfolding dict_apply_def Let_def
    by (intro safe_hget_bnd hp.safe_gets_bnd)
      (use assms in \<open>auto intro!: new neg safe_dict_insert safe_hset hp.safe_throw dest!: int_at_Some
        intro: target split: option.splits binary_op.splits obj.splits\<close>)
qed

section \<open>Iterators\<close>

lemma has_first: "sm_sound m \<Longrightarrow> set_option (sm_first m) \<subseteq> sm_keys m"
  by (cases "sm_first m") (auto dest: sm_first_Some)

lemma has_next: "sm_sound m \<Longrightarrow> set_option (sm_next k m) \<subseteq> sm_keys m"
  by (cases "sm_next k m") (auto dest: sm_next_Some)

text \<open>A new iterator points to its container and, in a dictionary, to an entry of it.\<close>

lemma safe_iterator:
  "obj_ok h x \<Longrightarrow> is_generator x \<Longrightarrow> hp.safe h (halloc x) (obj_is is_generator)"
  by (rule safe_halloc)

lemma safe_iterate [heap_intros]:
  assumes "a < length h"
  shows "hp.safe h (iterate a) (obj_is is_generator)"
proof (rule safe_heap)
  assume ok: "\<And>a. a < length h \<Longrightarrow> obj_ok h (h ! a)"
  show ?thesis
    unfolding iterate_def
    by (rule safe_hget_bnd) (use ok [OF assms] assms in
        \<open>auto intro!: safe_iterator hp.safe_throw simp: obj_is_def is_generator_def has_first split: obj.split\<close>)
qed

lemma safe_items_iterate [heap_intros]:
  assumes "a < length h"
  shows "hp.safe h (items_iterate a) (obj_is is_generator)"
proof (rule safe_heap)
  assume ok: "\<And>a. a < length h \<Longrightarrow> obj_ok h (h ! a)"
  show ?thesis
    unfolding items_iterate_def
    by (rule safe_hget_bnd) (use ok [OF assms] assms in
        \<open>auto intro!: safe_iterator hp.safe_throw simp: obj_is_def is_generator_def has_first split: obj.split\<close>)
qed

text \<open>The step that ends every \<open>next\<close>: the iterator is moved and the element returned.\<close>

lemma safe_move_iterator:
  assumes "a < length h" and "evolves (h ! a) y" and "obj_ok h y" and "ptr_ok h p"
  shows "hp.safe h (bnd (hset a y) (\<lambda>_. ret p)) ptr_ok"
  by (rule hp.safe_bnd [OF safe_hset]) (use assms in \<open>auto intro!: hp.safe_ret intro: ptr_ok_hext\<close>)

lemma hext_nth: "hext h h' \<Longrightarrow> a < length h \<Longrightarrow> evolves (h ! a) (h' ! a)"
  by (simp add: hext_def)

lemma safe_range_next:
  assumes "a < length h" and "h ! a = RangeIterator p s e st"
  shows "hp.safe h (range_next a p s e st) ptr_ok"
proof -
  have "hp.safe h' (bnd (hset a (RangeIterator q s e st)) (\<lambda>_. ret r)) ptr_ok"
    if "hext h h'" "ptr_ok h' r" for h' q r
    using hext_nth [OF that(1) assms(1)] hext_length [OF that(1) assms(1)] that(2)
    by (intro safe_move_iterator) (auto simp: assms(2) split: obj.splits)
  then show ?thesis
    unfolding range_next_def by (auto intro!: hp.safe_throw hp.safe_bnd [OF safe_hnew])
qed

lemma safe_list_next:
  assumes a: "a < length h" "h ! a = ListIterator l p"
  shows "hp.safe h (list_next a l p) ptr_ok"
proof (rule safe_heap)
  assume ok: "\<And>a. a < length h \<Longrightarrow> obj_ok h (h ! a)"
  have l: "obj_is is_list h l" using ok [OF a(1)] a(2) by simp
  then have "list_all (ptr_ok h) xs" if "h ! l = ListVal xs" for xs
    using ok [of l] that by (simp add: obj_is_def)
  then show ?thesis
    unfolding list_next_def
    by (intro safe_hget_bnd)
      (auto intro!: hp.safe_throw hp.safe_lift_bnd safe_move_iterator a intro: list_get_ok l
        simp: a(2) l split: obj.split)
qed

lemma safe_dict_key_next:
  assumes a: "a < length h" "h ! a = DictKeyIterator d it"
  shows "hp.safe h (dict_key_next a d it) ptr_ok"
proof (rule safe_heap)
  assume ok: "\<And>a. a < length h \<Longrightarrow> obj_ok h (h ! a)"
  have d: "obj_is (has_keys it) h d" using ok [OF a(1)] a(2) by simp
  then have m: "sm_sound m \<and> list_all (\<lambda>e. ptr_ok h (snd e)) m" if "h ! d = DictVal m" for m
    using ok [of d] that by (simp add: obj_is_def)
  show ?thesis
    unfolding dict_key_next_def
    by (intro safe_hget_bnd)
      (use d m in \<open>auto intro!: hp.safe_throw safe_move_iterator a dict_get_ok
        simp: a(2) obj_is_def has_next split: obj.split option.split\<close>)
qed

text \<open>The pair a dictionary's iterator returns is a new tuple.\<close>

lemma safe_pair:
  assumes "ptr_ok h v"
  shows "hp.safe h (bnd (create_string k) (\<lambda>key. bnd create_tuple (\<lambda>t.
    bnd (tuple_append t key) (\<lambda>_. bnd (tuple_append t v) (\<lambda>_. ret t))))) (obj_is is_tuple)"
proof (rule hp.safe_bnd [OF safe_create(3)])
  fix h1 key assume 1: "hext h h1" "ptr_ok h1 key"
  show "hp.safe h1 (bnd create_tuple (\<lambda>t. bnd (tuple_append t key) (\<lambda>_. bnd (tuple_append t v) (\<lambda>_. ret t))))
      (obj_is is_tuple)"
  proof (rule hp.safe_bnd [OF safe_create_container(2)])
    fix h2 t assume 2: "hext h1 h2" "obj_is is_tuple h2 t"
    then have t: "t < length h2" by (simp add: obj_is_def)
    have v: "ptr_ok h2 v" "ptr_ok h2 key" using assms 1 2(1) by (blast intro: ptr_ok_hext)+
    have "hp.safe h3 (bnd (tuple_append t v) (\<lambda>_. ret t)) (obj_is is_tuple)" if 3: "hext h2 h3" for h3
      using ptr_ok_hext [OF v(1) 3] hext_length [OF 3 t] obj_is_hext [OF _ 2(2) 3]
      by (intro hp.safe_bnd [OF safe_tuple_append]) (auto intro!: hp.safe_ret intro: obj_is_hext)
    then show "hp.safe h2 (bnd (tuple_append t key) (\<lambda>_. bnd (tuple_append t v) (\<lambda>_. ret t))) (obj_is is_tuple)"
      by (intro hp.safe_bnd [OF safe_tuple_append [OF t v(2)]])
  qed
qed

lemma safe_dict_item_next:
  assumes a: "a < length h" "h ! a = DictItemIterator d it"
  shows "hp.safe h (dict_item_next a d it) ptr_ok"
proof (rule safe_heap)
  assume ok: "\<And>a. a < length h \<Longrightarrow> obj_ok h (h ! a)"
  have d: "obj_is (has_keys it) h d" using ok [OF a(1)] a(2) by simp
  then have m: "sm_sound m \<and> list_all (\<lambda>e. ptr_ok h (snd e)) m" if "h ! d = DictVal m" for m
    using ok [of d] that by (simp add: obj_is_def)
  have step: "hp.safe h (bnd (create_string k) (\<lambda>key. bnd create_tuple (\<lambda>t. bnd (tuple_append t key) (\<lambda>_.
      bnd (tuple_append t (dict_get m k)) (\<lambda>_. bnd (hset a (DictItemIterator d (sm_next k m))) (\<lambda>_.
      ret (Some t))))))) ptr_ok" if dm: "h ! d = DictVal m" for m k
  proof -
    have later: "obj_is (has_keys (sm_next k m)) h d" using d m [OF dm] dm by (auto simp: obj_is_def has_next)
    have "hp.safe h (bnd (bnd (create_string k) (\<lambda>key. bnd create_tuple (\<lambda>t.
        bnd (tuple_append t key) (\<lambda>_. bnd (tuple_append t (dict_get m k)) (\<lambda>_. ret t)))))
        (\<lambda>t. bnd (hset a (DictItemIterator d (sm_next k m))) (\<lambda>_. ret (Some t)))) ptr_ok"
    proof (rule hp.safe_bnd [OF safe_pair])
      show "ptr_ok h (dict_get m k)" using m [OF dm] by (simp add: dict_get_ok)
      fix h' t assume h': "hext h h'" and t: "obj_is is_tuple h' t"
      show "hp.safe h' (bnd (hset a (DictItemIterator d (sm_next k m))) (\<lambda>_. ret (Some t))) ptr_ok"
        using hext_nth [OF h' a(1)] hext_length [OF h' a(1)] t obj_is_hext [OF lasting_classes(5) later h']
        by (intro safe_move_iterator) (auto simp: a(2) obj_is_def split: obj.splits)
    qed
    then show ?thesis by simp
  qed
  show ?thesis
    unfolding dict_item_next_def
    by (intro safe_hget_bnd) (auto intro!: hp.safe_throw step split: obj.split option.split)
qed

lemma safe_iter_next [heap_intros]:
  "a < length h \<Longrightarrow> hp.safe h (iter_next a) ptr_ok"
  unfolding iter_next_def
  by (rule safe_hget_bnd)
    (auto intro!: hp.safe_throw safe_range_next safe_list_next safe_dict_item_next safe_dict_key_next
      split: obj.split)

section \<open>Copies\<close>

lemma safe_list_duplicate: "obj_ok h (ListVal xs) \<Longrightarrow> hp.safe h (list_duplicate xs) ptr_ok"
  using safe_hnew [of h "ListVal xs"] by (simp add: hp.safe_def list_duplicate_new)

lemma safe_dict_duplicate: "obj_ok h (DictVal m) \<Longrightarrow> hp.safe h (dict_duplicate m) ptr_ok"
  using safe_hnew [of h "DictVal m"] by (simp add: hp.safe_def dict_duplicate_new)

lemmas duplicate_defs =
  duplicate_def tuple_duplicate_def list_iterator_duplicate_def dict_item_iterator_duplicate_def
  dict_key_iterator_duplicate_def dict_items_duplicate_def vm_function_duplicate_def
  c_function_duplicate_def builtin_duplicate_def

lemma safe_duplicate:
  assumes "obj_ok h x"
  shows "hp.safe h (duplicate x) ptr_ok"
proof (rule safe_heap)
  assume ok: "\<And>a. a < length h \<Longrightarrow> obj_ok h (h ! a)"
  have "sm_sound m" if "obj_is P h d" "h ! d = DictVal m" for P d m
    using ok [of d] that by (simp add: obj_is_def)
  then show ?thesis
    unfolding duplicate_defs using assms
    by (auto intro!: hp.safe_throw hp.safe_ret safe_hnew safe_hget_bnd safe_list_duplicate
      safe_dict_duplicate simp: obj_is_def has_first split: obj.split)
qed

section \<open>Iterators never dangle\<close>

lemma get_in_range_next:
  assumes "length xs < 2 ^ 31" and "pos < list_size xs"
  shows "get_in_range (list_size xs) (ucast pos)"
proof -
  have "unat pos < length xs"
    using assms list_size_unat [of xs] by (simp add: word_less_nat_alt)
  moreover have "uint (list_size xs) = int (length xs)" "sint (list_size xs) = int (length xs)"
    using assms(1) list_size_nat [of xs] list_size_sint [of xs] by simp_all
  ultimately show ?thesis
    unfolding get_in_range_def using sint_widen [of pos] by linarith
qed

lemma append_new_tuple:
  "t < length h \<Longrightarrow> h ! t = TupleVal xs \<Longrightarrow> tuple_append t v h = (Inr (), h[t := TupleVal (xs @ [v])])"
  by (simp add: tuple_append_def hget_def gets_def bnd_def hset_def modify_def)

text \<open>What stops an iterator: its end, or a position that \<open>List::get\<close> does not accept.\<close>

lemma iter_next_throws:
  assumes ok: "heap_ok h" and a: "a < length h" "is_generator (h ! a)"
    and run: "iter_next a h = (Inl e, h')"
  shows "e = StopIteration \<or>
    (\<exists>l p xs. h ! a = ListIterator l p \<and> h ! l = ListVal xs \<and> 2 ^ 31 \<le> length xs \<and> e = index_error)"
proof (cases "h ! a")
  case (RangeIterator p s en st)
  then show ?thesis
    using run by (auto simp: iter_next_def hget_def gets_def bnd_def range_next_def throw_def hnew_def halloc_def
        ret_def hset_def modify_def split: if_splits)
next
  case (ListIterator l p)
  have "obj_is is_list h l" using heap_ok_nth [OF ok a(1)] ListIterator by simp
  then obtain xs where l: "h ! l = ListVal xs" by (cases "h ! l" rule: is_list.cases) (auto simp: obj_is_def)
  have unfold: "iter_next a h = list_next a l p h" using ListIterator by (simp add: iter_next_def hget_def gets_def bnd_def)
  show ?thesis
  proof (cases "list_size xs \<le> p")
    case True
    then have "e = StopIteration"
      using run l by (simp add: unfold list_next_def hget_def gets_def bnd_def throw_def)
    then show ?thesis ..
  next
    case False
    then have "e = index_error \<and> \<not> get_in_range (list_size xs) (ucast p)"
      using run l by (simp add: unfold list_next_def hget_def gets_def bnd_def list_get_def lift_sum_def
          ret_def hset_def modify_def split: if_splits)
    moreover from this False have "2 ^ 31 \<le> length xs" using get_in_range_next [of xs p] by (metis not_le)
    ultimately show ?thesis using ListIterator l by blast
  qed
next
  case (DictItemIterator d k)
  have "obj_is (has_keys k) h d" using heap_ok_nth [OF ok a(1)] DictItemIterator by simp
  then obtain m where d: "h ! d = DictVal m" by (cases "h ! d") (auto simp: obj_is_def)
  show ?thesis
    using run DictItemIterator d
    by (cases k) (auto simp: iter_next_def hget_def gets_def bnd_def dict_item_next_def throw_def
        create_string_def create_tuple_def append_new_tuple hnew_def halloc_def ret_def hset_def modify_def)
next
  case (DictKeyIterator d k)
  have "obj_is (has_keys k) h d" using heap_ok_nth [OF ok a(1)] DictKeyIterator by simp
  then obtain m where d: "h ! d = DictVal m" by (cases "h ! d") (auto simp: obj_is_def)
  show ?thesis
    using run DictKeyIterator d
    by (cases k) (auto simp: iter_next_def hget_def gets_def bnd_def dict_key_next_def throw_def
        ret_def hset_def modify_def)
qed (use a(2) in \<open>simp_all add: is_generator_def\<close>)



end
