(* ===== verification/Safety.thy ===== *)
theory Safety
  imports Heap_Safety Exec
begin

text \<open>
  Memory safety of the interpreter.  \<open>vm_ok\<close> is the invariant of a run: the heap conforms
  (theory \<open>Conformance\<close>), the scopes form a tree below its 128 levels and bind only valid
  pointers, the running interpreter has a storage, a global scope and modules that exist.
  Every case of \<open>execute_next\<close>, the calls and \<open>calldata\<close> keep it, on any bytecode, and return
  valid pointers only: the model never reads past its heap, and the C++ code's unchecked casts
  and references are never wrong.
\<close>

section \<open>The invariant\<close>

definition scopes_valid :: "heap \<Rightarrow> scopes \<Rightarrow> bool" where
  "scopes_valid h ss \<longleftrightarrow> scopes_ok ss \<and> (\<forall>sc \<in> set ss. \<forall>p \<in> ran (m_values sc). ptr_ok h p)"

definition interp_ok :: "heap \<Rightarrow> nat \<Rightarrow> interp \<Rightarrow> bool" where
  "interp_ok h n i \<longleftrightarrow> obj_is is_persist h (m_store i) \<and> m_global_scope i < n \<and>
     (\<forall>a \<in> ran (m_loaded_modules i). obj_is is_module h a)"

text \<open>Without an interpreter, as before the first one is constructed.\<close>

definition base_ok :: "vm \<Rightarrow> bool" where
  "base_ok s \<longleftrightarrow> heap_ok (heap s) \<and> scopes_valid (heap s) (scopes s) \<and> sm_sound (send_map (chain_state s))"

definition vm_ok :: "vm \<Rightarrow> bool" where
  "vm_ok s \<longleftrightarrow> base_ok s \<and> interp_ok (heap s) (length (scopes s)) (ip s)"

text \<open>What grows, and what the interpreter keeps while it runs.\<close>

definition vm_grow :: "vm \<Rightarrow> vm \<Rightarrow> bool" where
  "vm_grow s s' \<longleftrightarrow> hext (heap s) (heap s') \<and> length (scopes s) \<le> length (scopes s')"

definition vm_ext :: "vm \<Rightarrow> vm \<Rightarrow> bool" where
  "vm_ext s s' \<longleftrightarrow> vm_grow s s' \<and> m_store (ip s') = m_store (ip s) \<and>
     m_global_scope (ip s') = m_global_scope (ip s)"

lemma vm_grow_refl [simp]: "vm_grow s s"
  by (simp add: vm_grow_def)

lemma vm_grow_trans: "vm_grow s s' \<Longrightarrow> vm_grow s' s'' \<Longrightarrow> vm_grow s s''"
  by (auto simp: vm_grow_def intro: hext_trans)

interpretation entry: conformance base_ok vm_grow
  by unfold_locales (auto intro: vm_grow_trans)

interpretation safety: conformance vm_ok vm_ext
  by unfold_locales (auto simp: vm_ext_def intro: vm_grow_trans)

lemma vm_ext_grow: "vm_ext s s' \<Longrightarrow> vm_grow s s'"
  by (simp add: vm_ext_def)

lemma vm_ext_refl: "vm_ext s s"
  by (simp add: vm_ext_def)

named_theorems ext_intros

lemma ext_facts [ext_intros]:
  "vm_ext s s' \<Longrightarrow> hext (heap s) (heap s')"
  "vm_ext s s' \<Longrightarrow> ptr_ok (heap s) p \<Longrightarrow> ptr_ok (heap s') p"
  "vm_ext s s' \<Longrightarrow> a < length (heap s) \<Longrightarrow> a < length (heap s')"
  "vm_ext s s' \<Longrightarrow> sc < length (scopes s) \<Longrightarrow> sc < length (scopes s')"
  "vm_ext s s' \<Longrightarrow> obj_ok (heap s) x \<Longrightarrow> obj_ok (heap s') x"
  "vm_ext s s' \<Longrightarrow> list_all (ptr_ok (heap s)) ps \<Longrightarrow> list_all (ptr_ok (heap s')) ps"
  by (auto simp: vm_ext_def vm_grow_def list_all_iff intro: ptr_ok_hext hext_length obj_ok_hext)

lemma ext_obj_is [ext_intros]:
  "vm_ext s s' \<Longrightarrow> lasting P \<Longrightarrow> obj_is P (heap s) a \<Longrightarrow> obj_is P (heap s') a"
  by (auto simp: vm_ext_def vm_grow_def intro: obj_is_hext)

lemma scopes_valid_hext: "scopes_valid h ss \<Longrightarrow> hext h h' \<Longrightarrow> scopes_valid h' ss"
  by (auto simp: scopes_valid_def intro: ptr_ok_hext)

lemma interp_ok_mono: "interp_ok h n i \<Longrightarrow> hext h h' \<Longrightarrow> n \<le> n' \<Longrightarrow> interp_ok h' n' i"
  unfolding interp_ok_def by (meson lasting_classes obj_is_hext less_le_trans)

section \<open>Parts of the state\<close>

text \<open>
  \<open>safe_intros\<close> has the rule of every operation, \<open>bind_intros\<close> the same rules for an operation that
  something follows.
\<close>

named_theorems safe_intros and bind_intros

lemma safe_on_heap:
  assumes "hp.safe (heap s) m Q"
  shows "safety.safe s (on_heap m) (\<lambda>s' x. Q (heap s') x)"
proof (rule safety.safeI)
  fix r s' assume s: "vm_ok s" and "on_heap m s = (r, s')"
  then obtain h' where m: "m (heap s) = (r, h')" and s': "s' = s\<lparr>heap := h'\<rparr>"
    by (auto simp: on_heap_def on_part_def split: prod.splits)
  have "heap_ok h' \<and> hext (heap s) h' \<and> (\<forall>x. r = Inr x \<longrightarrow> Q h' x)"
    using hp.safeD [OF assms _ m] s by (simp add: vm_ok_def base_ok_def)
  then show "vm_ok s' \<and> vm_ext s s' \<and> (\<forall>x. r = Inr x \<longrightarrow> Q (heap s') x)"
    using s by (auto simp: s' vm_ok_def base_ok_def vm_ext_def vm_grow_def
        intro: scopes_valid_hext interp_ok_mono)
qed

text \<open>Programs on the interpreter that keep its storage, scope and modules.\<close>

definition same_links :: "interp \<Rightarrow> interp \<Rightarrow> bool" where
  "same_links i i' \<longleftrightarrow> m_store i' = m_store i \<and> m_global_scope i' = m_global_scope i \<and>
     m_loaded_modules i' = m_loaded_modules i"

interpretation links: conformance "\<lambda>_. True" same_links
  by unfold_locales (auto simp: same_links_def)

definition keeps_links :: "(interp, 'a) prog \<Rightarrow> bool" where
  "keeps_links m \<longleftrightarrow> (\<forall>i. links.safe i m (\<lambda>_ _. True))"

lemma safe_on_ip:
  assumes "keeps_links m"
  shows "safety.safe s (on_ip m) (\<lambda>_ _. True)"
proof (rule safety.safeI)
  fix r s' assume s: "vm_ok s" and "on_ip m s = (r, s')"
  then obtain i' where m: "m (ip s) = (r, i')" and s': "s' = s\<lparr>ip := i'\<rparr>"
    by (auto simp: on_ip_def on_part_def split: prod.splits)
  have "same_links (ip s) i'" using links.safeD [OF assms [unfolded keeps_links_def, rule_format] _ m] by simp
  then show "vm_ok s' \<and> vm_ext s s' \<and> (\<forall>x. r = Inr x \<longrightarrow> True)"
    using s by (auto simp: s' vm_ok_def base_ok_def vm_ext_def vm_grow_def same_links_def interp_ok_def)
qed

named_theorems links_intros

lemma links_bnd [links_intros]: "keeps_links m \<Longrightarrow> (\<And>x. keeps_links (f x)) \<Longrightarrow> keeps_links (bnd m f)"
  by (auto simp: keeps_links_def intro: links.safe_bnd)

lemma links_on_data [links_intros]: "keeps_links (on_data m)"
  by (auto simp: keeps_links_def links.safe_def on_data_def on_part_def same_links_def
      split: prod.split sum.split)

lemma links_modify: "(\<And>i. same_links i (f i)) \<Longrightarrow> keeps_links (modify f)"
  by (simp add: keeps_links_def links.safe_def modify_def)

lemma links_times [links_intros]: "(\<And>x. keeps_links (f x)) \<Longrightarrow> keeps_links (times n f a)"
  by (auto simp: keeps_links_def intro: links.safe_times)

lemma links_pure [links_intros]:
  "keeps_links (ret x)" "keeps_links (throw e)" "keeps_links (throw_if b e)" "keeps_links (gets f)"
  by (auto simp: keeps_links_def intro: links.safe_ret links.safe_throw links.safe_throw_if links.safe_gets)

lemma links_readers [links_intros]:
  "keeps_links rd_u32" "keeps_links rd_string" "keeps_links data_pos" "keeps_links (move_to p)"
  "keeps_links (set_num_execution_steps k)" "keeps_links (set_execution_step_limit l)"
  unfolding rd_u32_def rd_string_def data_pos_def move_to_def set_num_execution_steps_def
    set_execution_step_limit_def
  by (intro links_intros links_modify; simp add: same_links_def)+

lemma links_charge [links_intros]: "keeps_links charge"
  by (auto simp: keeps_links_def links.safe_def charge_def same_links_def Let_def)

lemma links_read_name [links_intros]: "keeps_links read_name" "keeps_links read_names"
proof -
  show name: "keeps_links read_name"
    unfolding read_name_def by (intro links_intros) (auto intro!: links_intros)
  show "keeps_links read_names"
    unfolding read_names_def by (intro links_intros) (auto intro!: links_intros name)
qed

lemma links_skip_step: "keeps_links rec \<Longrightarrow> keeps_links (skip_step rec)"
  unfolding skip_step_def charged_times_def
  by (intro links_intros) (auto intro!: links_intros split: option.split node_type.split)

lemma links_skip_next [links_intros]: "keeps_links skip_next"
proof -
  have "keeps_links (skip_fuel n)" for n
    by (induction n) (auto intro!: links_intros links_skip_step)
  then show ?thesis by (simp add: keeps_links_def links.safe_def skip_next_def del: skip_fuel.simps)
qed

lemmas safe_ip_intros [safe_intros] = links_intros [THEN safe_on_ip]

lemmas safe_heap_intros [safe_intros] = heap_intros [THEN safe_on_heap]

lemmas part_binds [bind_intros] = safe_intros [THEN safety.safe_bnd]

section \<open>Looking at the state\<close>

text \<open>What only looks at the state leaves the rest of the block in the same state.\<close>

lemma safe_vm_gets [bind_intros]: "safety.safe s (f (g s)) R \<Longrightarrow> safety.safe s (bnd (gets g) f) R"
  by (rule safety.safe_gets_bnd)

lemma safe_obj_at [bind_intros]:
  assumes "a < length (heap s)" and "obj_ok (heap s) (heap s ! a) \<Longrightarrow> safety.safe s (f (heap s ! a)) R"
  shows "safety.safe s (bnd (obj_at a) f) R"
  unfolding obj_at_def
  by (rule safety.safe_ok, rule safety.safe_gets_bnd, rule assms(2))
    (use assms(1) in \<open>simp add: vm_ok_def base_ok_def heap_ok_nth\<close>)

lemma safe_with_heap:
  assumes "\<And>x. f (heap s) = Inr x \<Longrightarrow> Q s x"
  shows "safety.safe s (with_heap f) Q"
  using assms by (auto simp: safety.safe_def with_heap_def vm_ext_refl split: sum.split)

lemma safe_with_heap_bind [bind_intros]:
  assumes "\<And>x. g (heap s) = Inr x \<Longrightarrow> safety.safe s (f x) R"
  shows "safety.safe s (bnd (with_heap g) f) R"
  by (rule safety.safe_bnd [OF safe_with_heap [where Q = "\<lambda>s' x. s' = s \<and> g (heap s) = Inr x"]])
    (use assms in auto)

lemma safe_assert_ptr [bind_intros]:
  "(\<And>a. p = Some a \<Longrightarrow> safety.safe s (f a) R) \<Longrightarrow> safety.safe s (bnd (assert_ptr p) f) R"
  unfolding assert_ptr_def by (cases p) (simp_all add: safety.safe_throw)

lemmas look_binds [bind_intros] = safety.safe_lift_bnd safety.safe_throw_if_bnd

lemma safe_catch:
  assumes "safety.safe s m Q"
  shows "safety.safe s (catch m) (\<lambda>s' r. case r of Inr x \<Rightarrow> Q s' x | Inl e \<Rightarrow> True)"
  using assms by (auto simp: safety.safe_def catch_def split: prod.splits sum.splits)

section \<open>Scopes\<close>

lemma scopes_valid_nth:
  "scopes_valid h ss \<Longrightarrow> i < length ss \<Longrightarrow> m_values (ss ! i) name = Some p \<Longrightarrow> ptr_ok h p"
  unfolding scopes_valid_def by (meson nth_mem ranI)

lemma scopes_valid_update:
  assumes "scopes_valid h ss" and "same_shape ss (ss[i := sc])" and "\<forall>p \<in> ran (m_values sc). ptr_ok h p"
  shows "scopes_valid h (ss[i := sc])"
  using assms scopes_ok_shape [OF assms(2)] set_update_subset_insert [of ss i sc]
  unfolding scopes_valid_def by blast

lemma safe_on_scopes:
  assumes "scopes_valid (heap s) (scopes s) \<Longrightarrow>
    scopes_valid (heap s) (f (scopes s)) \<and> length (f (scopes s)) = length (scopes s)"
  shows "safety.safe s (on_scopes f) (\<lambda>_ _. True)"
  using assms
  by (auto simp: safety.safe_def on_scopes_def modify_def vm_ok_def base_ok_def vm_ext_def vm_grow_def)

lemma scopes_valid_put:
  assumes "scopes_valid h ss" and "i < length ss" and "ptr_ok h v"
  shows "scopes_valid h (put_value ss i name v)"
  unfolding put_value_def
proof (rule scopes_valid_update [OF assms(1)])
  show "same_shape ss (ss[i := (ss ! i)\<lparr>m_values := (m_values (ss ! i))(name \<mapsto> v)\<rparr>])"
    by (simp add: same_shape_update)
  show "\<forall>p \<in> ran (m_values ((ss ! i)\<lparr>m_values := (m_values (ss ! i))(name \<mapsto> v)\<rparr>)). ptr_ok h p"
    using assms scopes_valid_nth [OF assms(1,2)] by (auto simp: ran_def)
qed

lemma safe_scope_set [safe_intros]:
  "i < length (scopes s) \<Longrightarrow> ptr_ok (heap s) v \<Longrightarrow> safety.safe s (scope_set i name v) (\<lambda>_ _. True)"
  unfolding scope_set_def
  by (rule safe_on_scopes) (simp add: set_value_chain scopes_valid_put chain_target_less)

lemma scopes_valid_flags:
  "scopes_valid h ss \<Longrightarrow> i < length ss \<Longrightarrow> scopes_valid h (set_global_tag ss i name)"
  "scopes_valid h ss \<Longrightarrow> i < length ss \<Longrightarrow> scopes_valid h (terminate ss i)"
  unfolding set_global_tag_def terminate_def
  by (rule scopes_valid_update; simp add: same_shape_update ran_def; metis scopes_valid_nth)+

lemma require_global_nth [simp]:
  "m_parent (require_global ss i ! j) = m_parent (ss ! j)"
  "depth (require_global ss i ! j) = depth (ss ! j)"
  "m_values (require_global ss i ! j) = m_values (ss ! j)"
  "length (require_global ss i) = length ss"
  unfolding require_global_def
  by (cases "i = j"; cases "i < length ss"; simp add: list_update_beyond)+

lemma scopes_valid_require:
  assumes "scopes_valid h ss"
  shows "scopes_valid h (require_global ss i)"
proof -
  have "scope_ok (require_global ss i) j = scope_ok ss j" for j
    by (cases "m_parent (ss ! j)") (simp_all add: scope_ok_def)
  then have "scopes_ok (require_global ss i)"
    using assms by (simp add: scopes_valid_def scopes_ok_def)
  moreover have "\<forall>p \<in> ran (m_values (require_global ss i ! j)). ptr_ok h p" if "j < length ss" for j
    using scopes_valid_nth [OF assms that] by (auto simp: ran_def)
  ultimately show ?thesis
    unfolding scopes_valid_def by (auto simp: in_set_conv_nth)
qed

lemma safe_scope_flags [safe_intros]:
  assumes "i < length (scopes s)"
  shows "safety.safe s (on_scopes (\<lambda>ss. set_global_tag ss i name)) (\<lambda>_ _. True)"
    "safety.safe s (do_terminate i) (\<lambda>_ _. True)"
    "safety.safe s (on_scopes (\<lambda>ss. require_global ss i)) (\<lambda>_ _. True)"
proof -
  show "safety.safe s (on_scopes (\<lambda>ss. set_global_tag ss i name)) (\<lambda>_ _. True)"
    using assms by (intro safe_on_scopes conjI scopes_valid_flags) (simp_all add: set_global_tag_def)
  show "safety.safe s (do_terminate i) (\<lambda>_ _. True)"
    unfolding do_terminate_def
    using assms by (intro safe_on_scopes conjI scopes_valid_flags) (simp_all add: terminate_def)
  show "safety.safe s (on_scopes (\<lambda>ss. require_global ss i)) (\<lambda>_ _. True)"
    by (intro safe_on_scopes conjI scopes_valid_require) simp_all
qed

lemma find_value_ok:
  "scopes_valid h ss \<Longrightarrow> i < length ss \<Longrightarrow> find_value ss i name = Inr p \<Longrightarrow> ptr_ok h p"
proof (induction ss i name rule: find_value.induct)
  case (1 ss i name)
  from 1(4) show ?case
    by (subst (asm) find_value.simps) (use 1 in \<open>auto split: option.splits if_splits dest: scopes_valid_nth\<close>)
qed

lemma safe_scope_get [safe_intros]:
  assumes "i < length (scopes s)"
  shows "safety.safe s (scope_get i name) (\<lambda>s'. ptr_ok (heap s'))"
proof (rule safety.safe_ok)
  assume s: "vm_ok s"
  have "hp.safe (heap s) (get_value (scopes s) i name) ptr_ok"
    using s assms by (auto simp: get_value_def vm_ok_def base_ok_def intro!: hp.safe_ret safe_hnew hp.safe_lift_sum
        intro: find_value_ok split: option.split)
  then show ?thesis
    unfolding scope_get_def by (intro safety.safe_gets_bnd safe_on_heap)
qed

lemmas scope_binds [bind_intros] =
  safe_scope_set [THEN safety.safe_bnd] safe_scope_flags [THEN safety.safe_bnd] safe_scope_get [THEN safety.safe_bnd]

section \<open>Blocks\<close>

lemma scopes_valid_snoc:
  "scopes_valid h ss \<Longrightarrow> scopes_ok (ss @ [sc]) \<Longrightarrow> m_values sc = Map.empty \<Longrightarrow> scopes_valid h (ss @ [sc])"
  by (auto simp: scopes_valid_def)

lemma safe_push_child:
  assumes "p < length (scopes s)"
  shows "safety.safe s (push_child p) (\<lambda>s' b. b < length (scopes s'))"
proof (rule safety.safeI)
  fix r s' assume s: "vm_ok s" and run: "push_child p s = (r, s')"
  have v: "scopes_valid (heap s) (scopes s)" using s by (simp add: vm_ok_def base_ok_def)
  show "vm_ok s' \<and> vm_ext s s' \<and> (\<forall>x. r = Inr x \<longrightarrow> x < length (scopes s'))"
  proof (cases "child_scope p (scopes s ! p)")
    case (Inr sc)
    have "scopes_ok (scopes s @ [sc])" using scopes_ok_child [OF _ assms Inr] v by (simp add: scopes_valid_def)
    moreover have "m_values sc = Map.empty"
      using Inr by (auto simp: child_scope_def root_scope_def Let_def split: if_splits)
    ultimately have "scopes_valid (heap s) (scopes s @ [sc])" using v by (rule scopes_valid_snoc [rotated])
    then show ?thesis
      using s run Inr by (auto simp: push_child_def bnd_def gets_def lift_sum_def push_scope_def vm_ok_def
          base_ok_def vm_ext_def vm_grow_def interp_ok_def)
  qed (use s run in \<open>auto simp: push_child_def bnd_def gets_def lift_sum_def vm_ext_refl\<close>)
qed

lemma scopes_valid_take: "scopes_valid h ss \<Longrightarrow> scopes_valid h (take n ss)"
  by (auto simp: scopes_valid_def scopes_ok_take dest: in_set_takeD)

text \<open>Leaving a block drops its scopes; what it returned about the heap stays true.\<close>

lemma safe_local_scope [safe_intros]:
  assumes "p < length (scopes s)"
    and "\<And>s' b. vm_ok s' \<Longrightarrow> vm_ext s s' \<Longrightarrow> b < length (scopes s') \<Longrightarrow>
      safety.safe s' (f b) (\<lambda>s'' x. Q (heap s'') x)"
  shows "safety.safe s (local_scope p f) (\<lambda>s' x. Q (heap s') x)"
proof (rule safety.safeI)
  fix r s' assume s: "vm_ok s" and run: "local_scope p f s = (r, s')"
  obtain r1 s1 where m: "bnd (push_child p) f s = (r1, s1)" by fastforce
  have "safety.safe s (bnd (push_child p) f) (\<lambda>s'' x. Q (heap s'') x)"
    using assms(2) by (intro safety.safe_bnd [OF safe_push_child [OF assms(1)]])
  note one = safety.safeD [OF this s m]
  have s': "r = r1" "s' = s1\<lparr>scopes := take (length (scopes s)) (scopes s1)\<rparr>"
    using run m by (simp_all add: local_scope_def)
  show "vm_ok s' \<and> vm_ext s s' \<and> (\<forall>x. r = Inr x \<longrightarrow> Q (heap s') x)"
    using one s by (auto simp: s' vm_ok_def base_ok_def vm_ext_def vm_grow_def interp_ok_def
        intro: scopes_valid_take)
qed

text \<open>A block with an interpreter of its own gives the caller its own one back.\<close>

lemma safe_own_interp:
  assumes "entry.safe s m (\<lambda>s' x. Q (heap s') x)"
  shows "safety.safe s (own_interp m) (\<lambda>s' r. case r of Inr x \<Rightarrow> Q (heap s') x | Inl e \<Rightarrow> True)"
proof (rule safety.safeI)
  fix r s' assume s: "vm_ok s" and run: "own_interp m s = (r, s')"
  obtain r1 s1 where m: "m s = (r1, s1)" by fastforce
  have one: "base_ok s1 \<and> vm_grow s s1 \<and> (\<forall>x. r1 = Inr x \<longrightarrow> Q (heap s1) x)"
    using entry.safeD [OF assms _ m] s by (simp add: vm_ok_def)
  have s': "r = Inr r1" "s' = s1\<lparr>scopes := take (length (scopes s)) (scopes s1), ip := ip s\<rparr>"
    using run m by (simp_all add: own_interp_def)
  show "vm_ok s' \<and> vm_ext s s' \<and> (\<forall>x. r = Inr x \<longrightarrow> (case x of Inr y \<Rightarrow> Q (heap s') y | Inl e \<Rightarrow> True))"
    using one s by (auto simp: s' vm_ok_def base_ok_def vm_ext_def vm_grow_def min_def
        intro: scopes_valid_take interp_ok_mono split: sum.split)
qed

text \<open>What runs with an interpreter also runs as a part of something that changes it.\<close>

lemma entry_safe: "vm_ok s \<Longrightarrow> safety.safe s m Q \<Longrightarrow> entry.safe s m Q"
  by (auto simp: safety.safe_def entry.safe_def vm_ok_def vm_ext_def split: prod.splits sum.splits)


end
