(* ===== verification/Safety_Builtins.thy ===== *)
theory Safety_Builtins
  imports Safety
begin

text \<open>
  Modules and members, the builtin functions and those of the blockchain module keep the
  invariant of theory \<open>Safety\<close>, and what they return is a valid pointer.
\<close>

lemmas vm_rules = safety.safe_ret safety.safe_throw

section \<open>Modules and members\<close>

lemma safe_set_module:
  "obj_is is_module (heap s) a \<Longrightarrow> safety.safe s (on_ip (set_module name a)) (\<lambda>_ _. True)"
  by (auto simp: safety.safe_def on_ip_def on_part_def set_module_def modify_def vm_ok_def base_ok_def
      interp_ok_def vm_ext_def vm_grow_def ran_def)

definition opt_module :: "vm \<Rightarrow> addr option \<Rightarrow> bool" where
  "opt_module s m \<longleftrightarrow> (case m of Some a \<Rightarrow> obj_is is_module (heap s) a | None \<Rightarrow> True)"

lemma safe_get_module [safe_intros]: "safety.safe s (get_module name) opt_module"
proof (rule safety.safe_ok)
  assume s: "vm_ok s"
  have "safety.safe s (bnd (on_heap (halloc (ModuleVal RandModule))) (\<lambda>a.
      bnd (on_ip (set_module name a)) (\<lambda>_. ret (Some a)))) opt_module"
    by (intro vm_rules safe_halloc [where P = is_module, THEN safe_on_heap, THEN safety.safe_bnd]
        safe_set_module [THEN safety.safe_bnd]) (auto simp: opt_module_def intro: ext_intros)
  moreover have "obj_is is_module (heap s) a" if "m_loaded_modules (ip s) name = Some a" for a
    using s that by (auto simp: vm_ok_def interp_ok_def ran_def)
  ultimately show ?thesis
    unfolding get_module_def
    by (intro safety.safe_gets_bnd) (auto simp: opt_module_def intro!: vm_rules split: option.split)
qed

lemma safe_get_member [safe_intros]:
  assumes "a < length (heap s)"
  shows "safety.safe s (get_member a name) (\<lambda>s'. ptr_ok (heap s'))"
  unfolding get_member_defs
proof (rule safe_obj_at [OF assms])
  let ?x = "heap s ! a"
  assume ok: "obj_ok (heap s) ?x"
  have at: "is_list ?x \<Longrightarrow> obj_is is_list (heap s) a" "has_keys None ?x \<Longrightarrow> obj_is (has_keys None) (heap s) a"
    using assms by (simp_all add: obj_is_def)
  have fs: "c < length (heap s)" if "?x = ModuleVal (BlockchainModule r fs)" "sm_find fs name = Some c" for r fs c
    using ok that sm_find_all [of "obj_is is_c_function (heap s)" fs name c] by (simp add: obj_is_def)
  show "safety.safe s (case ?x of
         ListVal xs \<Rightarrow>
           (if name = ''append'' then on_heap (hnew (Function (ListAppend a)))
            else throw (LanguageException (''No such member List::'' @ name)))
       | DictVal m \<Rightarrow>
           (if name = ''items'' then on_heap (hnew (DictItems a))
            else throw (RuntimeError (''Failed to get member Dictionary::'' @ name)))
       | ModuleVal RandModule \<Rightarrow>
           (if name = ''randint'' then on_heap (hnew (Function RandInt))
            else throw (RuntimeError (''No such member: '' @ name)))
       | ModuleVal (BlockchainModule r fs) \<Rightarrow>
           (case sm_find fs name of
              Some f \<Rightarrow> ret (Some f)
            | None \<Rightarrow> throw (RuntimeError (''no such function '' @ CHR 0x27 # name @ CHR 0x27 # '' in blockchain module'')))
       | _ \<Rightarrow> throw (LanguageException (''No such member: '' @ name))) (\<lambda>s'. ptr_ok (heap s'))"
    using at fs
    by (cases ?x) (auto intro!: vm_rules safe_intros split: module_obj.split option.split)
qed

declare safe_get_module [THEN safety.safe_bnd, bind_intros] safe_get_member [THEN safety.safe_bnd, bind_intros]

lemma safe_load_from_module [safe_intros]:
  "i < length (scopes s) \<Longrightarrow> safety.safe s (load_from_module i m name as_name) (\<lambda>_ _. True)"
  unfolding load_from_module_def
  by (intro bind_intros)
    (auto intro!: vm_rules safe_intros bind_intros simp: opt_module_def obj_is_def intro: ext_intros split: option.split)

lemma safe_load_module [safe_intros]:
  "i < length (scopes s) \<Longrightarrow> safety.safe s (load_module i m as_name) (\<lambda>_ _. True)"
  unfolding load_module_def
  by (intro bind_intros)
    (auto intro!: vm_rules safe_intros bind_intros simp: opt_module_def obj_is_def intro: ext_intros split: option.split)

section \<open>Builtin functions\<close>

abbreviation yields_ptr :: "vm \<Rightarrow> valueptr exec \<Rightarrow> bool" where
  "yields_ptr s m \<equiv> safety.safe s m (\<lambda>s'. ptr_ok (heap s'))"

abbreviation is_safe :: "vm \<Rightarrow> 'a exec \<Rightarrow> bool" where
  "is_safe s m \<equiv> safety.safe s m (\<lambda>_ _. True)"

lemma safe_with_int: "(\<And>i. safety.safe s (f i) Q) \<Longrightarrow> safety.safe s (with_int p f) Q"
  unfolding with_int_def by (intro bind_intros) simp

lemma safe_output [safe_intros]: "is_safe s (print_program_output str)"
  by (simp add: safety.safe_def print_program_output_def modify_def vm_ok_def base_ok_def vm_ext_def
      vm_grow_def)

declare safe_output [THEN safety.safe_bnd, bind_intros]

lemma safe_checks [bind_intros]:
  "(length args = n \<Longrightarrow> safety.safe s (f ()) Q) \<Longrightarrow> safety.safe s (bnd (check_num_args args n) f) Q"
  "(n \<le> length args \<Longrightarrow> safety.safe s (f ()) Q) \<Longrightarrow> safety.safe s (bnd (check_num_minargs args n) f) Q"
  unfolding check_num_args_def check_num_minargs_def by (rule safety.safe_throw_if_bnd; simp)+

lemma safe_print_args [safe_intros]: "is_safe s (print_args prefix args)"
proof (induction args arbitrary: prefix s)
  case (Cons p ps)
  have "is_safe t (print_arg prefix p)" for t
    unfolding print_arg_def
    by (intro bind_intros) (auto intro!: bind_intros safe_intros split: option.split obj.split)
  then show ?case unfolding print_args.simps by (intro safety.safe_bnd [where Q = "\<lambda>_ _. True"] Cons.IH)
qed (simp add: safe_output)

declare safe_print_args [THEN safety.safe_bnd, bind_intros]

lemma safe_builtin_call [safe_intros]:
  assumes "list_all (ptr_ok (heap s)) args"
  shows "yields_ptr s (builtin_call b args)"
proof -
  have range: "yields_ptr s (builtin_range args)"
    unfolding builtin_range_def
    by (auto intro!: safe_with_int safe_intros vm_rules split: list.split)
  have str: "yields_ptr s (builtin_str args)"
    unfolding builtin_str_def
    by (intro bind_intros) (auto intro!: safe_intros bind_intros split: option.split)
  have minmax: "yields_ptr s (builtin_minmax m args)" for m
    unfolding builtin_minmax_def Let_def by (intro bind_intros) (auto intro!: safe_intros)
  have int: "yields_ptr s (builtin_int args)"
    unfolding builtin_int_def
    using assms by (intro bind_intros) (auto intro!: safe_intros vm_rules simp: length_Suc_conv list_all_iff
        split: option.split obj.split)
  have len: "yields_ptr s (builtin_len args)"
    unfolding builtin_len_def by (intro bind_intros) (auto intro!: safe_intros)
  have print: "yields_ptr s (builtin_print args)"
    unfolding builtin_print_def by (intro bind_intros vm_rules) simp
  show ?thesis
    unfolding builtin_call_def
    by (rule safety.safe_throw_if_bnd)
      (auto intro!: range str minmax int len print split: builtin_type.split)
qed

section \<open>Closures and module functions\<close>

lemma safe_next_rand [bind_intros]: "(\<And>s' r. vm_ext s s' \<Longrightarrow> safety.safe s' (f r) Q) \<Longrightarrow> safety.safe s (bnd next_rand f) Q"
  by (rule safety.safe_bnd [where Q = "\<lambda>_ _. True"])
    (simp_all add: safety.safe_def next_rand_def vm_ok_def base_ok_def vm_ext_def vm_grow_def)

lemma safe_function_call [safe_intros]:
  assumes "list_all (ptr_ok (heap s)) args" and "obj_ok (heap s) (Function f)"
  shows "yields_ptr s (function_call f args)"
proof -
  have rand: "yields_ptr s (randint args)"
    unfolding randint_def cast_int_def by (intro bind_intros) (auto intro!: safe_intros)
  have app: "yields_ptr s (bnd (throw_if (length args \<noteq> 1) e) (\<lambda>_. bnd (on_heap (list_append a (hd args))) (\<lambda>_. ret None)))"
    if "f = ListAppend a" for a e
    using assms that
    by (intro safety.safe_throw_if_bnd bind_intros vm_rules)
      (auto simp: obj_is_def length_Suc_conv list_all_iff)
  show ?thesis unfolding function_call_def by (auto intro: rand app [unfolded One_nat_def] split: closure.split)
qed

text \<open>The chain's map of receivers stays sorted.\<close>

lemma safe_on_chain:
  assumes "\<And>c. sm_sound (send_map c) \<Longrightarrow> sm_sound (send_map (snd (m c)))"
  shows "is_safe s (on_chain m)"
  using assms by (auto simp: safety.safe_def on_chain_def on_part_def vm_ok_def base_ok_def vm_ext_def
      vm_grow_def split: prod.splits sum.split) (metis snd_conv)+

lemma safe_transfers [safe_intros]: "is_safe s (on_chain (send_value a v))" "is_safe s (on_chain (suicide_to a))"
proof -
  have credit: "sm_sound (send_map c) \<Longrightarrow> sm_sound (send_map (snd (credit msg a v c)))" for c msg v
    by (auto simp: credit_def split: option.split)
  show "is_safe s (on_chain (send_value a v))"
  proof (rule safe_on_chain)
    fix c :: chain_env assume "sm_sound (send_map c)"
    then show "sm_sound (send_map (snd (send_value a v c)))"
      using credit [of c receiver_overflow v]
      by (auto simp: send_value_def bnd_def gets_def throw_if_def throw_def ret_def debit_def
          split: prod.split sum.split)
  qed
  show "is_safe s (on_chain (suicide_to a))"
  proof (rule safe_on_chain)
    fix c :: chain_env assume "sm_sound (send_map c)"
    then show "sm_sound (send_map (snd (suicide_to a c)))"
      using credit [of c suicide_overflow "contract_balance c"]
      by (auto simp: suicide_to_def bnd_def gets_def modify_def throw_def split: prod.split sum.split)
  qed
qed

declare safe_transfers [THEN safety.safe_bnd, bind_intros]

lemma safe_address_arg [bind_intros]:
  assumes "sc < length (scopes s)" and "\<And>s' a. vm_ext s s' \<Longrightarrow> safety.safe s' (f a) Q"
  shows "safety.safe s (bnd (address_arg sc) f) Q"
proof (rule safety.safe_bnd [where Q = "\<lambda>_ _. True"])
  show "safety.safe s (address_arg sc) (\<lambda>_ _. True)"
    unfolding address_arg_def
    by (intro bind_intros) (use assms(1) in \<open>auto intro!: vm_rules safe_with_heap
        split: option.split\<close>)
qed (use assms(2) in blast)

lemma safe_check_address [bind_intros]:
  assumes "\<And>s'. vm_ext s s' \<Longrightarrow> safety.safe s' (f ()) Q"
  shows "safety.safe s (bnd (check_address a) f) Q"
proof (rule safety.safe_bnd [where Q = "\<lambda>_ _. True"])
  show "safety.safe s (check_address a) (\<lambda>_ _. True)"
    unfolding check_address_def by (intro bind_intros safety.safe_throw_if) simp
qed (use assms in simp)

lemma safe_on_module:
  assumes mem: "this < length (heap s)" and "keeps_rc4 m"
  shows "is_safe s (on_module this m)"
proof -
  have "is_safe s (bnd (on_heap (hset this (ModuleVal (BlockchainModule (snd (m r)) fs)))) (\<lambda>_. lift_sum (fst (m r))))"
    if "heap s ! this = ModuleVal (BlockchainModule r fs)" "obj_ok (heap s) (heap s ! this)" for r fs
    using that assms
    by (intro safe_hset [THEN safe_on_heap, THEN safety.safe_bnd] safety.safe_lift_sum)
      (auto simp: keeps_rc4_def)
  then show ?thesis
    unfolding on_module_def
    by (intro bind_intros) (use mem in \<open>auto intro!: vm_rules simp: case_prod_beta split: obj.split module_obj.split\<close>)
qed

lemma safe_bc_call [safe_intros]:
  assumes "obj_is is_blockchain (heap s) this" and "sc < length (scopes s)"
  shows "yields_ptr s (bc_call f this sc)"
proof -
  have mem: "this < length (heap s)" using assms(1) by (simp add: obj_is_def)
  have "yields_ptr s (bc_random this)"
    unfolding bc_random_def
    by (intro safe_vm_gets safety.safe_bnd [OF safe_on_module] keeps_rc4_draw
        safe_intros) (use mem in auto)
  moreover have "yields_ptr s (bc_assert_address sc)"
    unfolding bc_assert_address_def using assms(2) by (intro bind_intros safe_intros) simp_all
  moreover have "yields_ptr s (bc_send sc)"
    unfolding bc_send_def using assms(2)
    by (intro bind_intros safe_intros safe_with_int) (auto intro: ext_intros)
  moreover have "yields_ptr s (bc_suicide sc)"
    unfolding bc_suicide_def using assms(2) by (intro bind_intros vm_rules) simp_all
  moreover have "yields_ptr s (bc_string g)" "yields_ptr s (bc_int k)" for g k
    unfolding bc_string_def bc_int_def by (intro bind_intros safe_intros; simp)+
  ultimately show ?thesis
    unfolding bc_call_def by (auto intro: vm_rules split: bc_function.split)
qed

end
