(* ===== verification/Safety_Nodes.thy ===== *)
theory Safety_Nodes
  imports Safety_Builtins
begin

text \<open>
  Every case of \<open>execute_next\<close> keeps the invariant of theory \<open>Safety\<close>, given that the recursive
  calls do, and so do calls and \<open>calldata\<close>; by induction on the fuel, so does \<open>exec\<close>.
\<close>

definition rec_safe :: "recursion \<Rightarrow> bool" where
  "rec_safe rec \<longleftrightarrow> (\<forall>s sc ls. sc < length (scopes s) \<longrightarrow>
     safety.safe s (rec sc ls) (\<lambda>s' r. ptr_ok (heap s') (fst r)))"

lemma rec_safeD:
  "rec_safe rec \<Longrightarrow> sc < length (scopes s) \<Longrightarrow> safety.safe s (rec sc ls) (\<lambda>s' r. ptr_ok (heap s') (fst r))"
  by (simp add: rec_safe_def)

lemma safe_eval [safe_intros]:
  assumes "rec_safe rec" and "sc < length (scopes s)"
  shows "yields_ptr s (eval rec sc)" "safety.safe s (eval_ptr rec sc) (\<lambda>s' a. a < length (heap s'))"
proof -
  show e: "yields_ptr s (eval rec sc)"
    unfolding eval_def by (rule safety.safe_bnd [OF rec_safeD [OF assms]]) (simp add: safety.safe_ret)
  show "safety.safe s (eval_ptr rec sc) (\<lambda>s' a. a < length (heap s'))"
    unfolding eval_ptr_def
    by (rule safety.safe_bnd [OF e]) (auto simp: assert_ptr_def intro: safety.safe_ret safety.safe_throw split: option.split)
qed

lemmas eval_binds [bind_intros] = safe_eval [THEN safety.safe_bnd]

lemmas rec_bind = rec_safeD [THEN safety.safe_bnd]

text \<open>A loop that carries nothing, one that carries a pointer, one that carries a list of them.\<close>

lemma safe_exec_times:
  assumes "\<And>s' a. vm_ok s' \<Longrightarrow> vm_ext s s' \<Longrightarrow> I s' a \<Longrightarrow> safety.safe s' (f a) I" and "I s a"
    and "\<And>s' s'' a. vm_ext s' s'' \<Longrightarrow> I s' a \<Longrightarrow> I s'' a"
  shows "safety.safe s (exec_times n f a) I"
  unfolding exec_times_def
proof (rule safety.safe_times)
  fix s' b assume s': "vm_ok s'" "vm_ext s s'" "I s' b"
  show "safety.safe s' (bnd (on_ip charge) (\<lambda>_. f b)) I"
    by (intro bind_intros assms(1)) (use s' assms(3) safety.ext_trans in blast)+
qed (rule assms(2))

lemma safe_exec_unit [safe_intros]:
  assumes "\<And>s'. vm_ext s s' \<Longrightarrow> is_safe s' (f ())"
  shows "is_safe s (exec_times n f ())"
  by (rule safe_exec_times) (use assms in auto)

lemmas exec_unit_bind [bind_intros] = safe_exec_unit [THEN safety.safe_bnd]

section \<open>Imports, atoms and containers\<close>

lemma safe_load_alias [safe_intros]:
  "sc < length (scopes s) \<Longrightarrow> is_safe s (load_alias sc m p)"
  unfolding load_alias_def
  by (intro bind_intros) (auto intro!: safe_intros vm_rules split: option.split obj.split)

lemma safe_imports [safe_intros]:
  assumes "rec_safe rec" and "sc < length (scopes s)"
  shows "yields_ptr s (node_import_from rec sc)" "yields_ptr s (node_import rec sc)" "yields_ptr s node_alias"
proof -
  have aliases: "is_safe t (for_each xs (load_alias sc m))" if "sc < length (scopes t)" for t xs m
    using that by (intro safety.safe_for_each;
      auto intro!: safe_intros; blast intro: ext_intros)
  have each: "is_safe t (case x of TupleVal xs \<Rightarrow> for_each xs (load_alias sc m) | _ \<Rightarrow> load_alias sc m p)"
    if "sc < length (scopes t)" for t x m p
    using that by (auto intro!: safe_intros aliases split: obj.split)
  show "yields_ptr s (node_import_from rec sc)"
    unfolding node_import_from_def
    using assms by (intro bind_intros rec_bind [OF assms(1)] safety.safe_bnd [OF each] vm_rules;
      auto; blast intro: ext_intros)
  have one: "is_safe t (case x of AliasVal name as_name \<Rightarrow> load_module sc name as_name | _ \<Rightarrow> throw bad_cast)"
    if "sc < length (scopes t)" for t x
    using that by (auto intro!: safe_intros vm_rules split: obj.split)
  show "yields_ptr s (node_import rec sc)"
    unfolding node_import_def
    using assms by (intro bind_intros rec_bind [OF assms(1)] safety.safe_bnd [OF one] vm_rules;
      auto; blast intro: ext_intros)
  show "yields_ptr s node_alias"
    unfolding node_alias_def by (intro bind_intros safe_intros) simp
qed

lemma safe_atoms [safe_intros]:
  assumes "sc < length (scopes s)"
  shows "yields_ptr s (node_name sc)" "yields_ptr s node_string" "yields_ptr s node_integer"
  unfolding node_name_def node_string_def node_integer_def
  using assms by (intro bind_intros; auto intro!: safe_intros; blast intro: ext_intros)+

lemma obj_is_addr: "obj_is P h a \<Longrightarrow> a < length h"
  by (simp add: obj_is_def)

lemma safe_containers [safe_intros]:
  assumes "rec_safe rec" and "sc < length (scopes s)"
  shows "yields_ptr s (node_tuple rec sc)" "yields_ptr s (node_list rec sc)"
    "yields_ptr s (node_dictionary rec sc)" "yields_ptr s (node_attribute rec sc)"
  unfolding node_tuple_def node_list_def node_dictionary_def node_attribute_def
  using assms(2) by (intro bind_intros safe_intros vm_rules assms(1);
      auto dest!: obj_is_addr; blast intro: ext_intros)+

lemma safe_subscript [safe_intros]:
  assumes "rec_safe rec" and "sc < length (scopes s)"
  shows "yields_ptr s (node_subscript rec sc)"
proof -
  have look: "yields_ptr t (case (x, i) of
         (DictVal m, StringVal k) \<Rightarrow> ret (dict_get m k)
       | (PersistVal p, StringVal k) \<Rightarrow> on_heap (ps_get p k)
       | (ListVal xs, IntVal n) \<Rightarrow> lift_sum (list_get xs n)
       | (TupleVal xs, IntVal n) \<Rightarrow> lift_sum (tuple_get xs (ucast n))
       | _ \<Rightarrow> throw e)" if "obj_ok (heap t) x" for t x i e
    using that
    by (auto intro!: safe_intros vm_rules safety.safe_lift_sum dict_get_ok intro: list_get_ok tuple_get_ok
        split: obj.split)
  show ?thesis
    unfolding node_subscript_def
    using assms(2) by (intro bind_intros assms(1) look;
      auto; blast intro: ext_intros)
qed

section \<open>Assignments\<close>

lemma safe_hset_persist:
  "heap s ! a = PersistVal p \<Longrightarrow> a < length (heap s) \<Longrightarrow> ps_sound p' \<Longrightarrow>
     is_safe s (on_heap (hset a (PersistVal p')))"
  by (rule safe_on_heap, rule safe_hset) simp_all

lemma safe_store_at [safe_intros]:
  assumes "a < length (heap s)" and "v < length (heap s)"
  shows "is_safe s (store_at a key v)"
  unfolding store_at_def
  using assms by (intro bind_intros)
      (auto intro!: safety.safe_lift_bnd safe_hset_persist safe_intros intro: ps_sound_insert split: obj.split)

lemma safe_set_at [safe_intros]:
  assumes "a < length (heap s)" and "v < length (heap s)"
  shows "is_safe s (set_at a i v)"
proof -
  have "is_safe s (bnd (lift_sum (list_set xs i (Some v))) (\<lambda>xs'. on_heap (hset a (ListVal xs'))))"
    if "heap s ! a = ListVal xs" "list_all (ptr_ok (heap s)) xs" for xs
    using assms that list_set_ok [of "heap s" xs i "Some v"]
    by (intro safety.safe_lift_bnd safe_on_heap safe_hset) auto
  then show ?thesis
    unfolding set_at_def
    using assms by (intro bind_intros)
      (auto intro!: vm_rules split: obj.split)
qed

lemma safe_apply_at [safe_intros]:
  assumes "a < length (heap s)" and "ptr_ok (heap s) v"
  shows "is_safe s (apply_at a key v op)"
  unfolding apply_at_def
  using assms by (intro bind_intros)
      (auto intro!: safe_with_heap_bind safe_hset_persist safe_intros
      intro: ps_sound_apply split: obj.split)

lemma safe_assign_subscript [safe_intros]:
  assumes "rec_safe rec" and "sc < length (scopes s)" and "v < length (heap s)"
  shows "is_safe s (assign_subscript rec sc v)"
  unfolding assign_subscript_def
  using assms(2,3) by (intro bind_intros assms(1);
      auto intro!: vm_rules safe_intros bind_intros split: option.split obj.split; blast intro: ext_intros)

lemma safe_assign_names [safe_intros]:
  assumes "sc < length (scopes s)" and "v < length (heap s)"
  shows "is_safe s (assign_names sc v)"
  unfolding assign_names_def using assms
  by (intro bind_intros; auto intro!: vm_rules safe_intros bind_intros split: list.split obj.split;
      blast intro: ext_intros tuple_get_ok)

lemma safe_assign [safe_intros]:
  assumes "rec_safe rec" and "sc < length (scopes s)"
  shows "yields_ptr s (node_assign rec sc)"
  unfolding node_assign_def using assms(2)
  by (intro bind_intros assms(1); auto intro!: vm_rules safe_intros bind_intros assms(1); blast intro: ext_intros)

lemma safe_list_apply_at:
  "list_all (ptr_ok (heap s)) xs \<Longrightarrow> is_safe s (on_heap (list_apply xs i v op))"
  by (rule safe_on_heap, rule safe_list_apply)

lemma safe_augment [safe_intros]:
  assumes "rec_safe rec" and "sc < length (scopes s)"
  shows "is_safe s (augment_subscript rec sc op)" "is_safe s (augment_name rec sc op)"
proof -
  show "is_safe s (augment_subscript rec sc op)"
    unfolding augment_subscript_def using assms(2)
    by (intro bind_intros assms(1);
        auto intro!: vm_rules safe_intros bind_intros safe_list_apply_at split: option.split obj.split;
        blast intro: ext_intros)
  show "is_safe s (augment_name rec sc op)"
    unfolding augment_name_def using assms(2)
    by (intro bind_intros assms(1), auto intro!: vm_rules safe_intros bind_intros split: option.split)
      (blast intro: ext_intros)+
qed

lemma safe_augmented [safe_intros]:
  assumes "rec_safe rec" and "sc < length (scopes s)"
  shows "yields_ptr s (node_augmented_assign rec sc)"
proof -
  have step: "is_safe t (if b then augment_subscript rec sc op else augment_name rec sc op)"
    if "sc < length (scopes t)" for t b op
    using that by (simp add: safe_augment assms(1))
  show ?thesis
    unfolding node_augmented_assign_def using assms(2)
    by (intro bind_intros links_intros safe_on_ip [THEN safety.safe_bnd] step [THEN safety.safe_bnd] vm_rules;
        auto; blast intro: ext_intros)
qed

lemma safe_global [safe_intros]:
  "sc < length (scopes s) \<Longrightarrow> yields_ptr s (node_global sc)"
  unfolding node_global_def
  by (intro bind_intros safe_intros vm_rules; auto; blast intro: ext_intros)

section \<open>Statements, branches and operators\<close>

lemma safe_terminated [bind_intros]: "(\<And>d. safety.safe s (f d) Q) \<Longrightarrow> safety.safe s (bnd (terminated sc) f) Q"
  unfolding terminated_def by (rule safety.safe_gets_bnd)

lemma safe_truthy [bind_intros]: "(\<And>b. safety.safe s (f b) Q) \<Longrightarrow> safety.safe s (bnd (truthy p) f) Q"
  unfolding truthy_def by (rule safety.safe_gets_bnd)

abbreviation yields_fst :: "vm \<Rightarrow> (valueptr \<times> loop_state) exec \<Rightarrow> bool" where
  "yields_fst s m \<equiv> safety.safe s m (\<lambda>s' r. ptr_ok (heap s') (fst r))"

lemma safe_statement_list [safe_intros]:
  assumes "rec_safe rec" and "sc < length (scopes s)"
  shows "yields_fst s (node_statement_list rec sc ls)"
proof -
  have loop: "yields_fst t (exec_times n (\<lambda>(final, ls).
       bnd (terminated sc) (\<lambda>done.
         if done \<or> ls = LS_Break \<or> ls = LS_Continue then bnd (on_ip skip_next) (\<lambda>_. ret (final, ls))
         else
           bnd (rec sc (if ls = LS_TopLevel then LS_Normal else ls)) (\<lambda>r.
           ret (fst r, if ls \<noteq> LS_None \<and> snd r \<noteq> LS_Normal then snd r else ls)))) (None, ls))"
    if "sc < length (scopes t)" for t n
  proof (rule safe_exec_times)
    fix s' and a :: "valueptr \<times> loop_state" assume "vm_ext t s'" "ptr_ok (heap s') (fst a)"
    then show "yields_fst s' (case a of (final, ls) \<Rightarrow> bnd (terminated sc) (\<lambda>done.
         if done \<or> ls = LS_Break \<or> ls = LS_Continue then bnd (on_ip skip_next) (\<lambda>_. ret (final, ls))
         else
           bnd (rec sc (if ls = LS_TopLevel then LS_Normal else ls)) (\<lambda>r.
           ret (fst r, if ls \<noteq> LS_None \<and> snd r \<noteq> LS_Normal then snd r else ls))))"
      using that by (cases a; simp only: prod.case; intro bind_intros;
        auto intro!: bind_intros vm_rules rec_bind [OF assms(1)]; blast intro: ext_intros)
  qed (auto intro: ext_intros)
  show ?thesis
    unfolding node_statement_list_def using assms(2) by (intro bind_intros loop; blast intro: ext_intros)
qed

lemma safe_jumps [safe_intros]: "yields_fst s (node_continue ls)" "yields_fst s (node_break ls)"
  unfolding node_continue_def node_break_def by (auto intro!: vm_rules)

lemma safe_branches [safe_intros]:
  assumes "rec_safe rec" and "sc < length (scopes s)"
  shows "yields_fst s (node_if rec sc ls)" "yields_fst s (node_if_else rec sc ls)"
proof -
  show "yields_fst s (node_if rec sc ls)"
    unfolding node_if_def using assms(2)
    by (intro bind_intros rec_bind [OF assms(1)];
        auto intro!: bind_intros vm_rules rec_safeD [OF assms(1)]; blast intro: ext_intros)
  show "yields_fst s (node_if_else rec sc ls)"
    unfolding node_if_else_def using assms(2)
    by (intro bind_intros rec_bind [OF assms(1)];
        auto intro!: bind_intros vm_rules rec_safeD [OF assms(1)] rec_bind [OF assms(1)]
          split: option.split bool.split; blast intro: ext_intros)
qed

lemma safe_apply_unary: "a < length h \<Longrightarrow> hp.safe h (apply_unary op a x) ptr_ok"
  unfolding apply_unary_def
  by (auto intro!: heap_intros hp.safe_ret hp.safe_throw split: obj.split option.split unary_op.split)

lemma safe_int_divide: "hp.safe h (int_divide f msg i j) ptr_ok"
  unfolding int_divide_def by (auto intro!: heap_intros hp.safe_throw)

lemma safe_apply_binary: "hp.safe h (apply_binary op x y) ptr_ok"
  unfolding apply_binary_def
  by (cases x) (auto intro!: heap_intros hp.safe_throw safe_int_divide split: obj.split option.split binary_op.split)

lemma safe_operators [safe_intros]:
  assumes "rec_safe rec" and "sc < length (scopes s)"
  shows "yields_ptr s (node_return rec sc)" "yields_ptr s (node_unary_op rec sc)"
    "yields_ptr s (node_binary_op rec sc)"
  unfolding node_return_def node_unary_op_def node_binary_op_def using assms(2)
  by (intro bind_intros vm_rules safe_on_heap safe_apply_unary safe_apply_binary assms(1);
      auto; blast intro: ext_intros)+

lemma safe_compare [safe_intros]:
  assumes "rec_safe rec" and "sc < length (scopes s)"
  shows "yields_ptr s (node_compare rec sc)"
proof -
  have loop: "yields_ptr t (exec_times n (\<lambda>current.
       bnd (on_ip rd_u32) (\<lambda>op_type. bnd (eval rec sc) (\<lambda>rval.
       bnd (with_heap (\<lambda>h. compare_values (compare_op_of op_type) h current rval)) (\<lambda>res.
       on_heap (create_boolean res))))) first)"
    if "sc < length (scopes t)" "ptr_ok (heap t) first" for t n first
    by (rule safe_exec_times)
      (use that in \<open>auto intro!: bind_intros safe_intros assms(1) intro: ext_intros\<close>)
  show ?thesis
    unfolding node_compare_def using assms(2)
    by (intro bind_intros loop assms(1); blast intro: ext_intros)
qed

lemma safe_bool_op [safe_intros]:
  assumes "rec_safe rec" and "sc < length (scopes s)"
  shows "yields_ptr s (node_bool_op rec sc)"
proof -
  have operand: "is_safe t (bool_operand rec sc b r)" if "sc < length (scopes t)" for t b r
    unfolding bool_operand_def using that
    by (auto intro!: bind_intros vm_rules assms(1) split: option.split)
  have loop: "is_safe t (exec_times n (bool_operand rec sc b) r)" if "sc < length (scopes t)" for t n b r
    by (rule safe_exec_times) (use that in \<open>auto intro!: operand intro: ext_intros\<close>)
  have ops: "is_safe t (case bool_op_of op of
            Some Bool_And \<Rightarrow> exec_times n (bool_operand rec sc True) True
          | Some Bool_Or \<Rightarrow> exec_times n (bool_operand rec sc False) False
          | _ \<Rightarrow> throw e)" if "sc < length (scopes t)" for t op n e
    using that by (auto intro!: loop vm_rules split: option.split bool_op.split)
  show ?thesis
    unfolding node_bool_op_def using assms(2)
    by (intro bind_intros ops [THEN safety.safe_bnd] safe_intros; blast intro: ext_intros)
qed

end
