(* ===== verification/Safety_Runs.thy ===== *)
theory Safety_Runs
  imports Safety_Nodes
begin

text \<open>
  Loops, calls and whole runs keep the invariant of theory \<open>Safety\<close>: by induction on the fuel
  \<open>exec\<close> does, and with it \<open>execute\<close> and \<open>calldata\<close>.
\<close>

section \<open>Loops\<close>

lemma safe_after_body:
  assumes "sc < length (scopes s)" and "ptr_ok (heap s) rv" and "ptr_ok (heap s) (fst r)"
  shows "safety.safe s (after_body sc b rv r) (\<lambda>s' st. ptr_ok (heap s') (snd st))"
  unfolding after_body_def using assms
  by (intro bind_intros; auto intro!: bind_intros vm_rules; blast intro: ext_intros)

text \<open>What a round of a loop returns: the next round's pointer or the loop's result.\<close>

definition round_ok :: "heap \<Rightarrow> loop_state \<times> valueptr + valueptr \<Rightarrow> bool" where
  "round_ok h r \<longleftrightarrow> (case r of Inl st \<Rightarrow> ptr_ok h (snd st) | Inr p \<Rightarrow> ptr_ok h p)"

lemma round_ok_simps [simp]:
  "round_ok h (Inl st) \<longleftrightarrow> ptr_ok h (snd st)" "round_ok h (Inr p) \<longleftrightarrow> ptr_ok h p"
  by (simp_all add: round_ok_def)

lemma safe_rounds:
  assumes "\<And>s' st. vm_ok s' \<Longrightarrow> vm_ext s s' \<Longrightarrow> ptr_ok (heap s') (snd st) \<Longrightarrow>
      safety.safe s' (f st) (\<lambda>s''. round_ok (heap s''))"
  shows "yields_ptr s (loop_fuel n f (ls, None))"
  by (rule safety.safe_loop [where I = "\<lambda>s' st. ptr_ok (heap s') (snd st)"])
    (auto intro: safety.safe_weaken [OF assms] simp: round_ok_def split: sum.splits)

lemma safe_while [safe_intros]:
  assumes "rec_safe rec" and "sc < length (scopes s)"
  shows "yields_ptr s (node_while n rec sc)"
proof -
  have body: "safety.safe t (local_scope sc (\<lambda>body. bnd (rec body ls) (after_body sc body rv)))
      (\<lambda>s' st. ptr_ok (heap s') (snd st))" if "sc < length (scopes t)" "ptr_ok (heap t) rv" for t ls rv
    using that
    by (intro safe_local_scope rec_bind [OF assms(1)] safe_after_body; blast intro: ext_intros)
  have step: "safety.safe t (while_step rec sc start st) (\<lambda>s'. round_ok (heap s'))"
    if "sc < length (scopes t)" "ptr_ok (heap t) (snd st)" for t start st
    unfolding while_step_def using that
    by (intro bind_intros; auto intro!: bind_intros vm_rules body [THEN safety.safe_bnd] assms(1);
        blast intro: ext_intros)
  show ?thesis
    unfolding node_while_def using assms(2)
    by (intro bind_intros safe_rounds [THEN safety.safe_bnd] step vm_rules; auto; blast intro: ext_intros)
qed

text \<open>\<open>try { iter->next() }\<close>.\<close>

lemma safe_advance:
  assumes "it < length (heap s)"
  shows "safety.safe s (advance it) (\<lambda>s' r. ptr_ok (heap s') (Option.bind r id))"
  unfolding advance_def
  by (rule safety.safe_bnd [OF safe_catch [OF safe_on_heap [OF safe_iter_next [OF assms]]]])
    (auto intro!: vm_rules split: sum.split)

lemma safe_bind_targets:
  assumes "b < length (scopes s)" and "ptr_ok (heap s) v"
  shows "is_safe s (bind_targets b names v)"
proof (rule safety.safe_ok)
  assume s: "vm_ok s"
  have tuple: "list_all (ptr_ok (heap s)) xs" if "deref (heap s) v = Some (TupleVal xs)" for xs
    using s that assms(2) heap_ok_nth [of "heap s"]
    by (auto simp: deref_def vm_ok_def base_ok_def dest: sym) (metis obj_ok.simps(2))
  show ?thesis
    unfolding bind_targets_def using assms tuple
    by (auto intro!: bind_intros safe_intros vm_rules split: list.split option.split obj.split)
      (blast intro: ext_intros tuple_get_ok)+
qed

lemma safe_for [safe_intros]:
  assumes "rec_safe rec" and "sc < length (scopes s)"
  shows "yields_ptr s (node_for n rec sc)"
proof -
  have body: "safety.safe t (bnd (bind_targets b names v) (\<lambda>_. bnd (rec b ls) (\<lambda>r.
      bnd (after_body sc b rv r) (\<lambda>st'. ret (Inl st'))))) (\<lambda>s'. round_ok (heap s'))"
    if "sc < length (scopes t)" "b < length (scopes t)" "ptr_ok (heap t) rv" "ptr_ok (heap t) v"
    for t b names v rv ls
    using that
    by (intro safe_bind_targets [THEN safety.safe_bnd] rec_bind [OF assms(1)]
        safe_after_body [THEN safety.safe_bnd] vm_rules; simp;
        blast intro: ext_intros)
  have step: "safety.safe t (for_step rec sc names it st) (\<lambda>s'. round_ok (heap s'))"
    if "sc < length (scopes t)" "ptr_ok (heap t) (snd st)" "it < length (heap t)" for t names it st
    unfolding for_step_def using that
    by (intro bind_intros; auto intro!: bind_intros vm_rules safe_local_scope
          safe_advance [THEN safety.safe_bnd] body
          split: option.split; blast intro: ext_intros)
  have source: "safety.safe t (if is_generator x then ret oa
          else if can_iterate x then on_heap (iterate oa)
          else throw e) (\<lambda>s' it. it < length (heap s'))" if "oa < length (heap t)" for t x oa e
    using that safe_on_heap [OF safe_iterate [OF that]]
    by (auto intro!: vm_rules intro: safety.safe_weaken dest: obj_is_addr)
  show ?thesis
    unfolding node_for_def using assms(2)
    by (intro bind_intros source [THEN safety.safe_bnd] safe_rounds [THEN safety.safe_bnd] step vm_rules assms(1);
        auto; blast intro: ext_intros)
qed

lemma safe_cast_iterator:
  assumes "ptr_ok (heap s) p"
  shows "safety.safe s (cast_iterator p) (\<lambda>s' a. a < length (heap s'))"
  unfolding cast_iterator_def
  by (intro bind_intros) (use assms in \<open>auto intro!: vm_rules split: option.split\<close>)

lemma safe_list_comp [safe_intros]:
  assumes "rec_safe rec" and "sc < length (scopes s)"
  shows "yields_fst s (node_list_comp n rec sc ls)"
proof -
  have body: "is_safe t (local_scope sc (\<lambda>body. bnd (scope_set body target v) (\<lambda>_.
      bnd (on_ip (move_to pos)) (\<lambda>_. bnd (rec body l) (\<lambda>r.
      bnd (on_heap (list_append list (fst r))) (\<lambda>_. ret (Inl (snd r) :: loop_state + unit)))))))"
    if "sc < length (scopes t)" "list < length (heap t)" "ptr_ok (heap t) v" for t target v pos l list
    using that
    by (intro safe_local_scope bind_intros rec_bind [OF assms(1)] vm_rules; auto; blast intro: ext_intros)
  have step: "is_safe t (comp_step rec sc target list it pos l)"
    if "sc < length (scopes t)" "list < length (heap t)" "it < length (heap t)" for t target list it pos l
    unfolding comp_step_def using that
    by (intro bind_intros; auto intro!: bind_intros vm_rules safe_advance [THEN safety.safe_bnd] body
          split: option.split; blast intro: ext_intros)
  have loop: "is_safe t (loop_fuel n (comp_step rec sc target list it pos) l)"
    if "sc < length (scopes t)" "list < length (heap t)" "it < length (heap t)" for t target list it pos l
    by (rule safety.safe_loop [where I = "\<lambda>_ _. True"])
      (use that in \<open>auto intro!: safety.safe_weaken [OF step] intro: ext_intros split: sum.split\<close>)
  show ?thesis
    unfolding node_list_comp_def using assms(2)
    by (intro bind_intros rec_bind [OF assms(1)] safe_cast_iterator [THEN safety.safe_bnd]
        loop [THEN safety.safe_bnd] vm_rules; auto dest!: obj_is_addr; blast intro: ext_intros)
qed

section \<open>A new interpreter\<close>

lemma scopes_valid_root: "scopes_valid h ss \<Longrightarrow> scopes_valid h (ss @ [root_scope])"
  by (rule scopes_valid_snoc) (simp_all add: scopes_valid_def scopes_ok_root, simp add: root_scope_def)

text \<open>The constructor needs no interpreter and leaves one whose links are valid.\<close>

lemma entry_new_interpreter:
  "entry.safe s (new_interpreter code) (\<lambda>s' root. vm_ok s' \<and> root < length (scopes s') \<and>
     m_global_scope (ip s') = root \<and> obj_is is_persist (heap s') (m_store (ip s')))"
proof (rule entry.safeI)
  fix r s' assume s: "base_ok s" and run: "new_interpreter code s = (r, s')"
  let ?h = "heap s @ [PersistVal empty_persist]" and ?ss = "scopes s @ [root_scope]"
  have h: "heap_ok ?h" "hext (heap s) ?h" using s by (simp_all add: base_ok_def heap_ok_new hext_new)
  then have "scopes_valid ?h ?ss" using s by (auto simp: base_ok_def intro: scopes_valid_root scopes_valid_hext)
  then have v: "scopes_valid ?h (set_value ?ss (length (scopes s)) ''store'' (Some (length (heap s))))"
    unfolding set_value_chain by (intro scopes_valid_put chain_target_less) simp_all
  show "base_ok s' \<and> vm_grow s s' \<and> (\<forall>x. r = Inr x \<longrightarrow> vm_ok s' \<and> x < length (scopes s') \<and>
      m_global_scope (ip s') = x \<and> obj_is is_persist (heap s') (m_store (ip s')))"
    using run h v s
    by (auto simp: new_interpreter_def bnd_def push_scope_def on_heap_def on_part_def halloc_def modify_def
        scope_set_def on_scopes_def ret_def vm_ok_def base_ok_def vm_grow_def interp_ok_def obj_is_def)
qed

lemma entry_after_safe:
  assumes "vm_ok s" and "safety.safe s m Q" and "\<And>s' x. vm_ok s' \<Longrightarrow> vm_ext s s' \<Longrightarrow> Q s' x \<Longrightarrow> entry.safe s' (f x) R"
  shows "entry.safe s (bnd m f) R"
proof (rule entry.safe_bnd)
  show "entry.safe s m (\<lambda>s' x. vm_ok s' \<and> vm_ext s s' \<and> Q s' x)"
    using assms(1,2) by (auto simp: entry.safe_def safety.safe_def vm_ok_def vm_ext_def split: prod.splits sum.splits)
qed (use assms(3) in blast)

lemma entry_enter_function:
  assumes "vm_ok s" and "sc < length (scopes s)"
  shows "entry.safe s (enter_function code sc k lim) (\<lambda>s' b. vm_ok s' \<and> b < length (scopes s'))"
proof -
  have limits: "entry.safe t (bnd (on_ip (set_execution_step_limit lim)) (\<lambda>_.
      bnd (on_ip (set_num_execution_steps k)) (\<lambda>_. ret b))) (\<lambda>s' b. vm_ok s' \<and> b < length (scopes s'))"
    if "vm_ok t" "b < length (scopes t)" for t b
    using that
    by (intro entry_after_safe [OF _ safe_on_ip] links_intros entry.safe_ret) (auto intro: ext_intros)
  have new: "entry.safe t (bnd (new_interpreter code) (\<lambda>_. bnd (on_ip (set_execution_step_limit lim)) (\<lambda>_.
      bnd (on_ip (set_num_execution_steps k)) (\<lambda>_. ret b)))) (\<lambda>s' b. vm_ok s' \<and> b < length (scopes s'))"
    if "b < length (scopes t)" for t b
    by (intro entry.safe_bnd [OF entry_new_interpreter] limits) (use that in \<open>auto simp: vm_grow_def\<close>)
  show ?thesis
    unfolding enter_function_def using assms
    by (intro entry_after_safe [OF _ safe_push_child] entry_after_safe [OF _ safe_scope_flags(3)] new)
      (auto intro: ext_intros)
qed

section \<open>Calls\<close>

definition outcome_ok :: "heap \<Rightarrow> exn + valueptr \<Rightarrow> bool" where
  "outcome_ok h r \<longleftrightarrow> (case r of Inr p \<Rightarrow> ptr_ok h p | Inl e \<Rightarrow> True)"

lemma outcome_ok_simps [simp]: "outcome_ok h (Inl e)" "outcome_ok h (Inr p) \<longleftrightarrow> ptr_ok h p"
  by (simp_all add: outcome_ok_def)

abbreviation call_safe :: "vm \<Rightarrow> call_result exec \<Rightarrow> bool" where
  "call_safe s m \<equiv> safety.safe s m (\<lambda>s' r. outcome_ok (heap s') (fst r))"

lemma safe_plain_call: "yields_ptr s m \<Longrightarrow> call_safe s (plain_call m k)"
  unfolding plain_call_def
  by (rule safety.safe_bnd [OF safe_catch]) (auto intro!: vm_rules simp: outcome_ok_def)

lemma safe_bind_all:
  assumes "b < length (scopes s)" and "\<forall>pa \<in> set xs. ptr_ok (heap s) (snd pa)"
  shows "is_safe s (for_each xs (\<lambda>pa. scope_set b (fst pa) (snd pa)))"
  by (rule safety.safe_for_each) (use assms in \<open>auto intro!: safe_intros intro: ext_intros\<close>)

lemma safe_bind_arguments:
  assumes "b < length (scopes s)" and "list_all (ptr_ok (heap s)) defaults" and "list_all (ptr_ok (heap s)) args"
  shows "is_safe s (bind_arguments b params defaults args)"
proof -
  have zip: "\<forall>pa \<in> set (filter P (zip params vs)). ptr_ok h (snd pa)" "\<forall>pa \<in> set (zip params vs). ptr_ok h (snd pa)"
    if "list_all (ptr_ok h) vs" for h vs P
    using that by (auto simp: list_all_iff dest: set_zip_rightD)
  show ?thesis
    unfolding bind_arguments_def using assms
    by (intro safety.safe_throw_if_bnd safe_bind_all [THEN safety.safe_bnd] safe_bind_all zip;
        blast intro: ext_intros)
qed

lemma safe_vm_function_call:
  assumes "rec_safe rec" and "sc < length (scopes s)"
    and "list_all (ptr_ok (heap s)) defaults" and "list_all (ptr_ok (heap s)) args"
  shows "call_safe s (vm_function_call rec code params defaults args sc k lim)"
proof (rule safety.safe_ok)
  assume s: "vm_ok s"
  have run: "safety.safe t (bnd (bind_arguments b params defaults args) (\<lambda>_. bnd (catch (eval rec b)) (\<lambda>r.
      bnd (gets (\<lambda>s. m_num_execution_steps (ip s))) (\<lambda>n. ret (r, n)))))
      (\<lambda>s' r. outcome_ok (heap s') (fst r))"
    if t: "b < length (scopes t)" "list_all (ptr_ok (heap t)) defaults" "list_all (ptr_ok (heap t)) args" for t b
    using t
    by (intro safe_bind_arguments [THEN safety.safe_bnd] safe_eval(1) [THEN safe_catch, THEN safety.safe_bnd]
        safety.safe_gets_bnd safety.safe_ret assms(1); auto simp: outcome_ok_def; blast intro: ext_intros)
  have "entry.safe s (vm_function_body rec code params defaults args sc k lim)
      (\<lambda>s' r. outcome_ok (heap s') (fst r))"
    unfolding vm_function_body_def
  proof (rule entry.safe_bnd [OF entry_enter_function [OF s assms(2)]])
    fix t b assume "vm_grow s t" "vm_ok t \<and> b < length (scopes t)"
    then show "entry.safe t (bnd (bind_arguments b params defaults args) (\<lambda>_. bnd (catch (eval rec b)) (\<lambda>r.
      bnd (gets (\<lambda>s. m_num_execution_steps (ip s))) (\<lambda>n. ret (r, n))))) (\<lambda>s' r. outcome_ok (heap s') (fst r))"
      using assms(3,4) by (intro entry_safe run) (auto simp: vm_grow_def list_all_iff intro: ptr_ok_hext)
  qed
  from safe_own_interp [OF this] show ?thesis
    unfolding vm_function_call_def
    by (rule safety.safe_bnd) (auto intro!: vm_rules split: sum.splits)
qed

lemma safe_c_function_call:
  assumes "sc < length (scopes s)" and "obj_is is_blockchain (heap s) this" and "list_all (ptr_ok (heap s)) args"
  shows "yields_ptr s (c_function_call params f this args sc)"
proof -
  have zip: "\<forall>pa \<in> set (zip params args). ptr_ok (heap t) (snd pa)" if "list_all (ptr_ok (heap t)) args" for t
    using that by (auto simp: list_all_iff dest: set_zip_rightD)
  have body: "yields_ptr t (bnd (on_scopes (\<lambda>ss. require_global ss b)) (\<lambda>_. bnd (throw_if (length args \<noteq> length params) e) (\<lambda>_.
       bnd (for_each (zip params args) (\<lambda>pa. scope_set b (fst pa) (snd pa))) (\<lambda>_. bc_call f this b))))"
    if "b < length (scopes t)" "obj_is is_blockchain (heap t) this" "list_all (ptr_ok (heap t)) args" for t b e
    using that
    by (intro bind_intros safe_bind_all [THEN safety.safe_bnd] safe_bc_call zip;
        blast intro: ext_intros lasting_classes)
  show ?thesis
    unfolding c_function_call_def
    by (rule safe_local_scope [OF assms(1) body]) (use assms(2,3) in \<open>auto intro: ext_intros lasting_classes\<close>)
qed

lemma safe_items_call:
  "d < length (heap s) \<Longrightarrow> yields_ptr s (items_call d args)"
  unfolding items_call_def by (intro bind_intros vm_rules; auto dest: obj_is_addr)

lemma safe_callable_call:
  assumes "rec_safe rec" and "sc < length (scopes s)" and "c < length (heap s)"
    and "list_all (ptr_ok (heap s)) args"
  shows "call_safe s (callable_call rec c args sc k lim)"
  unfolding callable_call_def
proof (rule safe_obj_at [OF assms(3)])
  assume ok: "obj_ok (heap s) (heap s ! c)"
  show "call_safe s (case heap s ! c of
         Builtin b \<Rightarrow> plain_call (builtin_call b args) k
       | Function f \<Rightarrow> plain_call (function_call f args) k
       | CallableVMFunction code params defaults \<Rightarrow> vm_function_call rec code params defaults args sc k lim
       | CallableCFunction params f this \<Rightarrow> plain_call (c_function_call params f this args sc) k
       | DictItems d \<Rightarrow> plain_call (items_call d args) k
       | _ \<Rightarrow> plain_call (throw bad_cast) k)"
    using ok assms
    by (cases "heap s ! c")
      (auto intro!: safe_plain_call safe_vm_function_call safe_builtin_call safe_function_call
        safe_c_function_call safe_items_call vm_rules dest: obj_is_addr)
qed

lemma safe_invoke:
  assumes "rec_safe rec" and "sc < length (scopes s)" and "c < length (heap s)"
    and "list_all (ptr_ok (heap s)) args"
  shows "yields_ptr s (invoke rec c args sc)"
  unfolding invoke_def
  by (intro safety.safe_gets_bnd safe_callable_call [THEN safety.safe_bnd] assms)
    (auto intro!: bind_intros vm_rules simp: outcome_ok_def split: sum.split sum.splits)

text \<open>The loop that evaluates arguments.\<close>

lemma list_all_snoc_ext:
  "vm_ext s s' \<Longrightarrow> list_all (ptr_ok (heap s)) ps \<Longrightarrow> ptr_ok (heap s') p \<Longrightarrow> list_all (ptr_ok (heap s')) (ps @ [p])"
  by (simp add: ext_facts(6))

lemma safe_call [safe_intros]:
  assumes "rec_safe rec" and "sc < length (scopes s)"
  shows "yields_ptr s (node_call rec sc)"
proof -
  have args: "safety.safe t (exec_times n (\<lambda>args. bnd (eval rec sc) (\<lambda>arg. ret (args @ [arg]))) [])
      (\<lambda>s'. list_all (ptr_ok (heap s')))" if "sc < length (scopes t)" for t n
    by (rule safe_exec_times)
      (use that in \<open>auto intro!: bind_intros vm_rules assms(1) intro: ext_intros list_all_snoc_ext\<close>)
  show ?thesis
    unfolding node_call_def using assms(2)
    by (intro bind_intros args [THEN safety.safe_bnd] safe_invoke assms(1); blast intro: ext_intros)
qed

section \<open>Function definitions\<close>

lemma safe_expect_type [bind_intros]:
  "(\<And>s'. vm_ok s' \<Longrightarrow> vm_ext s s' \<Longrightarrow> safety.safe s' (f ()) Q) \<Longrightarrow> safety.safe s (bnd (expect_type t e) f) Q"
  unfolding expect_type_def by simp (intro bind_intros, blast)

lemma safe_rd_bytes:
  "is_safe s (rd_bytes n)"
  by (auto simp: safety.safe_def rd_bytes_def vm_ok_def base_ok_def vm_ext_def vm_grow_def interp_ok_def
      split: prod.split)

lemma safe_global_scope [bind_intros]:
  assumes "\<And>g. g < length (scopes s) \<Longrightarrow> safety.safe s (f g) Q"
  shows "safety.safe s (bnd (gets (\<lambda>s. m_global_scope (ip s))) f) Q"
  by (rule safety.safe_ok, rule safety.safe_gets_bnd) (auto intro: assms simp: vm_ok_def interp_ok_def)

lemma safe_function_def [safe_intros]:
  assumes "rec_safe rec" and "sc < length (scopes s)"
  shows "yields_ptr s (node_function_def rec sc)"
proof -
  have names: "is_safe t (exec_times n (\<lambda>args. bnd (on_ip read_name) (\<lambda>arg. ret (args @ [arg]))) [])" for t n
    by (rule safe_exec_times) (auto intro!: bind_intros vm_rules)
  have default: "safety.safe t (read_default rec st) (\<lambda>s' st'. list_all (ptr_ok (heap s')) (fst st'))"
    if "list_all (ptr_ok (heap t)) (fst st)" for t st
    unfolding read_default_def Let_def
    by (rule safe_global_scope, use that in \<open>auto intro!: bind_intros vm_rules assms(1)\<close>)
      (blast intro: ext_intros)+
  have defaults: "safety.safe t (exec_times n (read_default rec) ([], False))
      (\<lambda>s' st. list_all (ptr_ok (heap s')) (fst st))" for t n
    by (rule safe_exec_times) (auto intro!: default intro: ext_intros)
  have stub: "yields_ptr t (read_function_stub rec)" for t
    unfolding read_function_stub_def
    by (intro bind_intros names [THEN safety.safe_bnd] defaults [THEN safety.safe_bnd]
        safe_rd_bytes [THEN safety.safe_bnd] safe_on_heap safe_hnew; simp; blast intro: ext_intros)
  show ?thesis
    unfolding node_function_def_def using assms(2)
    by (intro bind_intros stub [THEN safety.safe_bnd] vm_rules; auto; blast intro: ext_intros)
qed

section \<open>\<open>execute_next\<close>\<close>

lemma safe_same_state: "yields_ptr s m \<Longrightarrow> yields_fst s (same_state ls m)"
  unfolding same_state_def by (erule safety.safe_bnd) (simp add: safety.safe_ret)

lemma safe_exec_node:
  assumes "rec_safe rec" and "sc < length (scopes s)"
  shows "yields_fst s (exec_node n rec t sc ls)"
  unfolding exec_node_def using assms
  by (auto intro!: safe_same_state safe_intros vm_rules split: option.split node_type.split)

lemma safe_exec_step:
  assumes "rec_safe rec" and "sc < length (scopes s)"
  shows "yields_fst s (exec_step n rec sc ls)"
  unfolding exec_step_def using assms(2)
  by (intro bind_intros safe_exec_node [THEN safety.safe_bnd] assms(1);
      auto intro!: bind_intros vm_rules; blast intro: ext_intros)

lemma exec_safe: "rec_safe (exec n)"
proof (induction n)
  case (Suc n)
  then have "yields_fst s (exec_step n (exec n) sc ls)" if "sc < length (scopes s)" for s sc ls
    using that by (rule safe_exec_step)
  then show ?case by (auto simp only: rec_safe_def exec.simps)
qed (simp add: rec_safe_def safety.safe_throw)

section \<open>\<open>execute\<close> and \<open>calldata\<close>\<close>

lemma safe_execute: "yields_ptr s (execute n)"
  unfolding execute_def by (rule safe_global_scope) (rule safe_eval(1) [OF exec_safe])

lemma safe_read_from [bind_intros]:
  "(\<And>x. safety.safe s (f x) Q) \<Longrightarrow> safety.safe s (bnd (read_from rd bs) f) Q"
  unfolding read_from_def by (auto intro!: vm_rules split: prod.split sum.split)

lemma safe_read_argument: "safety.safe s (read_argument bs) (\<lambda>s' r. ptr_ok (heap s') (fst r))"
  unfolding read_argument_def
  by (intro bind_intros) (auto intro!: bind_intros vm_rules)

lemma safe_calldata: "yields_ptr s (calldata n data)"
proof -
  have args: "safety.safe t (exec_times k (\<lambda>(args, bs).
      bnd (read_argument bs) (\<lambda>(p, bs'). ret (args @ [p], bs'))) ([], bs))
      (\<lambda>s' r. list_all (ptr_ok (heap s')) (fst r))" for t k bs
    by (rule safe_exec_times)
      (auto intro!: safe_read_argument [THEN safety.safe_bnd] vm_rules intro: ext_intros list_all_snoc_ext)
  have call: "yields_ptr t (invoke_data (exec n) c vs g)"
    if "g < length (scopes t)" "c < length (heap t)" "list_all (ptr_ok (heap t)) vs" for t g c vs
    unfolding invoke_data_def using that
    by (intro safety.safe_gets_bnd safe_callable_call [THEN safety.safe_bnd] exec_safe)
      (auto intro!: bind_intros safety.safe_lift_sum simp: outcome_ok_def intro: ext_intros)
  show ?thesis
    unfolding calldata_def Let_def
    by (cases "data = []", auto intro!: bind_intros vm_rules args [THEN safety.safe_bnd] call split: option.split)
      (blast intro: ext_intros)+
qed

end
