(* ===== verification/Safety_Contract.thy ===== *)
theory Safety_Contract
  imports Safety_Runs Contract
begin

text \<open>
  The memory safety of whole contracts: from a new process, \<open>execute_program\<close> sets up a state
  that conforms and leaves one, whatever the bytecode, the gas and the call data, and however
  the run ends.
\<close>

section \<open>Preparing a run\<close>

lemma safe_add_function:
  assumes "obj_is is_blockchain (heap s) this"
  shows "is_safe s (add_function this e)"
proof -
  have put: "is_safe t (bnd (obj_at this) (\<lambda>x. case x of
           ModuleVal (BlockchainModule r fs) \<Rightarrow>
             on_heap (hset this (ModuleVal (BlockchainModule r (sm_put name c fs))))
         | _ \<Rightarrow> throw bad_cast))"
    if t: "obj_is is_blockchain (heap t) this" "obj_is is_c_function (heap t) c" for t name c
  proof (rule safe_obj_at)
    show a: "this < length (heap t)" using t(1) by (rule obj_is_addr)
    assume ok: "obj_ok (heap t) (heap t ! this)"
    have "is_safe t (on_heap (hset this (ModuleVal (BlockchainModule r (sm_put name c fs)))))"
      if x: "heap t ! this = ModuleVal (BlockchainModule r fs)" for r fs
      using ok t(2) a by (intro safe_on_heap safe_hset) (auto simp: x intro: sm_put_all)
    then show "is_safe t (case heap t ! this of
           ModuleVal (BlockchainModule r fs) \<Rightarrow>
             on_heap (hset this (ModuleVal (BlockchainModule r (sm_put name c fs))))
         | _ \<Rightarrow> throw bad_cast)"
      by (auto intro!: vm_rules split: obj.split module_obj.split)
  qed
  show ?thesis
    unfolding add_function_def
    by (cases e; simp only: prod.case; intro safe_halloc [where P = is_c_function, THEN safe_on_heap, THEN safety.safe_bnd] put)
      (use assms in \<open>auto intro: ext_intros lasting_classes\<close>)
qed

lemma safe_register: "is_safe s register_blockchain_module"
proof -
  have all: "is_safe t (for_each fs (add_function this))" if "obj_is is_blockchain (heap t) this" for t fs this
    by (rule safety.safe_for_each)
      (use that in \<open>auto intro!: safe_add_function intro: ext_intros lasting_classes\<close>)
  have module: "obj_is is_module h a" if "obj_is is_blockchain h a" for h a
    using that by (cases "h ! a" rule: is_blockchain.cases) (auto simp: obj_is_def)
  show ?thesis
    unfolding register_blockchain_module_def
    by (intro safe_halloc [where P = is_blockchain, THEN safe_on_heap, THEN safety.safe_bnd]
        all [THEN safety.safe_bnd] safe_set_module module)
      (auto simp: rc4_ok_init intro: ext_intros lasting_classes)
qed

text \<open>The host's archive reader yields proper maps.\<close>

definition loads_sound :: "(u8 list \<Rightarrow> exn + persist) \<Rightarrow> bool" where
  "loads_sound load \<longleftrightarrow> (\<forall>old p. load old = Inr p \<longrightarrow> ps_sound p)"

lemma safe_load_old:
  assumes "loads_sound load" and st: "obj_is is_persist (heap s) st"
  shows "is_safe s (load_old_storage load st old)"
proof -
  obtain p where p: "heap s ! st = PersistVal p"
    using st by (cases "heap s ! st" rule: is_persist.cases) (auto simp: obj_is_def)
  show ?thesis
    unfolding load_old_storage_def using assms p
    by (auto intro!: vm_rules safety.safe_lift_bnd safe_hset_persist simp: loads_sound_def dest: obj_is_addr)
qed

lemma ext_store: "vm_ext s s' \<Longrightarrow> st = m_store (ip s) \<Longrightarrow> st = m_store (ip s')"
  by (simp add: vm_ext_def)

lemma entry_prepare:
  assumes "loads_sound load"
  shows "entry.safe s (prepare load code gas price old) (\<lambda>s' st. vm_ok s' \<and> obj_is is_persist (heap s') st \<and> st = m_store (ip s'))"
proof -
  have rest: "entry.safe t (bnd (gets (\<lambda>s. m_store (ip s))) (\<lambda>st. bnd (load_old_storage load st old) (\<lambda>_.
      bnd (lift_sum (step_limit gas price)) (\<lambda>limit. bnd (on_ip (set_execution_step_limit limit)) (\<lambda>_.
      bnd register_blockchain_module (\<lambda>_. ret st)))))) (\<lambda>s' st. vm_ok s' \<and> obj_is is_persist (heap s') st \<and> st = m_store (ip s'))"
    if t: "vm_ok t" "obj_is is_persist (heap t) (m_store (ip t))" for t
  proof (rule entry.safe_gets_bnd)
    let ?st = "m_store (ip t)"
    show "entry.safe t (bnd (load_old_storage load ?st old) (\<lambda>_.
        bnd (lift_sum (step_limit gas price)) (\<lambda>limit. bnd (on_ip (set_execution_step_limit limit)) (\<lambda>_.
        bnd register_blockchain_module (\<lambda>_. ret ?st))))) (\<lambda>s' st. vm_ok s' \<and> obj_is is_persist (heap s') st \<and> st = m_store (ip s'))"
      by (intro entry_after_safe [OF _ safe_load_old] entry.safe_lift_bnd entry_after_safe [OF _ safe_on_ip]
          entry_after_safe [OF _ safe_register] entry.safe_ret links_intros conjI assms;
          blast intro: ext_intros ext_store lasting_classes t)
  qed
  show ?thesis
    unfolding prepare_def
    by (rule entry.safe_bnd [OF entry_new_interpreter]) (auto intro: rest)
qed

lemma safe_run_contract: "yields_ptr s (run_contract n data)"
  unfolding run_contract_def by (rule safe_execute [THEN safety.safe_bnd]) (rule safe_calldata)

lemma base_ok_initial: "base_ok (initial_vm check rands network blkchn)"
  by (simp add: base_ok_def initial_vm_def scopes_valid_def scopes_ok_def)

lemma vm_ok_demo: "vm_ok (demo_vm code lim)"
proof -
  have "scopes_ok [root_scope\<lparr>m_values := [''store'' \<mapsto> Some 0]\<rparr>]"
    by (simp add: scopes_ok_def scope_ok_def root_scope_def)
  then show ?thesis
    by (simp add: vm_ok_def base_ok_def demo_vm_def scopes_valid_def interp_ok_def heap_ok_def obj_is_def
        demo_env_def)
qed

section \<open>Properties\<close>





text \<open>
  C18: what a run cannot change.  Strings, floats, booleans, functions and import names are
  immutable: whatever a run does, the object is afterwards what it was.  Integers are not among
  them: an augmented assignment changes the integer object itself.
\<close>

definition immutable :: "obj \<Rightarrow> bool" where
  "immutable x \<longleftrightarrow> obj_type x \<in> {VT_String, VT_Float, VT_Bool, VT_Function, VT_Builtin, VT_DictItems, VT_Alias}"



end
