(* ===== verification/Spec2Isabelle.thy ===== *)
theory Spec2Isabelle
  imports Node_Types Contract Memory Container_Laws Exec_Laws Compiled_Contract Serialize
    Shell_Laws Library Safety_Contract
begin

text \<open>
  A model of contractpython, an interpreter for contracts written in a subset of Python
  (C++, \<^verbatim>\<open>include/cowlang\<close>, \<^verbatim>\<open>src/compiler\<close>, \<^verbatim>\<open>src/interpreter\<close>, \<^verbatim>\<open>src/modules\<close>, \<^verbatim>\<open>src/shell\<close>).

  \<^bold>\<open>The program.\<close>  A compiled program is a byte string, the preorder of a syntax tree.
  \<open>execute_program\<close> (library.cpp) sets the chain parameters, unpacks the program, builds an
  \<open>Interpreter\<close> with the storage an earlier run left, sets a step limit from the gas, runs the
  top level, which may only define functions, and calls the function named in the call data.
  \<open>Interpreter::execute_next\<close> reads one node from the stream, evaluates it in a scope and
  returns a value; loops move the read position back, branches not taken are skipped by
  \<open>skip_next\<close>, and \<open>CHARGE_EXECUTION\<close> counts steps and throws when the limit is reached.
  Calling a contract function runs a new interpreter on the function's bytes.  The module
  \<open>blockchain\<close> reads the chain parameters and moves value; \<open>store\<close> is the storage.

  \<^bold>\<open>The theories\<close>, in the order they build on each other.

  \<^item> \<open>Prelude\<close>: results as \<open>exn + 'a\<close>, the state-and-exception combinators \<open>bnd\<close>, \<open>ret\<close>,
    \<open>throw\<close>, loops (\<open>times\<close>, \<open>for_each\<close>, \<open>loop_fuel\<close>), C division.
  \<^item> \<open>Bitstream\<close>: \<^verbatim>\<open>thirdparty/bitstream/include/bitstream.h\<close>, that is a \<open>std::stringstream\<close> with
    get and put positions and the fail bit, and the byte order of the wire.
  \<^item> \<open>Node_Types\<close>: the enumerations of \<^verbatim>\<open>NodeType.h\<close> and \<^verbatim>\<open>InterpreterTypes.h\<close> with their numbers.
  \<^item> \<open>Std_Map\<close>: \<open>std::map\<close>; the locale \<open>ordered_map\<close> is its interface, sorted association
    lists implement it.
  \<^item> \<open>Floats\<close>: the operations on \<open>double\<close> the code uses, on the bits of the number.
  \<^item> \<open>Values\<close>: the classes under \<open>Value\<close> as a datatype \<open>obj\<close>, and the heap.  A \<open>ValuePtr\<close> is an
    optional heap address, so aliasing is visible and a null pointer is \<open>None\<close>.
  \<^item> \<open>Containers\<close>, \<open>Container_Laws\<close>: lists, tuples, dictionaries, iterators, \<open>str()\<close>.
  \<^item> \<open>Persist\<close>: the storage (\<^verbatim>\<open>PersistableDictionary.cpp\<close>).
  \<^item> \<open>Scopes\<close>: \<^verbatim>\<open>Scope.cpp\<close>; live scopes form a list, a parent is an index.
  \<^item> \<open>Memory\<close>: \<open>DefaultMemoryManager\<close> (\<^verbatim>\<open>MemoryManager.cpp\<close>).
  \<^item> \<open>Chain\<close>: balances, transfers and the RC4 generator of \<^verbatim>\<open>blockchain_module.cpp\<close> and its header.
  \<^item> \<open>Machine\<close>: the state of a run, the step counter, names, modules, \<open>skip_next\<close>.
  \<^item> \<open>Builtins\<close>: the builtin functions, \<open>rand\<close>, and the functions of the blockchain module.
  \<^item> \<open>Meter\<close>: what it means that a program terminates within a measure (\<open>within\<close>), and the
    locale \<open>meter\<close> that proves the combinators respect it once for every measure.
  \<^item> \<open>Exec\<close>: \<open>execute_next\<close>, one definition per case of its switch, function calls, \<open>calldata\<close>.
  \<^item> \<open>Skipping\<close>, \<open>Gas\<close>, \<open>Gas_Nodes\<close>, \<open>Termination\<close>: the interpretations of \<open>meter\<close> for the bytes
    ahead and for the gas left; the locale \<open>chain_invariant\<close>, which carries any invariant of
    transfers through every node; the properties of whole runs.
  \<^item> \<open>Conformance\<close>, \<open>Heap_Safety\<close>: a heap is a store with types.  \<open>heap_ok\<close> says that every pointer in
    it is valid and points to the class its C++ type names, \<open>hext\<close> how objects may evolve.  The
    locale \<open>conformance\<close> is a small program logic over any such pair (a state that is right, and an
    order in which it grows); the rules for every operation on the heap are proved in it.
  \<^item> \<open>Safety\<close>, \<open>Safety_Builtins\<close>, \<open>Safety_Nodes\<close>, \<open>Safety_Runs\<close>, \<open>Safety_Contract\<close>: the same logic on
    whole states (\<open>vm_ok\<close>, \<open>vm_ext\<close>), from the scopes through the builtins and every node to
    calls, \<open>calldata\<close> and \<open>execute_program\<close>.
  \<^item> \<open>Exec_Laws\<close>: what operators, comparisons, the top-level guard and loop states do.
  \<^item> \<open>Contract\<close>: \<open>execute_program\<close>.
  \<^item> \<open>Compiler\<close>: \<^verbatim>\<open>Compiler.cpp\<close>, the parser's syntax tree (\<open>ast\<close>), the writer \<open>parse_next\<close> that
    goes back to fill in the length of a function, the bytecode as a pure function (\<open>encode\<close>),
    and the line reader.
  \<^item> \<open>Compiled_Skip\<close>, \<open>Compiled_Run\<close>: compiler and interpreter together.  \<open>skip_next\<close> skips one tree;
    the interpreter refines a source semantics of expressions (\<open>expr_value\<close>, \<open>expr_cost\<close>).
  \<^item> \<open>Source_Statements\<close>: the source semantics of statements, a big-step relation \<open>stmt_exec\<close> with the
    cost in steps and the number of rounds of loops, and a function \<open>stmt_value\<close> that computes it.
  \<^item> \<open>Block_Scopes\<close>: the scopes of a call, the function's own and those of the bodies of its loops,
    seen as one environment.
  \<^item> \<open>Compiled_Statements\<close>, \<open>Compiled_Suites\<close>, \<open>Compiled_Loops\<close>, \<open>Compiled_Range\<close>: the refinement,
    first single statements and branches, then lists, \<open>while\<close>, \<open>for\<close> over \<open>range\<close>; \<open>statements_run\<close>
    puts them together by induction over the relation.
  \<^item> \<open>Compiled_Functions\<close>, \<open>Compiled_Contract\<close>: a call runs a function's body; a definition binds its
    function; and a contract, a module of functions of which a later one replaces an earlier of the
    same name (\<open>called\<close>), goes from its tree through the compiler, \<open>execute\<close>, \<open>calldata\<close> and
    the call to the answer and the receipt.
  \<^item> \<open>Serialize\<close>: values on a stream, the end of \<^verbatim>\<open>Value.h\<close>.
  \<^item> \<open>Repl_Input\<close>, \<open>Shell\<close>, \<open>Shell_Laws\<close>: \<^verbatim>\<open>src/shell/main.cpp\<close>, first the helpers on text, then
    files, prompt, command line and \<open>main\<close> on the state \<open>shell\<close>, whose output is a list of events;
    then what an error at the prompt does to the next statement.
  \<^item> \<open>Library\<close>: the rest of \<^verbatim>\<open>library.cpp\<close>, and the address check.

  \<^bold>\<open>State.\<close>  The record \<open>vm\<close> is shared by all interpreters of a run: heap, scopes, output,
  chain parameters, and the running interpreter \<open>ip\<close> (its stream, counter, limit, modules).
  C++ references and pointers are heap addresses or scope indices; a local \<open>Scope\<close> or
  \<open>Interpreter\<close> is pushed for the extent of its block (\<open>local_scope\<close>, \<open>own_interp\<close>).  An
  exception is \<open>Inl\<close> and keeps the state reached when it was thrown.

  \<^bold>\<open>Fuel.\<close>  \<open>exec\<close> has fuel for the depth of recursion and the rounds of a loop.  Each level and
  each round charges a step, so the steps left under the limit bound it: fuel one above them
  is never used up (\<open>gas_bounds_execution\<close>, \<open>gas_bounds_calls\<close>), and more does not change the
  result.  \<open>skip_next\<close> takes the bytes ahead as fuel, which is enough (\<open>skip_next_total\<close>).
  \<open>str()\<close> of a list has one level per heap object; only a list that contains itself needs
  more, and the C++ recursion then overflows the stack, which is the value \<open>StackOverflow\<close>.

  \<^bold>\<open>Parameters.\<close>  Code that is not part of the program is an argument: decompression and the
  text archive (of \<open>execute_program\<close>), the address check of the bitcoin library and the numbers
  of \<open>rand()\<close> (in \<open>vm\<close>), the addresses of the host's memory pages (of \<open>mm_malloc\<close>); for the
  compiler and the shell also the parser with the errors it reports, the files of the disk, the
  input lines and the memory in use.  The hypotheses about them are that the archive loads what
  it saved (\<open>storage_survives_runs\<close>) and that decompression undoes compression
  (\<open>compiled_file_runs_like_source\<close>).

  The source semantics covers booleans, strings and integers, names, arithmetic, unary operators,
  single comparisons, assignments to names, \<open>if\<close> and \<open>else\<close>, \<open>while\<close>, \<open>for\<close> over a range with one or
  two bounds, \<open>break\<close>, \<open>continue\<close>, \<open>return\<close> and \<open>pass\<close>; other calls and containers in the source are
  outside it, though \<open>Exec\<close> models them.  It is a semantics of what the interpreter does, not of
  Python: the rounds behind a \<open>continue\<close> do nothing, and a name first assigned in the body of a loop
  is gone after the round.  Its theorems need fuel for the size of the body and the rounds of its
  loops, which are finite because the relation derives the run.

  \<^bold>\<open>What the lemmas show.\<close>  Compiled programs compute what their source says, at the cost the
  source has.  No run follows a dangling pointer, loses an object or confuses its class, and
  iterators stay valid while their container grows.  Runs end within their gas and never create value; the receipt and
  the storage are right for every outcome; transfers are exact; allocated blocks are disjoint;
  streams, storage and scopes return what was put into them; and the places where the code
  departs from Python or from its own documentation are stated as what it does (list
  assignment, dictionary multiplication, booleans in the storage, \<open>continue\<close>, comparisons,
  gas arithmetic, step counts of calls).

  \<^bold>\<open>Not modelled.\<close>  The parser, compression, address checks and bindings (third party or
  glue); the geo module, which is built only with the option \<^verbatim>\<open>use_geo\<close>; terminal colours
  and the history of the prompt.  Reference counts:
  a run's heap only grows, and the limit of the allocator is not connected to it.
\<close>

end
